(* ===== verification/Prelude.thy ===== *)
theory Prelude
  imports Main "HOL-Library.Word" "HOL-Library.Multiset" "HOL-Library.AList"
begin

text \<open>
  The shared base of the development: the outcome of a Go call, the generic
  facts on lists that several components use, and the two interfaces that
  many components implement, a transition system with an invariant and an
  encoder with its decoder.
\<close>

section \<open>Outcomes of a Go call\<close>

text \<open>
  A Go function that returns \<open>(value, error)\<close> returns the value
  (\<open>Ret\<close>), returns a non-nil error (\<open>Fail\<close>) or does not return at all because
  it panics (\<open>Panic\<close>: an index out of range, a nil dereference, a send on a
  closed channel, an explicit \<open>panic\<close>).
\<close>

datatype ('e, 'a) outcome = Ret 'a | Fail 'e | Panic

text \<open>Sequencing: \<open>x, err := f(); if err != nil { return err }; ...\<close>.\<close>

fun obind :: "('e, 'a) outcome \<Rightarrow> ('a \<Rightarrow> ('e, 'b) outcome) \<Rightarrow> ('e, 'b) outcome" where
  "obind (Ret x) f = f x"
| "obind (Fail e) f = Fail e"
| "obind Panic f = Panic"

text \<open>Wrapping an error on its way up: \<open>fmt.Errorf("context: %v", err)\<close>.\<close>

fun map_fail :: "('e \<Rightarrow> 'f) \<Rightarrow> ('e, 'a) outcome \<Rightarrow> ('f, 'a) outcome" where
  "map_fail g (Ret x) = Ret x"
| "map_fail g (Fail e) = Fail (g e)"
| "map_fail g Panic = Panic"

text \<open>A call of a package, whose error is wrapped.\<close>

definition attempt :: "('x \<Rightarrow> 'e) \<Rightarrow> 'x + 'a \<Rightarrow> ('e, 'a) outcome" where
  "attempt wrap r = (case r of Inl e \<Rightarrow> Fail (wrap e) | Inr x \<Rightarrow> Ret x)"

type_synonym u8 = "8 word"
type_synonym u32 = "32 word"
type_synonym u64 = "64 word"
type_synonym bytes = "8 word list"

named_theorems outcome_simps \<open>inversion of outcomes\<close>

lemma obind_cong [fundef_cong]:
  "x = y \<Longrightarrow> (\<And>a. y = Ret a \<Longrightarrow> f a = g a) \<Longrightarrow> obind x f = obind y g"
  by (cases y) simp_all

lemma obind_Ret_iff [outcome_simps]:
  "obind x f = Ret b \<longleftrightarrow> (\<exists>a. x = Ret a \<and> f a = Ret b)"
  by (cases x) simp_all

lemma obind_Fail_iff [outcome_simps]:
  "obind x f = Fail e \<longleftrightarrow> x = Fail e \<or> (\<exists>a. x = Ret a \<and> f a = Fail e)"
  by (cases x) simp_all

lemma obind_Panic_iff [outcome_simps]:
  "obind x f = Panic \<longleftrightarrow> x = Panic \<or> (\<exists>a. x = Ret a \<and> f a = Panic)"
  by (cases x) simp_all

lemma map_fail_Ret_iff [outcome_simps]: "map_fail g x = Ret a \<longleftrightarrow> x = Ret a"
  by (cases x) simp_all

lemma map_fail_Fail_iff [outcome_simps]:
  "map_fail g x = Fail e \<longleftrightarrow> (\<exists>e'. x = Fail e' \<and> e = g e')"
  by (cases x) auto

lemma map_fail_Panic_iff [outcome_simps]: "map_fail g x = Panic \<longleftrightarrow> x = Panic"
  by (cases x) simp_all

lemma attempt_iffs [outcome_simps]:
  "attempt w r = Ret a \<longleftrightarrow> r = Inr a" "attempt w r = Fail f \<longleftrightarrow> (\<exists>e. r = Inl e \<and> f = w e)" "attempt w r \<noteq> Panic"
  by (auto simp: attempt_def split: sum.splits)

section \<open>Lists as slices\<close>

text \<open>\<open>xs[a], xs[b] = xs[b], xs[a]\<close> within range keeps the elements.\<close>

lemma mset_swap_update [simp]:
  "i < length xs \<Longrightarrow> j < length xs \<Longrightarrow> mset (xs[i := xs ! j, j := xs ! i]) = mset xs"
  by (simp add: mset_update nth_list_update)

lemma set_nth_drop: "n \<le> k \<Longrightarrow> k < length xs \<Longrightarrow> xs ! k \<in> set (drop n xs)"
  by (auto simp: in_set_conv_nth intro!: exI [of _ "k - n"])

lemma nth_take_drop_eq:
  "take n xs = take n ys \<Longrightarrow> k < n \<Longrightarrow> length xs = length ys \<Longrightarrow> xs ! k = ys ! k"
  by (metis nth_take)

text \<open>What a list of shares amounts to when one of them changes.\<close>

lemma sum_list_share:
  fixes xs :: "'a::comm_monoid_add list"
  shows "i < length xs \<Longrightarrow> sum_list (xs[i := x]) + xs ! i = sum_list xs + x"
proof (induction xs arbitrary: i)
  case (Cons y ys)
  then show ?case by (cases i) (simp_all add: ac_simps)
qed simp

text \<open>
  A map given by its list of entries, for the code's \<open>range\<close> over a Go map:
  the order of the list is one the runtime may choose.
\<close>

definition range_order :: "('k \<rightharpoonup> 'v) \<Rightarrow> 'k list \<Rightarrow> bool" where
  "range_order m ks \<longleftrightarrow> distinct ks \<and> set ks = dom m"

lemma range_order_empty [simp]: "range_order Map.empty ks \<longleftrightarrow> ks = []"
  by (auto simp: range_order_def)

text \<open>A Go map as an association list.\<close>

lemma keys_update: "fst ` set (AList.update k v al) = insert k (fst ` set al)"
  by (induction al) auto

lemma set_update_subset: "set (AList.update k v al) \<subseteq> insert (k, v) (set al)"
  by (induction al) auto

lemma set_delete_subset: "set (AList.delete k al) \<subseteq> set al"
  by (auto simp: AList.delete_eq)

lemma update_fresh: "k \<notin> fst ` set al \<Longrightarrow> AList.update k v al = al @ [(k, v)]"
  by (induction al) auto

section \<open>Transition systems\<close>

inductive reachable :: "('s \<Rightarrow> bool) \<Rightarrow> ('s \<Rightarrow> 's \<Rightarrow> bool) \<Rightarrow> 's \<Rightarrow> bool"
  for init step
where
  reachable_init: "init s \<Longrightarrow> reachable init step s"
| reachable_step: "reachable init step s \<Longrightarrow> step s t \<Longrightarrow> reachable init step t"

text \<open>
  The contract of a component whose operations keep an invariant; what follows
  for every reachable state is proved once, here.
\<close>

locale invariant_system =
  fixes init :: "'s \<Rightarrow> bool"
    and step :: "'s \<Rightarrow> 's \<Rightarrow> bool"
    and inv :: "'s \<Rightarrow> bool"
  assumes init_inv: "init s \<Longrightarrow> inv s"
    and step_inv: "step s t \<Longrightarrow> inv s \<Longrightarrow> inv t"
begin

lemma reachable_inv: "reachable init step s \<Longrightarrow> inv s"
  by (induction rule: reachable.induct) (auto intro: init_inv step_inv)

lemma steps_inv: "step\<^sup>*\<^sup>* s t \<Longrightarrow> inv s \<Longrightarrow> inv t"
  by (induction rule: rtranclp_induct) (auto intro: step_inv)

lemma reachable_steps: "step\<^sup>*\<^sup>* s t \<Longrightarrow> reachable init step s \<Longrightarrow> reachable init step t"
  by (induction rule: rtranclp_induct) (auto intro: reachable_step)

end

text \<open>
  A system that always comes to rest: every step uses up weight, and a state that is not final can
  step. Every run is then bounded, and every run can be completed.
\<close>

locale progress_system = invariant_system init step inv
  for init :: "'s \<Rightarrow> bool" and step :: "'s \<Rightarrow> 's \<Rightarrow> bool" and inv :: "'s \<Rightarrow> bool" +
  fixes weight :: "'s \<Rightarrow> nat"
    and final :: "'s \<Rightarrow> bool"
  assumes weight_step: "step s t \<Longrightarrow> inv s \<Longrightarrow> weight t < weight s"
    and progress: "inv s \<Longrightarrow> \<not> final s \<Longrightarrow> \<exists>t. step s t"
begin

lemma run_bounded: "(step ^^ n) s t \<Longrightarrow> inv s \<Longrightarrow> n + weight t \<le> weight s"
proof (induction n arbitrary: t)
  case (Suc n)
  then obtain u where u: "(step ^^ n) s u" "step u t" by auto
  then have "inv u" using Suc.prems(2) steps_inv by (metis relpowp_imp_rtranclp)
  then show ?case using Suc.IH [OF u(1) Suc.prems(2)] weight_step [OF u(2)] by simp
qed simp

lemma reaches_final: "inv s \<Longrightarrow> \<exists>t. step\<^sup>*\<^sup>* s t \<and> final t"
proof (induction "weight s" arbitrary: s rule: less_induct)
  case less
  show ?case
  proof (cases "final s")
    case False
    then obtain u where u: "step s u" using progress less.prems by blast
    then show ?thesis
      using less.hyps [OF weight_step [OF u less.prems] step_inv [OF u less.prems]]
      by (meson converse_rtranclp_into_rtranclp)
  qed auto
qed

end

text \<open>Runs of a labelled system, and an abstract system that predicts its labels.\<close>

inductive run :: "('s \<Rightarrow> 'l \<Rightarrow> 's \<Rightarrow> bool) \<Rightarrow> 's \<Rightarrow> 'l list \<Rightarrow> 's \<Rightarrow> bool" for step where
  run_nil: "run step s [] s"
| run_snoc: "run step s ls t \<Longrightarrow> step t l u \<Longrightarrow> run step s (ls @ [l]) u"

fun spec_run :: "('a \<Rightarrow> 'l \<Rightarrow> 'a option) \<Rightarrow> 'a \<Rightarrow> 'l list \<Rightarrow> 'a option" where
  "spec_run astep a [] = Some a"
| "spec_run astep a (l # ls) = Option.bind (astep a l) (\<lambda>b. spec_run astep b ls)"

lemma spec_run_append:
  "spec_run astep a (ls @ ms) = Option.bind (spec_run astep a ls) (\<lambda>b. spec_run astep b ms)"
  by (induction ls arbitrary: a) (auto simp: bind_eq_Some_conv split: bind_split)

locale refinement =
  fixes init :: "'s \<Rightarrow> bool"
    and step :: "'s \<Rightarrow> 'l \<Rightarrow> 's \<Rightarrow> bool"
    and inv :: "'s \<Rightarrow> bool"
    and abs_state :: "'s \<Rightarrow> 'a"
    and ainit :: 'a
    and astep :: "'a \<Rightarrow> 'l \<Rightarrow> 'a option"
  assumes init_inv: "init s \<Longrightarrow> inv s"
    and init_abs: "init s \<Longrightarrow> abs_state s = ainit"
    and step_inv: "step s l t \<Longrightarrow> inv s \<Longrightarrow> inv t"
    and simulates: "step s l t \<Longrightarrow> inv s \<Longrightarrow> astep (abs_state s) l = Some (abs_state t)"
begin

lemma run_inv: "run step s ls t \<Longrightarrow> inv s \<Longrightarrow> inv t"
  by (induction rule: run.induct) (auto intro: step_inv)

lemma run_simulates: "run step s ls t \<Longrightarrow> inv s \<Longrightarrow> spec_run astep (abs_state s) ls = Some (abs_state t)"
proof (induction rule: run.induct)
  case (run_snoc s ls t l u)
  then show ?case by (simp add: spec_run_append simulates run_inv)
qed simp

lemma trace_refines: "init s \<Longrightarrow> run step s ls t \<Longrightarrow> spec_run astep ainit ls = Some (abs_state t)"
  using run_simulates init_inv init_abs by metis

end

section \<open>Encoders and decoders\<close>

text \<open>
  The contract of a wire format: decoding what was encoded gives the value
  back, for the values the format supports.
\<close>

locale codec =
  fixes enc :: "'a \<Rightarrow> 'w"
    and dec :: "'w \<Rightarrow> ('e, 'a) outcome"
    and supported :: "'a \<Rightarrow> bool"
  assumes dec_enc: "supported x \<Longrightarrow> dec (enc x) = Ret x"
begin

lemma enc_inj: "supported x \<Longrightarrow> supported y \<Longrightarrow> enc x = enc y \<Longrightarrow> x = y"
  by (metis dec_enc outcome.inject(1))

lemma enc_inj_on: "inj_on enc (Collect supported)"
  by (auto intro: inj_onI enc_inj)

lemma dec_enc_list: "list_all supported xs \<Longrightarrow> map (\<lambda>x. dec (enc x)) xs = map Ret xs"
  by (induction xs) (auto simp: dec_enc)

end

end
