(* ===== verification/Shuffle.thy ===== *)
theory Shuffle
  imports Prelude
begin

text \<open>
  The Fisher-Yates shuffle with an extendable pool (\<open>go/shuffle/shuffle.go\<close>).
  The pool is the record \<open>FisherYates\<close>; the random source is the parameter
  \<open>intn\<close>, a \<open>Rand\<close> of the code threaded as a state, with the contract of its
  doc comment (\<open>Intn returns an integer in [0,n)\<close>) as the predicate \<open>rand_ok\<close>.
  Indices out of range panic. The \<open>uint32\<close> arguments and results are 32-bit
  words, so the truncation in \<open>Remaining\<close> and \<open>GrowTo\<close> is part of the model.
\<close>

section \<open>The pool and its operations\<close>

record FisherYates =
  perm :: "nat list"
  shuffled :: nat

datatype shuffle_error = permuteTooMany (requested: u32) (remain: u32)

text \<open>\<open>for i := size; i < len(f.perm); i++ { f.perm[i] = i }\<close>\<close>

function fill_identity :: "nat list \<Rightarrow> nat \<Rightarrow> nat list" where
  "fill_identity p i = (if i < length p then fill_identity (p[i := i]) (Suc i) else p)"
  by pat_completeness auto
termination
  by (relation "measure (\<lambda>(p, i). length p - i)") auto

declare fill_identity.simps [simp del]

definition NewFisherYates :: "u32 \<Rightarrow> FisherYates" where
  "NewFisherYates n = \<lparr>perm = fill_identity (replicate (unat n) 0) 0, shuffled = 0\<rparr>"

definition Permutation :: "FisherYates \<Rightarrow> nat list" where
  "Permutation f = take (shuffled f) (perm f)"

definition Size :: "FisherYates \<Rightarrow> nat" where
  "Size f = length (perm f)"

text \<open>\<open>uint32(len(f.perm) - f.shuffled)\<close>: the conversion keeps the low 32 bits.\<close>

definition Remaining :: "FisherYates \<Rightarrow> u32" where
  "Remaining f = word_of_int (int (length (perm f)) - int (shuffled f))"

definition go_swap :: "nat list \<Rightarrow> int \<Rightarrow> int \<Rightarrow> (shuffle_error, nat list) outcome" where
  "go_swap p a b =
     (if 0 \<le> a \<and> a < int (length p) \<and> 0 \<le> b \<and> b < int (length p)
      then Ret (p[nat a := p ! nat b, nat b := p ! nat a])
      else Panic)"

type_synonym 'r rand = "'r \<Rightarrow> int \<Rightarrow> int \<times> 'r"

function permute_loop ::
  "'r rand \<Rightarrow> nat \<Rightarrow> nat \<Rightarrow> nat list \<Rightarrow> 'r \<Rightarrow> (shuffle_error, nat list \<times> 'r) outcome" where
  "permute_loop intn mx i p r =
     (if i < mx
      then (case intn r (int (length p) - int i) of (j, r') \<Rightarrow>
              obind (go_swap p (int i) (j + int i))
                (\<lambda>p'. permute_loop intn mx (Suc i) p' r'))
      else Ret (p, r))"
  by pat_completeness auto
termination
  by (relation "measure (\<lambda>(intn, mx, i, p, r). mx - i)") auto

declare permute_loop.simps [simp del]

definition Permute ::
  "'r rand \<Rightarrow> FisherYates \<Rightarrow> u32 \<Rightarrow> 'r \<Rightarrow> (shuffle_error, nat list \<times> FisherYates \<times> 'r) outcome" where
  "Permute intn f n r =
     (if n > Remaining f then Fail (permuteTooMany n (Remaining f))
      else let mx = shuffled f + unat n in
        obind (permute_loop intn mx (shuffled f) (perm f) r)
          (\<lambda>(p, r'). Ret (take (mx - shuffled f) (drop (shuffled f) p),
                          f\<lparr>perm := p, shuffled := mx\<rparr>, r')))"

definition PermuteUpTo ::
  "'r rand \<Rightarrow> FisherYates \<Rightarrow> u32 \<Rightarrow> 'r \<Rightarrow> (shuffle_error, nat list \<times> FisherYates \<times> 'r) outcome" where
  "PermuteUpTo intn f n r =
     (let n' = (if n > Remaining f then Remaining f else n) in
      case Permute intn f n' r of
        Ret x \<Rightarrow> Ret x
      | Fail _ \<Rightarrow> Panic
      | Panic \<Rightarrow> Panic)"

definition Grow :: "FisherYates \<Rightarrow> u32 \<Rightarrow> FisherYates" where
  "Grow f delta =
     f\<lparr>perm := fill_identity (perm f @ replicate (unat delta) 0) (length (perm f))\<rparr>"

definition GrowTo :: "FisherYates \<Rightarrow> u32 \<Rightarrow> FisherYates" where
  "GrowTo f n =
     (let sz = (of_nat (length (perm f)) :: u32) in
      if n < sz then f else Grow f (n - sz))"

text \<open>The contract of the \<open>Rand\<close> interface.\<close>

definition rand_ok :: "'r rand \<Rightarrow> bool" where
  "rand_ok intn \<longleftrightarrow> (\<forall>r n. 0 < n \<longrightarrow> 0 \<le> fst (intn r n) \<and> fst (intn r n) < n)"

text \<open>
  Every call a client with a conforming random source can make; a call that
  returns an error leaves the pool as it was, so it is no step.
\<close>

inductive fy_step :: "'r rand \<Rightarrow> FisherYates \<Rightarrow> FisherYates \<Rightarrow> bool" for intn where
  step_permute: "rand_ok intn \<Longrightarrow> Permute intn f n r = Ret (xs, f', r') \<Longrightarrow> fy_step intn f f'"
| step_upto: "rand_ok intn \<Longrightarrow> PermuteUpTo intn f n r = Ret (xs, f', r') \<Longrightarrow> fy_step intn f f'"
| step_grow: "fy_step intn f (Grow f delta)"
| step_growto: "fy_step intn f (GrowTo f n)"

definition fy_init :: "FisherYates \<Rightarrow> bool" where
  "fy_init f \<longleftrightarrow> (\<exists>n. f = NewFisherYates n)"

text \<open>
  The invariant: the pool is a permutation of the indices below its size, and
  no more of it is shuffled than there is.
\<close>

definition fy_inv :: "FisherYates \<Rightarrow> bool" where
  "fy_inv f \<longleftrightarrow> mset (perm f) = mset [0..<length (perm f)] \<and> shuffled f \<le> length (perm f)"

text \<open>The values a call may still choose.\<close>

definition unshuffled :: "FisherYates \<Rightarrow> nat list" where
  "unshuffled f = drop (shuffled f) (perm f)"

text \<open>A random source that plays back a script of draws.\<close>

fun scripted :: "int list rand" where
  "scripted [] n = (0, [])"
| "scripted (j # js) n = (j, js)"

section \<open>The loops\<close>

lemma fill_identity_eq:
  "i \<le> length p \<Longrightarrow> fill_identity p i = take i p @ [i..<length p]"
proof (induction p i rule: fill_identity.induct)
  case (1 p i)
  show ?case
  proof (cases "i < length p")
    case True
    then have "fill_identity p i = take (Suc i) (p[i := i]) @ [Suc i..<length p]"
      using "1.IH" by (simp add: fill_identity.simps [of p i])
    also have "take (Suc i) (p[i := i]) = take i p @ [i]"
      using True by (simp add: take_Suc_conv_app_nth)
    finally show ?thesis
      using True by (simp add: upt_conv_Cons)
  next
    case False
    with "1.prems" show ?thesis by (subst fill_identity.simps) simp
  qed
qed

lemma perm_NewFisherYates [simp]: "perm (NewFisherYates n) = [0..<unat n]"
  and shuffled_NewFisherYates [simp]: "shuffled (NewFisherYates n) = 0"
  by (simp_all add: NewFisherYates_def fill_identity_eq)

lemma perm_Grow [simp]:
  "perm (Grow f d) = perm f @ [length (perm f)..<length (perm f) + unat d]"
  and shuffled_Grow [simp]: "shuffled (Grow f d) = shuffled f"
  by (simp_all add: Grow_def fill_identity_eq)

lemma length_perm_New: "length (perm (NewFisherYates n)) = unat n"
  and length_perm_Grow: "length (perm (Grow f d)) = length (perm f) + unat d"
  by simp_all

lemma Permutation_Grow [simp]:
  "shuffled f \<le> length (perm f) \<Longrightarrow> Permutation (Grow f d) = Permutation f"
  by (simp add: Permutation_def)

lemma rand_okD: "rand_ok intn \<Longrightarrow> 0 < n \<Longrightarrow> intn r n = (j, r') \<Longrightarrow> 0 \<le> j \<and> j < n"
  unfolding rand_ok_def by (metis fst_conv)

text \<open>
  One pass of the loop: it does not panic, keeps the elements and everything
  below the start index.
\<close>

lemma permute_loop_ok:
  assumes "rand_ok intn" "i \<le> mx" "mx \<le> length p"
  shows "\<exists>p' r'. permute_loop intn mx i p r = Ret (p', r') \<and>
           mset p' = mset p \<and> take i p' = take i p"
  using assms
proof (induction intn mx i p r rule: permute_loop.induct)
  case (1 intn mx i p r)
  show ?case
  proof (cases "i < mx")
    case True
    obtain j r1 where draw: "intn r (int (length p) - int i) = (j, r1)"
      by fastforce
    have j: "0 \<le> j" "j < int (length p) - int i"
      using rand_okD [OF "1.prems"(1) _ draw] True "1.prems"(3) by auto
    let ?k = "nat (j + int i)"
    have k: "i \<le> ?k" "?k < length p"
      using j by auto
    let ?p1 = "p[i := p ! ?k, ?k := p ! i]"
    have swap: "go_swap p (int i) (j + int i) = Ret ?p1"
      using k j True "1.prems"(3) by (simp add: go_swap_def)
    have "\<exists>p' r'. permute_loop intn mx (Suc i) ?p1 r1 = Ret (p', r') \<and>
            mset p' = mset ?p1 \<and> take (Suc i) p' = take (Suc i) ?p1"
      using "1.IH" [OF True draw [symmetric] swap] "1.prems" True by simp
    then obtain p' r' where
      p': "permute_loop intn mx (Suc i) ?p1 r1 = Ret (p', r')" "mset p' = mset ?p1"
        "take (Suc i) p' = take (Suc i) ?p1" by blast
    have "take i p' = take i ?p1"
      using p'(3) by (metis min.absorb1 lessI less_imp_le_nat take_take)
    moreover have "permute_loop intn mx i p r = Ret (p', r')"
      using True draw swap p'(1) by (simp add: permute_loop.simps [of intn mx i])
    ultimately show ?thesis
      using p'(2) k True "1.prems"(3) by auto
  next
    case False
    then show ?thesis by (simp add: permute_loop.simps [of intn mx i])
  qed
qed

section \<open>The invariant\<close>

lemma mset_upt_append: "mset_set {0..<m} + mset_set {m..<m + n} = mset_set {0..<m + n :: nat}"
  by (metis mset_append mset_upt upt_add_eq_append zero_le)

lemma fy_inv_New: "fy_inv (NewFisherYates n)"
  by (simp add: fy_inv_def)

lemma fy_inv_Grow: "fy_inv f \<Longrightarrow> fy_inv (Grow f d)"
  by (simp add: fy_inv_def mset_upt_append)

lemma fy_inv_GrowTo: "fy_inv f \<Longrightarrow> fy_inv (GrowTo f n)"
  by (simp add: GrowTo_def Let_def fy_inv_Grow)

lemma fy_inv_distinct: "fy_inv f \<Longrightarrow> distinct (perm f)"
  unfolding fy_inv_def by (metis distinct_upt mset_eq_imp_distinct_iff)

lemma unat_Remaining_le:
  "fy_inv f \<Longrightarrow> unat (Remaining f) \<le> length (perm f) - shuffled f"
proof -
  assume "fy_inv f"
  then have "Remaining f = of_nat (length (perm f) - shuffled f)"
    by (simp add: fy_inv_def Remaining_def of_nat_diff flip: of_nat_diff)
  then show ?thesis by (simp add: unat_of_nat)
qed

text \<open>What a call of \<open>Permute\<close> does on the branch that does not return an error.\<close>

lemma Permute_ok:
  assumes inv: "fy_inv f" and ok: "rand_ok intn" and n: "n \<le> Remaining f"
  shows "\<exists>xs f' r'. Permute intn f n r = Ret (xs, f', r') \<and> fy_inv f' \<and>
           mset (perm f') = mset (perm f) \<and> shuffled f' = shuffled f + unat n \<and>
           length xs = unat n \<and> Permutation f' = Permutation f @ xs"
proof -
  let ?mx = "shuffled f + unat n"
  have "unat n \<le> unat (Remaining f)"
    using n by (simp add: word_le_nat_alt)
  then have mx: "?mx \<le> length (perm f)"
    using unat_Remaining_le [OF inv] inv by (auto simp: fy_inv_def)
  obtain p' r' where p': "permute_loop intn ?mx (shuffled f) (perm f) r = Ret (p', r')"
    "mset p' = mset (perm f)" "take (shuffled f) p' = take (shuffled f) (perm f)"
    using permute_loop_ok [OF ok _ mx, of "shuffled f" r] by auto
  let ?f = "f\<lparr>perm := p', shuffled := ?mx\<rparr>"
  let ?xs = "take (unat n) (drop (shuffled f) p')"
  have len: "length p' = length (perm f)"
    using p'(2) by (metis size_mset)
  have "Permute intn f n r = Ret (?xs, ?f, r')"
    using n p'(1) by (simp add: Permute_def Let_def)
  moreover have "fy_inv ?f"
    using inv p'(2) len mx by (simp add: fy_inv_def)
  moreover have "Permutation ?f = Permutation f @ ?xs"
    using p'(3) by (simp add: Permutation_def take_add)
  moreover have "length ?xs = unat n"
    using len mx by simp
  ultimately show ?thesis
    using p'(2) by auto
qed

lemma PermuteUpTo_eq:
  assumes "fy_inv f" "rand_ok intn"
  shows "PermuteUpTo intn f n r = Permute intn f (min n (Remaining f)) r"
proof -
  have "\<exists>x. Permute intn f (min n (Remaining f)) r = Ret x"
    using Permute_ok [OF assms, of "min n (Remaining f)" r] by auto
  moreover have "(if n > Remaining f then Remaining f else n) = min n (Remaining f)"
    by (auto simp: min_def)
  ultimately show ?thesis
    by (auto simp: PermuteUpTo_def Let_def)
qed

lemma fy_inv_Permute:
  assumes "fy_inv f" "rand_ok intn" "Permute intn f n r = Ret (xs, f', r')"
  shows "fy_inv f'"
proof -
  have "n \<le> Remaining f"
    using assms(3) by (auto simp: Permute_def split: if_splits)
  from Permute_ok [OF assms(1,2) this, of r] assms(3) show ?thesis
    by auto
qed

lemma fy_inv_step: "fy_step intn f f' \<Longrightarrow> fy_inv f \<Longrightarrow> fy_inv f'"
  by (induction rule: fy_step.induct)
    (auto intro: fy_inv_Permute fy_inv_Grow fy_inv_GrowTo simp: PermuteUpTo_eq)

interpretation fy: invariant_system fy_init "fy_step intn" fy_inv for intn :: "'r rand"
  by unfold_locales (auto simp: fy_init_def fy_inv_New intro: fy_inv_step)

lemma Permutation_unshuffled: "Permutation f @ unshuffled f = perm f"
  by (simp add: Permutation_def unshuffled_def)

lemma fy_inv_set: "fy_inv f \<Longrightarrow> set (perm f) = {..<length (perm f)}"
  unfolding fy_inv_def by (metis atLeast0LessThan set_mset_mset set_upt)

text \<open>\<open>Remaining\<close> is the number of unshuffled values modulo \<open>2^32\<close>.\<close>

lemma unat_Remaining:
  "fy_inv f \<Longrightarrow> unat (Remaining f) = length (unshuffled f) mod 2 ^ 32"
proof -
  assume "fy_inv f"
  then have "Remaining f = of_nat (length (perm f) - shuffled f)"
    by (simp add: fy_inv_def Remaining_def of_nat_diff flip: of_nat_diff)
  then show ?thesis
    by (simp add: unshuffled_def unat_of_nat)
qed

lemma set_unshuffled_diff:
  assumes "distinct (perm f)" "mset (perm f') = mset (perm f)" "Permutation f' = Permutation f @ xs"
  shows "mset (unshuffled f) = mset xs + mset (unshuffled f')"
    and "distinct xs" "set (unshuffled f') = set (unshuffled f) - set xs"
proof -
  show eq: "mset (unshuffled f) = mset xs + mset (unshuffled f')"
    using assms(2) unfolding Permutation_unshuffled [symmetric] assms(3)
    by (simp add: ac_simps)
  have "distinct (Permutation f @ xs @ unshuffled f')"
    using assms(1,2) unfolding Permutation_unshuffled [symmetric, of f'] assms(3)
    by (metis append.assoc mset_eq_imp_distinct_iff)
  then show "distinct xs" "set (unshuffled f') = set (unshuffled f) - set xs"
    using arg_cong [OF eq, of set_mset] by auto
qed

section \<open>Draws and outcomes correspond one to one\<close>

text \<open>
  A script of draws is admissible from index \<open>i\<close> of a pool of size \<open>m\<close> when each
  draw lies in the range the code asks for.
\<close>

definition admissible :: "nat \<Rightarrow> nat \<Rightarrow> int list \<Rightarrow> bool" where
  "admissible m i js \<longleftrightarrow> (\<forall>k < length js. 0 \<le> js ! k \<and> js ! k < int m - int i - int k)"

lemma admissible_Cons:
  "admissible m i (j # js) \<longleftrightarrow> 0 \<le> j \<and> j < int m - int i \<and> admissible m (Suc i) js"
  by (auto simp: admissible_def nth_Cons' All_less_Suc2 algebra_simps less_diff_eq)

lemma admissible_Nil [simp]: "admissible m i []"
  by (simp add: admissible_def)

definition swap_at :: "nat list \<Rightarrow> nat \<Rightarrow> int \<Rightarrow> nat list" where
  "swap_at p i j = p[i := p ! (i + nat j), i + nat j := p ! i]"

lemma length_swap_at [simp]: "length (swap_at p i j) = length p"
  by (simp add: swap_at_def)

lemma scripted_step:
  assumes "i < mx" "mx \<le> length p" "0 \<le> j" "j < int (length p) - int i"
  shows "permute_loop scripted mx i p (j # js) = permute_loop scripted mx (Suc i) (swap_at p i j) js"
proof -
  have "nat (j + int i) = i + nat j"
    using assms by simp
  then have "go_swap p (int i) (j + int i) = Ret (swap_at p i j)"
    using assms by (simp add: go_swap_def swap_at_def)
  then show ?thesis
    using assms(1) by (simp add: permute_loop.simps [of scripted mx i])
qed

lemma swap_at_nth_i:
  "i + nat j < length p \<Longrightarrow> swap_at p i j ! i = p ! (i + nat j)"
  by (simp add: swap_at_def nth_list_update)

lemma scripted_ok:
  "admissible (length p) i js \<Longrightarrow> i + length js \<le> length p \<Longrightarrow>
   \<exists>p'. permute_loop scripted (i + length js) i p js = Ret (p', []) \<and>
        length p' = length p \<and> take i p' = take i p"
proof (induction js arbitrary: i p)
  case Nil
  then show ?case by (simp add: permute_loop.simps)
next
  case (Cons j js)
  let ?p = "swap_at p i j"
  have j: "0 \<le> j" "j < int (length p) - int i" "admissible (length ?p) (Suc i) js"
    using Cons.prems(1) by (auto simp: admissible_Cons)
  obtain p' where p': "permute_loop scripted (Suc i + length js) (Suc i) ?p js = Ret (p', [])"
    "length p' = length p" "take (Suc i) p' = take (Suc i) ?p"
    using Cons.IH [OF j(3)] Cons.prems(2) by auto
  have "take i p' = take i ?p"
    using p'(3) by (metis min.absorb1 lessI less_imp_le_nat take_take)
  also have "\<dots> = take i p"
    by (simp add: swap_at_def)
  finally show ?case
    using p' scripted_step [of i "i + length (j # js)" p j js] j Cons.prems(2) by auto
qed

text \<open>The first value chosen is the one the first draw points at.\<close>

lemma scripted_first:
  assumes "admissible (length p) i (j # js)" "i + length (j # js) \<le> length p"
    and run: "permute_loop scripted (i + length (j # js)) i p (j # js) = Ret (p', r')"
  shows "p' ! i = p ! (i + nat j)"
proof -
  let ?p = "swap_at p i j"
  have j: "0 \<le> j" "j < int (length p) - int i" "admissible (length ?p) (Suc i) js"
    using assms(1) by (auto simp: admissible_Cons)
  have "permute_loop scripted (Suc i + length js) (Suc i) ?p js = Ret (p', r')"
    using run scripted_step [of i "i + length (j # js)" p j js] j assms(2) by simp
  then have "take (Suc i) p' = take (Suc i) ?p" "length p' = length ?p"
    using scripted_ok [OF j(3)] assms(2) by auto
  then have "p' ! i = ?p ! i"
    by (intro nth_take_drop_eq [of "Suc i"]) auto
  then show ?thesis
    using j by (simp add: swap_at_nth_i)
qed

text \<open>After the first swap the values left are the others.\<close>

lemma set_drop_swap_at:
  assumes "distinct p" "0 \<le> j" "j < int (length p) - int i"
  shows "set (drop (Suc i) (swap_at p i j)) = set (drop i p) - {p ! (i + nat j)}"
    and "distinct (swap_at p i j)"
proof -
  let ?p = "swap_at p i j"
  have k: "i + nat j < length p" "i < length p"
    using assms by auto
  have m: "mset ?p = mset p"
    using k by (simp add: swap_at_def)
  show d: "distinct ?p"
    using assms(1) m by (metis mset_eq_imp_distinct_iff)
  have "take i ?p = take i p"
    by (simp add: swap_at_def)
  then have "mset (drop i ?p) = mset (drop i p)"
    using m by (metis add_left_cancel append_take_drop_id mset_append)
  then have "set (drop i ?p) = set (drop i p)"
    by (metis set_mset_mset)
  moreover have "drop i ?p = ?p ! i # drop (Suc i) ?p"
    using k by (simp add: Cons_nth_drop_Suc)
  moreover have "distinct (drop i ?p)"
    using d by simp
  ultimately show "set (drop (Suc i) ?p) = set (drop i p) - {p ! (i + nat j)}"
    using swap_at_nth_i [OF k(1)] by auto
qed

definition draws_for :: "nat list \<Rightarrow> nat \<Rightarrow> nat list \<Rightarrow> int list \<Rightarrow> bool" where
  "draws_for p i ys js \<longleftrightarrow> length js = length ys \<and> admissible (length p) i js \<and>
     (\<exists>p'. permute_loop scripted (i + length ys) i p js = Ret (p', []) \<and>
           take (length ys) (drop i p') = ys)"

lemma draws_for_Cons:
  assumes "distinct p" "i + length (y # ys) \<le> length p"
  shows "draws_for p i (y # ys) (j # js) \<longleftrightarrow>
    0 \<le> j \<and> j < int (length p) - int i \<and> p ! (i + nat j) = y \<and>
    draws_for (swap_at p i j) (Suc i) ys js"
proof (cases "0 \<le> j \<and> j < int (length p) - int i \<and> admissible (length p) (Suc i) js \<and>
    length js = length ys")
  case True
  then obtain p' where p': "permute_loop scripted (i + length (j # js)) i p (j # js) = Ret (p', [])"
    "length p' = length p"
    using scripted_ok [of p i "j # js"] assms(2) by (auto simp: admissible_Cons)
  have first: "p' ! i = p ! (i + nat j)"
    using scripted_first [OF _ _ p'(1)] True assms(2) by (simp add: admissible_Cons)
  have step: "permute_loop scripted (Suc i + length js) (Suc i) (swap_at p i j) js = Ret (p', [])"
    using p'(1) scripted_step [of i "i + length (j # js)" p j js] True assms(2) by simp
  have "drop i p' = p' ! i # drop (Suc i) p'"
    using p'(2) assms(2) by (simp add: Cons_nth_drop_Suc)
  then show ?thesis
    using True p'(1) first step by (auto simp: draws_for_def admissible_Cons)
next
  case False
  then show ?thesis by (auto simp: draws_for_def admissible_Cons)
qed

lemma draws_for_unique:
  assumes "distinct p" "i + length ys \<le> length p" "distinct ys" "set ys \<subseteq> set (drop i p)"
  shows "\<exists>!js. draws_for p i ys js"
  using assms
proof (induction ys arbitrary: p i)
  case Nil
  then show ?case by (auto simp: draws_for_def permute_loop.simps)
next
  case (Cons y ys)
  obtain k where k: "k < length (drop i p)" "drop i p ! k = y"
    using Cons.prems(4) by (metis in_set_conv_nth list.set_intros(1) subsetD)
  let ?j = "int k"
  have j: "0 \<le> ?j" "?j < int (length p) - int i" "p ! (i + nat ?j) = y"
    using k by auto
  have uniq: "j' = ?j" if "0 \<le> j'" "j' < int (length p) - int i" "p ! (i + nat j') = y" for j'
  proof -
    have "i + nat j' = i + k"
      using that k nth_eq_iff_index_eq [OF Cons.prems(1), of "i + nat j'" "i + k"] by auto
    then show ?thesis using that by simp
  qed
  have "\<exists>!js. draws_for (swap_at p i ?j) (Suc i) ys js"
    using Cons.IH [of "swap_at p i ?j" "Suc i"] Cons.prems j(3)
      set_drop_swap_at [OF Cons.prems(1) j(1,2)] by auto
  then obtain js where js: "draws_for (swap_at p i ?j) (Suc i) ys js"
    "\<And>js'. draws_for (swap_at p i ?j) (Suc i) ys js' \<Longrightarrow> js' = js" by blast
  show ?case
  proof (rule ex1I [of _ "?j # js"])
    show "draws_for p i (y # ys) (?j # js)"
      using draws_for_Cons [OF Cons.prems(1,2)] j js(1) by simp
  next
    fix ds
    assume ds: "draws_for p i (y # ys) ds"
    then obtain j' js' where "ds = j' # js'"
      by (cases ds) (auto simp: draws_for_def)
    with ds show "ds = ?j # js"
      using draws_for_Cons [OF Cons.prems(1,2)] uniq js(2) by auto
  qed
qed

section \<open>Properties\<close>

text \<open>
  C16. In every pool a client can build, the shuffled values followed by the values
  still to be chosen are exactly the indices \<open>0, ..., Size()-1\<close>, each once: the pool
  stays a permutation through any sequence of \<open>Permute\<close>, \<open>PermuteUpTo\<close>, \<open>Grow\<close>
  and \<open>GrowTo\<close> calls.
\<close>

theorem shuffle_pool_is_permutation:
  assumes "reachable fy_init (fy_step intn) f"
  shows "distinct (Permutation f @ unshuffled f) \<and>
         set (Permutation f @ unshuffled f) = {..<Size f} \<and>
         length (Permutation f) = shuffled f"
proof -
  have inv: "fy_inv f"
    using assms by (rule fy.reachable_inv)
  then show ?thesis
    unfolding Permutation_unshuffled using fy_inv_distinct [OF inv] fy_inv_set [OF inv]
    by (simp add: Size_def Permutation_def fy_inv_def)
qed

theorem shuffle_pool_is_permutation_witness:
  "distinct (Permutation (Grow (NewFisherYates 3) 2) @ unshuffled (Grow (NewFisherYates 3) 2)) \<and>
   set (Permutation (Grow (NewFisherYates 3) 2) @ unshuffled (Grow (NewFisherYates 3) 2)) = {..<5}"
proof -
  have "reachable fy_init (fy_step scripted) (NewFisherYates 3)"
    by (rule reachable_init) (auto simp: fy_init_def)
  then have "reachable fy_init (fy_step scripted) (Grow (NewFisherYates 3) 2)"
    by (rule reachable_step) (rule step_grow)
  moreover have "Size (Grow (NewFisherYates 3) 2) = 5"
    by (simp add: Size_def)
  ultimately show ?thesis
    using shuffle_pool_is_permutation [of scripted "Grow (NewFisherYates 3) 2"] by argo
qed

text \<open>
  With a random source that keeps its contract, \<open>Permute(n)\<close> for \<open>n\<close> up to
  \<open>Remaining()\<close> never panics and never fails: it returns \<open>n\<close> distinct values that
  were not chosen before, appends them to \<open>Permutation()\<close>, and leaves exactly the
  other values to choose from.
\<close>

theorem Permute_chooses:
  assumes "reachable fy_init (fy_step intn) f" and "rand_ok intn" and "n \<le> Remaining f"
  shows "\<exists>xs f' r'. Permute intn f n r = Ret (xs, f', r') \<and>
           length xs = unat n \<and> distinct xs \<and> set xs \<subseteq> set (unshuffled f) \<and>
           Permutation f' = Permutation f @ xs \<and>
           set (unshuffled f') = set (unshuffled f) - set xs \<and> Size f' = Size f"
proof -
  have inv: "fy_inv f"
    using assms(1) by (rule fy.reachable_inv)
  obtain xs f' r' where r: "Permute intn f n r = Ret (xs, f', r')"
    "mset (perm f') = mset (perm f)" "length xs = unat n" "Permutation f' = Permutation f @ xs"
    using Permute_ok [OF inv assms(2,3), of r] by auto
  note d = set_unshuffled_diff [OF fy_inv_distinct [OF inv] r(2,4)]
  have "set xs \<subseteq> set (unshuffled f)"
    using arg_cong [OF d(1), of set_mset] by simp
  moreover have "Size f' = Size f"
    using r(2) by (metis Size_def size_mset)
  ultimately show ?thesis
    using r d by blast
qed

text \<open>The random source that always draws the first value conforms to the contract.\<close>

definition first_rand :: "nat rand" where
  "first_rand r n = (0, Suc r)"

lemma rand_ok_first: "rand_ok first_rand"
  by (simp add: rand_ok_def first_rand_def)

theorem Permute_chooses_witness:
  "\<exists>xs f' r'. Permute first_rand (NewFisherYates 3) 2 0 = Ret (xs, f', r') \<and> length xs = 2 \<and>
     distinct xs"
proof -
  have "reachable fy_init (fy_step first_rand) (NewFisherYates 3)"
    by (rule reachable_init) (auto simp: fy_init_def)
  moreover have "2 \<le> Remaining (NewFisherYates 3)"
    by (simp add: Remaining_def)
  ultimately show ?thesis
    using Permute_chooses [OF _ rand_ok_first, of "NewFisherYates 3" 2 0] by auto
qed

text \<open>
  C19. The shuffle can produce every outcome, and each in exactly one way: for every
  list of distinct values still in the pool there is exactly one sequence of draws, each
  in the range the code asks for, that makes \<open>Permute\<close> return it. A uniform source of
  draws therefore gives every outcome the same probability.
\<close>

theorem Permute_draws_unique:
  assumes "reachable fy_init (fy_step intn) f"
    and "distinct ys" and "set ys \<subseteq> set (unshuffled f)" and "length ys \<le> unat (Remaining f)"
  shows "\<exists>!js. length js = length ys \<and> admissible (Size f) (shuffled f) js \<and>
           (\<exists>f'. Permute scripted f (of_nat (length ys)) js = Ret (ys, f', []))"
proof -
  have inv: "fy_inv f"
    using assms(1) by (rule fy.reachable_inv)
  let ?n = "of_nat (length ys) :: u32"
  have un: "unat ?n = length ys"
    using assms(4) unsigned_less [of "Remaining f", where 'a = nat] by (simp add: unat_of_nat)
  have le: "\<not> ?n > Remaining f"
    using assms(4) un by (simp add: word_less_nat_alt)
  have fit: "shuffled f + length ys \<le> length (perm f)"
    using unat_Remaining_le [OF inv] assms(4) inv by (auto simp: fy_inv_def)
  have "draws_for (perm f) (shuffled f) ys js \<longleftrightarrow>
      length js = length ys \<and> admissible (Size f) (shuffled f) js \<and>
      (\<exists>f'. Permute scripted f ?n js = Ret (ys, f', []))" for js
    using un le by (auto simp: draws_for_def Permute_def Let_def Size_def outcome_simps)
  then show ?thesis
    using draws_for_unique [OF fy_inv_distinct [OF inv] fit assms(2)] assms(3)
    by (simp add: unshuffled_def)
qed

theorem Permute_draws_unique_witness:
  "\<exists>!js. length js = 2 \<and> admissible 3 0 js \<and>
     (\<exists>f'. Permute scripted (NewFisherYates 3) 2 js = Ret ([2, 0], f', []))"
proof -
  have "reachable fy_init (fy_step scripted) (NewFisherYates 3)"
    by (rule reachable_init) (auto simp: fy_init_def)
  from Permute_draws_unique [OF this, of "[2, 0]"] show ?thesis
    by (simp add: unshuffled_def Remaining_def Size_def numeral_2_eq_2 [symmetric])
qed

text \<open>
  \<open>Permute\<close> returns its error exactly when more values are asked for than
  \<open>Remaining()\<close>, and then reports both numbers; \<open>PermuteUpTo(n)\<close> is \<open>Permute\<close> of the
  smaller of the two and so never reaches its \<open>panic("BUG")\<close>.
\<close>

theorem PermuteUpTo_never_panics:
  assumes "reachable fy_init (fy_step intn) f" and "rand_ok intn"
  shows "(\<forall>e. Permute intn f n r = Fail e \<longleftrightarrow> n > Remaining f \<and> e = permuteTooMany n (Remaining f)) \<and>
         Permute intn f n r \<noteq> Panic \<and>
         PermuteUpTo intn f n r = Permute intn f (min n (Remaining f)) r \<and>
         (\<exists>x. PermuteUpTo intn f n r = Ret x)"
proof -
  have inv: "fy_inv f"
    using assms(1) by (rule fy.reachable_inv)
  have big: "Permute intn f n r = Fail (permuteTooMany n (Remaining f))" if "n > Remaining f"
    using that by (simp add: Permute_def)
  have small: "\<exists>x. Permute intn f m r = Ret x" if "m \<le> Remaining f" for m
    using Permute_ok [OF inv assms(2) that, of r] by auto
  show ?thesis
    using big small [of n] small [of "min n (Remaining f)"] PermuteUpTo_eq [OF inv assms(2)]
    by (cases "n > Remaining f") (auto simp: not_less)
qed

theorem PermuteUpTo_never_panics_witness:
  "\<exists>x. PermuteUpTo first_rand (NewFisherYates 3) 7 0 = Ret x"
proof -
  have "reachable fy_init (fy_step first_rand) (NewFisherYates 3)"
    by (rule reachable_init) (auto simp: fy_init_def)
  from PermuteUpTo_never_panics [OF this rand_ok_first, of 7 0] show ?thesis
    by blast
qed

text \<open>
  \<open>GrowTo(n)\<close> on a pool of fewer than \<open>2^32\<close> values makes its size the larger of
  \<open>n\<close> and the old size, changes no value already in the pool and appends the new
  indices in order. (The doc comment says \<open>f.Grow(max(0, f.Size()-n))\<close>, with the
  difference the wrong way round.)
\<close>

theorem GrowTo_size:
  assumes "Size f < 2 ^ 32"
  shows "Size (GrowTo f n) = max (Size f) (unat n) \<and>
         perm (GrowTo f n) = perm f @ [Size f..<max (Size f) (unat n)] \<and>
         shuffled (GrowTo f n) = shuffled f"
proof -
  let ?sz = "of_nat (length (perm f)) :: u32"
  have sz: "unat ?sz = length (perm f)"
    using assms by (simp add: Size_def unat_of_nat)
  show ?thesis
  proof (cases "n < ?sz")
    case True
    then show ?thesis
      using sz by (simp add: GrowTo_def Size_def word_less_nat_alt)
  next
    case False
    then have "unat (n - ?sz) = unat n - length (perm f)" "length (perm f) \<le> unat n"
      using sz by (simp_all add: unat_sub_if' word_less_nat_alt)
    then show ?thesis
      using False by (simp add: GrowTo_def Size_def Let_def)
  qed
qed

theorem GrowTo_size_witness: "Size (GrowTo (NewFisherYates 2) 5) = 5"
  using GrowTo_size [of "NewFisherYates 2" 5] by (simp add: Size_def)

text \<open>
  \<open>Remaining()\<close> is the number of unshuffled values only modulo \<open>2^32\<close>: growing a
  pool by \<open>2^32\<close> or more values in several calls makes \<open>Remaining()\<close> wrap around, and
  \<open>Permute\<close> then refuses to choose values that are there.
\<close>

theorem Remaining_wraps_around:
  assumes "reachable fy_init (fy_step intn) f"
  shows "unat (Remaining f) = (Size f - length (Permutation f)) mod 2 ^ 32 \<and>
         (Size f - length (Permutation f) = 2 ^ 32 \<longrightarrow>
            Permute intn f 1 r = Fail (permuteTooMany 1 0))"
proof -
  have inv: "fy_inv f"
    using assms by (rule fy.reachable_inv)
  have len: "length (unshuffled f) = Size f - length (Permutation f)"
    using inv by (simp add: unshuffled_def Size_def Permutation_def fy_inv_def)
  have "Remaining f = 0" if "length (unshuffled f) = 2 ^ 32"
    using unat_Remaining [OF inv] that by (simp add: unat_eq_0 [symmetric])
  then show ?thesis
    using unat_Remaining [OF inv] by (simp add: len Permute_def)
qed

theorem Remaining_wraps_around_witness:
  "Permute scripted (Grow (NewFisherYates (2 ^ 31)) (2 ^ 31)) 1 [0] = Fail (permuteTooMany 1 0)"
proof -
  let ?f = "Grow (NewFisherYates (2 ^ 31)) (2 ^ 31)"
  have "reachable fy_init (fy_step scripted) (NewFisherYates (2 ^ 31))"
    by (rule reachable_init) (auto simp: fy_init_def)
  then have "reachable fy_init (fy_step scripted) ?f"
    by (rule reachable_step) (rule step_grow)
  moreover have "Size ?f - length (Permutation ?f) = 2 ^ 32"
    unfolding Size_def Permutation_def length_take length_perm_Grow length_perm_New
      shuffled_Grow shuffled_NewFisherYates by simp
  ultimately show ?thesis
    using Remaining_wraps_around [of scripted ?f "[0]"] by simp
qed

end
