(* ===== verification/GoBig.thy ===== *)
theory GoBig
  imports Complex_Main Prelude
begin

text \<open>
  The parts of Go's \<open>math/big\<close>, \<open>math/bits\<close> and \<open>crypto/rand\<close> that the field
  arithmetic uses. A \<open>big.Int\<close> is an \<open>int\<close>. \<open>Mod\<close> is Euclidean (its result is never
  negative), \<open>Exp\<close> ignores the sign of the modulus and is modelled for the
  non-negative exponents the package passes, \<open>ModInverse\<close> runs the extended
  Euclidean algorithm and returns nil when there is no inverse, and \<open>rand.Int\<close>
  draws from a reader, given as the finite list of bytes it still delivers
  before it reports an error.
\<close>

unbundle bit_operations_syntax

section \<open>Big integers\<close>

definition bigMod :: "int \<Rightarrow> int \<Rightarrow> int" where
  "bigMod x m = x mod \<bar>m\<bar>"

definition bigExp :: "int \<Rightarrow> nat \<Rightarrow> int \<Rightarrow> int" where
  "bigExp x y m = (if m = 0 then x ^ y else x ^ y mod \<bar>m\<bar>)"

function egcd :: "int \<Rightarrow> int \<Rightarrow> int \<times> int \<times> int" where
  "egcd a b = (if b \<le> 0 then (a, 1, 0)
     else case egcd b (a mod b) of (d, x, y) \<Rightarrow> (d, y, x - (a div b) * y))"
  by pat_completeness auto
termination
  by (relation "measure (\<lambda>(a, b). nat b)") auto

declare egcd.simps [simp del]

definition bigModInverse :: "int \<Rightarrow> int \<Rightarrow> int option" where
  "bigModInverse g n =
     (let m = \<bar>n\<bar>; g' = (if g < 0 then g mod m else g) in
      case egcd g' m of (d, x, y) \<Rightarrow> if d = 1 then Some (x mod m) else None)"

text \<open>\<open>SetBytes\<close> reads the bytes as a big-endian unsigned number.\<close>

definition bytes_to_nat :: "bytes \<Rightarrow> nat" where
  "bytes_to_nat bs = fold (\<lambda>b acc. acc * 256 + unat b) bs 0"

text \<open>\<open>bits.Len64\<close> and \<open>BitLen\<close>: the number of bits needed to write the number.\<close>

fun bitLen :: "nat \<Rightarrow> nat" where
  "bitLen n = (if n = 0 then 0 else Suc (bitLen (n div 2)))"

declare bitLen.simps [simp del]

lemma bitLen_0 [simp]: "bitLen 0 = 0"
  by (simp add: bitLen.simps)

lemma bitLen_eq_0 [simp]: "bitLen n = 0 \<longleftrightarrow> n = 0"
  by (subst bitLen.simps) simp

lemma bitLen_pos [simp]: "0 < bitLen n \<longleftrightarrow> 0 < n"
  by (subst bitLen.simps) simp

definition LeadingZeros64 :: "u64 \<Rightarrow> nat" where
  "LeadingZeros64 x = 64 - bitLen (unat x)"

section \<open>Random numbers\<close>

datatype rand_error = ReaderExhausted

text \<open>
  The loop of \<open>rand.Int\<close>: read \<open>k\<close> bytes, clear the excess bits of the first one,
  accept the number when it is below \<open>max\<close>. The callers pass \<open>k > 0\<close>.
\<close>

function rand_loop :: "nat \<Rightarrow> nat \<Rightarrow> int \<Rightarrow> bytes \<Rightarrow> (rand_error, int \<times> bytes) outcome" where
  "rand_loop k b mx bs =
     (if k = 0 \<or> length bs < k then Fail ReaderExhausted
      else let chunk = take k bs;
               masked = (hd chunk AND (mask b)) # tl chunk;
               n = int (bytes_to_nat masked)
           in if n < mx then Ret (n, drop k bs) else rand_loop k b mx (drop k bs))"
  by pat_completeness auto
termination
  by (relation "measure (\<lambda>(k, b, mx, bs). length bs)") auto

declare rand_loop.simps [simp del]

definition rand_Int :: "bytes \<Rightarrow> int \<Rightarrow> (rand_error, int \<times> bytes) outcome" where
  "rand_Int bs mx =
     (if mx \<le> 0 then Panic
      else let bl = bitLen (nat (mx - 1)) in
        if bl = 0 then Ret (0, bs)
        else rand_loop ((bl + 7) div 8) (if bl mod 8 = 0 then 8 else bl mod 8) mx bs)"

lemma rand_loop_range:
  "rand_loop k b mx bs = Ret (x, bs') \<Longrightarrow> 0 \<le> x \<and> x < mx \<and> length bs' < length bs"
proof (induction k b mx bs rule: rand_loop.induct)
  case (1 k b mx bs)
  then show ?case
    by (simp add: rand_loop.simps [of k b mx bs] Let_def split: if_splits) fastforce+
qed

lemma rand_Int_range: "rand_Int bs mx = Ret (x, bs') \<Longrightarrow> 0 \<le> x \<and> x < mx"
  by (auto simp: rand_Int_def Let_def dest: rand_loop_range split: if_splits)

lemma rand_Int_consumes:
  "1 < mx \<Longrightarrow> rand_Int bs mx = Ret (x, bs') \<Longrightarrow> length bs' < length bs"
  by (auto simp: rand_Int_def Let_def dest: rand_loop_range split: if_splits)

section \<open>Bit lengths and powers of two\<close>

lemma bitLen_bounds: "0 < n \<Longrightarrow> 2 ^ (bitLen n - 1) \<le> n \<and> n < 2 ^ bitLen n"
proof (induction n rule: bitLen.induct)
  case (1 n)
  show ?case
  proof (cases "n = 1")
    case True
    then show ?thesis by (simp add: bitLen.simps)
  next
    case False
    with "1.prems" have h: "0 < n div 2" by simp
    have len: "bitLen n = Suc (bitLen (n div 2))"
      using "1.prems" by (subst bitLen.simps) simp
    have IH: "2 ^ (bitLen (n div 2) - 1) \<le> n div 2" "n div 2 < 2 ^ bitLen (n div 2)"
      using "1.IH" "1.prems" h by auto
    obtain m where m: "bitLen (n div 2) = Suc m"
      using h by (metis bitLen_pos gr0_implies_Suc)
    from IH m len show ?thesis
      by auto
  qed
qed

text \<open>\<open>n & (n-1) == 0\<close> tests for zero or a power of two.\<close>

lemma and_pred_power2: "(2::nat) ^ k AND (2 ^ k - 1) = 0"
proof -
  have "(2::nat) ^ k AND (2 ^ k - 1) = 2 ^ k AND mask k"
    by (simp add: mask_eq_exp_minus_1)
  also have "\<dots> = take_bit k (2 ^ k)"
    by (simp add: take_bit_eq_mask)
  finally show ?thesis by simp
qed

lemma and_pred_eq_0D: "0 < n \<Longrightarrow> n AND (n - 1) = (0::nat) \<Longrightarrow> \<exists>k. n = 2 ^ k"
proof (induction n rule: less_induct)
  case (less n)
  show ?case
  proof (cases "even n")
    case True
    then obtain m where m: "n = 2 * m" by blast
    with less.prems have "0 < m" by simp
    then have pred: "n - 1 = 2 * (m - 1) + 1" using m by simp
    have "n AND (n - 1) = 2 * (m AND (m - 1))"
      using \<open>0 < m\<close> unfolding pred unfolding m by (subst and_rec) simp
    with less.prems have "m AND (m - 1) = 0" by simp
    with less.IH [of m] \<open>0 < m\<close> m show ?thesis by (metis less_add_same_cancel1 mult_2 power_Suc)
  next
    case False
    then obtain m where m: "n = 2 * m + 1" by (blast elim: oddE)
    have "n AND (n - 1) = 2 * m"
      unfolding m by (subst and_rec) simp
    with less.prems m show ?thesis by (metis One_nat_def add_0 mult_0_right mult_eq_0_iff power_0)
  qed
qed

lemma and_pred_iff: "0 < n \<Longrightarrow> n AND (n - 1) = (0::nat) \<longleftrightarrow> (\<exists>k. n = 2 ^ k)"
  using and_pred_eq_0D and_pred_power2 by metis

section \<open>The extended Euclidean algorithm\<close>

lemma egcd_correct:
  "0 \<le> a \<Longrightarrow> 0 \<le> b \<Longrightarrow> egcd a b = (d, x, y) \<Longrightarrow> d = gcd a b \<and> a * x + b * y = d"
proof (induction a b arbitrary: d x y rule: egcd.induct)
  case (1 a b)
  show ?case
  proof (cases "b \<le> 0")
    case True
    with "1.prems" show ?thesis by (subst (asm) egcd.simps) auto
  next
    case False
    obtain d' x' y' where rec: "egcd b (a mod b) = (d', x', y')"
      by (metis prod_cases3)
    have "d' = gcd b (a mod b)" "b * x' + (a mod b) * y' = d'"
      using "1.IH" [OF False _ _ rec] False by auto
    moreover have "d = d'" "x = y'" "y = x' - (a div b) * y'"
      using "1.prems"(3) rec False by (auto simp: egcd.simps [of a b])
    moreover have "a * y' + b * (x' - (a div b) * y') = b * x' + (a - b * (a div b)) * y'"
      by (simp add: algebra_simps)
    ultimately show ?thesis
      by (simp add: minus_mult_div_eq_mod gcd_red_int [of a b] gcd.commute)
  qed
qed

lemma bigModInverse_Some:
  assumes "bigModInverse g n = Some v" "n \<noteq> 0"
  shows "0 \<le> v \<and> v < \<bar>n\<bar> \<and> (g * v) mod \<bar>n\<bar> = 1 mod \<bar>n\<bar>"
proof -
  let ?g = "if g < 0 then g mod \<bar>n\<bar> else g"
  obtain d x y where e: "egcd ?g \<bar>n\<bar> = (d, x, y)"
    by (metis prod_cases3)
  with assms have v: "d = 1" "v = x mod \<bar>n\<bar>"
    by (auto simp: bigModInverse_def Let_def split: if_splits)
  have "0 \<le> ?g" using assms(2) by simp
  from egcd_correct [OF this _ e] v have "?g * x + \<bar>n\<bar> * y = 1"
    by simp
  then have "(?g * x) mod \<bar>n\<bar> = 1 mod \<bar>n\<bar>"
    by (metis mod_mult_self2)
  moreover have "(g * v) mod \<bar>n\<bar> = (?g * x) mod \<bar>n\<bar>"
    by (simp add: v(2) mod_mult_right_eq mod_mult_left_eq)
  ultimately show ?thesis
    using assms(2) v(2) by simp
qed

lemma bigModInverse_coprime:
  assumes "coprime g n" "n \<noteq> 0"
  shows "\<exists>v. bigModInverse g n = Some v"
proof -
  let ?g = "if g < 0 then g mod \<bar>n\<bar> else g"
  obtain d x y where e: "egcd ?g \<bar>n\<bar> = (d, x, y)"
    by (metis prod_cases3)
  have "0 \<le> ?g" using assms(2) by simp
  from egcd_correct [OF this _ e] have "d = gcd ?g \<bar>n\<bar>"
    by simp
  also have "\<dots> = gcd g n"
    by (simp add: gcd_red_int [symmetric] gcd.commute) (metis gcd.commute gcd_abs2_int gcd_red_int)
  finally show ?thesis
    using assms(1) e by (simp add: bigModInverse_def Let_def)
qed

end
