(* ===== verification/ModArith.thy ===== *)
theory ModArith
  imports GoBig
begin

text \<open>
  Arithmetic modulo a prime: Euclid's lemma, Fermat's little theorem, square
  roots of one, and the geometric sum of a root of unity whose half power is
  \<open>-1\<close>. These are the facts behind \<open>go/galois\<close>, stated over the integers with the
  remainder written out.
\<close>

section \<open>Primes\<close>

text \<open>Primality by trial division, so that it can be evaluated.\<close>

definition is_prime :: "int \<Rightarrow> bool" where
  "is_prime q \<longleftrightarrow> 1 < q \<and> (\<forall>m \<in> {2..<q}. \<not> m dvd q)"

lemma is_prime_gt_1: "is_prime q \<Longrightarrow> 1 < q"
  by (simp add: is_prime_def)

lemma is_prime_coprime:
  assumes "is_prime q" "\<not> q dvd a"
  shows "coprime q a"
proof -
  define g where "g = gcd q a"
  have g: "g dvd q" "g dvd a" "0 < g"
    using is_prime_gt_1 [OF assms(1)] by (auto simp: g_def)
  then have "g \<le> q"
    using is_prime_gt_1 [OF assms(1)] by (simp add: zdvd_imp_le)
  moreover have "g \<noteq> q"
    using g(2) assms(2) by metis
  moreover have "g \<notin> {2..<q}"
    using g(1) assms(1) by (auto simp: is_prime_def)
  ultimately have "g = 1"
    using g(3) by auto
  then show ?thesis by (simp add: g_def coprime_iff_gcd_eq_1)
qed

lemma is_prime_dvd_mult: "is_prime q \<Longrightarrow> q dvd a * b \<Longrightarrow> q dvd a \<or> q dvd b"
  using coprime_dvd_mult_right_iff is_prime_coprime by blast

lemma is_prime_dvd_power: "is_prime q \<Longrightarrow> q dvd a ^ n \<Longrightarrow> q dvd a"
proof (induction n)
  case 0
  then show ?case using is_prime_gt_1 [of q] by simp
next
  case (Suc n)
  then show ?case using is_prime_dvd_mult [of q a "a ^ n"] by auto
qed

text \<open>The square roots of one modulo a prime are one and minus one.\<close>

lemma square_root_of_one:
  assumes "is_prime q" "(x * x) mod q = 1"
  shows "x mod q = 1 \<or> x mod q = q - 1"
proof -
  have q: "1 < q" using assms(1) by (rule is_prime_gt_1)
  have "q dvd x * x - 1"
    using assms(2) q by (simp add: mod_eq_dvd_iff [symmetric])
  then have "q dvd (x - 1) * (x + 1)"
    by (simp add: algebra_simps)
  then have "q dvd x - 1 \<or> q dvd x + 1"
    using is_prime_dvd_mult assms(1) by blast
  then show ?thesis
  proof
    assume "q dvd x - 1"
    then have "x mod q = 1 mod q" by (simp add: mod_eq_dvd_iff)
    then show ?thesis using q by simp
  next
    assume "q dvd x + 1"
    then have "q dvd x - (q - 1)"
      by (metis diff_diff_eq2 dvd_diff dvd_refl add.commute)
    then have "x mod q = (q - 1) mod q" by (simp only: mod_eq_dvd_iff)
    also have "\<dots> = q - 1" using q by (intro mod_pos_pos_trivial) auto
    finally show ?thesis by simp
  qed
qed

section \<open>Fermat's little theorem\<close>

lemma prime_dvd_choose:
  assumes "is_prime (int p)" "0 < k" "k < p"
  shows "p dvd (p choose k)"
proof -
  have "k * (p choose k) = p * ((p - 1) choose (k - 1))"
    using assms by (simp add: times_binomial_minus1_eq)
  then have "int p dvd int k * int (p choose k)"
    by (metis dvd_triv_left of_nat_mult)
  moreover have "\<not> int p dvd int k"
    using assms(2,3) by (auto dest: zdvd_imp_le)
  ultimately have "int p dvd int (p choose k)"
    using is_prime_dvd_mult [OF assms(1)] by blast
  then show ?thesis by simp
qed

lemma fermat_power:
  assumes "is_prime (int p)"
  shows "(a::nat) ^ p mod p = a mod p"
proof (induction a)
  case 0
  then show ?case
    using is_prime_gt_1 [OF assms] by (cases p) auto
next
  case (Suc a)
  have p: "1 < p" using is_prime_gt_1 [OF assms] by simp
  have split: "{..p} = insert 0 (insert p {0<..<p})"
    using p by auto
  have "Suc a ^ p = (\<Sum>k\<le>p. (p choose k) * a ^ k)"
    using binomial [of a 1 p] by simp
  also have "\<dots> = 1 + (a ^ p + (\<Sum>k\<in>{0<..<p}. (p choose k) * a ^ k))"
    unfolding split using p by simp
  finally have "Suc a ^ p = 1 + (a ^ p + (\<Sum>k\<in>{0<..<p}. (p choose k) * a ^ k))" .
  moreover have "p dvd (\<Sum>k\<in>{0<..<p}. (p choose k) * a ^ k)"
    by (intro dvd_sum dvd_mult2 prime_dvd_choose [OF assms]) auto
  then obtain c where "(\<Sum>k\<in>{0<..<p}. (p choose k) * a ^ k) = p * c"
    by blast
  ultimately have "Suc a ^ p mod p = (1 + a ^ p) mod p"
    by simp
  also have "\<dots> = (1 + a) mod p"
    using Suc by (metis mod_add_right_eq)
  finally show ?case by simp
qed

lemma fermat:
  assumes "is_prime q" "\<not> q dvd x"
  shows "x ^ nat (q - 1) mod q = 1"
proof -
  have q: "1 < q" using assms(1) by (rule is_prime_gt_1)
  let ?p = "nat q" and ?a = "nat (x mod q)"
  have p: "int ?p = q" "is_prime (int ?p)" using q assms(1) by simp_all
  have a: "int ?a = x mod q" using q by simp
  have "(x ^ ?p) mod q = (x mod q) ^ ?p mod q"
    by (simp add: power_mod)
  also have "\<dots> = int (?a ^ ?p mod ?p)"
    using a p(1) by (simp add: zmod_int)
  also have "\<dots> = x mod q"
    using fermat_power [OF p(2), of ?a] a p(1) by (simp add: zmod_int)
  finally have "q dvd x ^ ?p - x"
    by (simp add: mod_eq_dvd_iff)
  moreover have "?p = Suc (nat (q - 1))"
    using q by simp
  ultimately have "q dvd x * (x ^ nat (q - 1) - 1)"
    by (simp add: algebra_simps)
  then have "q dvd x ^ nat (q - 1) - 1"
    using is_prime_dvd_mult assms by blast
  then have "x ^ nat (q - 1) mod q = 1 mod q"
    by (simp add: mod_eq_dvd_iff)
  then show ?thesis using q by simp
qed

section \<open>Congruences\<close>

text \<open>\<open>a \<equiv> b\<close> modulo \<open>q\<close>, kept folded so that sums and products can be rewritten inside.\<close>

definition cg :: "int \<Rightarrow> int \<Rightarrow> int \<Rightarrow> bool" where
  "cg q a b \<longleftrightarrow> q dvd a - b"

named_theorems cg_intros \<open>congruence is preserved by the ring operations\<close>

lemma cg_refl [simp, cg_intros]: "cg q a a"
  by (simp add: cg_def)

lemma cg_sym: "cg q a b \<Longrightarrow> cg q b a"
  by (simp add: cg_def dvd_diff_commute)

lemma cg_trans [trans]: "cg q a b \<Longrightarrow> cg q b c \<Longrightarrow> cg q a c"
  unfolding cg_def by (metis diff_add_cancel dvd_add diff_add_eq add_diff_eq)

lemma cg_eq_trans [trans]: "cg q a b \<Longrightarrow> b = c \<Longrightarrow> cg q a c"
  and eq_cg_trans [trans]: "a = b \<Longrightarrow> cg q b c \<Longrightarrow> cg q a c"
  by simp_all

lemma cg_add [cg_intros]: "cg q a b \<Longrightarrow> cg q c d \<Longrightarrow> cg q (a + c) (b + d)"
  by (auto simp: cg_def add_diff_add intro: dvd_add)

lemma cg_diff [cg_intros]: "cg q a b \<Longrightarrow> cg q c d \<Longrightarrow> cg q (a - c) (b - d)"
proof -
  assume "cg q a b" "cg q c d"
  then have "q dvd (a - b) - (c - d)" unfolding cg_def by (rule dvd_diff)
  then show ?thesis by (simp add: cg_def algebra_simps)
qed

lemma cg_minus [cg_intros]: "cg q a b \<Longrightarrow> cg q (- a) (- b)"
  using cg_diff [of q 0 0 a b] by simp

lemma cg_mult [cg_intros]: "cg q a b \<Longrightarrow> cg q c d \<Longrightarrow> cg q (a * c) (b * d)"
proof -
  assume "cg q a b" "cg q c d"
  then have "q dvd (a - b) * c + b * (c - d)" by (simp add: cg_def)
  then show ?thesis by (simp add: cg_def algebra_simps)
qed

lemma cg_power [cg_intros]: "cg q a b \<Longrightarrow> cg q (a ^ n) (b ^ n)"
  by (induction n) (auto intro: cg_mult)

lemma cg_sum [cg_intros]: "(\<And>i. i \<in> A \<Longrightarrow> cg q (f i) (g i)) \<Longrightarrow> cg q (sum f A) (sum g A)"
  by (simp add: cg_def flip: sum_subtractf) (blast intro: dvd_sum)

lemma cg_mod_left [simp]: "cg q (a mod q) b \<longleftrightarrow> cg q a b"
  by (simp add: cg_def flip: mod_eq_dvd_iff)

lemma cg_mod_right [simp]: "cg q a (b mod q) \<longleftrightarrow> cg q a b"
  by (simp add: cg_def flip: mod_eq_dvd_iff)

lemma cg_iff_mod: "cg q a b \<longleftrightarrow> a mod q = b mod q"
  by (simp add: cg_def mod_eq_dvd_iff)

lemma cg_cancel: "coprime q c \<Longrightarrow> cg q (c * a) (c * b) \<Longrightarrow> cg q a b"
  by (simp add: cg_def coprime_dvd_mult_right_iff flip: right_diff_distrib)

section \<open>Roots of unity of a power of two\<close>

lemma geometric_sum_pow2: "(\<Sum>j<2 ^ k. z ^ j) = (\<Prod>i<k. 1 + (z::int) ^ (2 ^ i))"
proof (induction k)
  case 0
  then show ?case by simp
next
  case (Suc k)
  have eq: "{..<2 ^ Suc k} = {..<2 ^ k} \<union> {2 ^ k..<2 ^ k + 2 ^ k :: nat}"
    by auto
  have "(\<Sum>j<2 ^ Suc k. z ^ j) = (\<Sum>j<2 ^ k. z ^ j) + (\<Sum>j\<in>{2 ^ k..<2 ^ k + 2 ^ k}. z ^ j)"
    unfolding eq by (rule sum.union_disjoint) auto
  also have "(\<Sum>j\<in>{2 ^ k..<2 ^ k + 2 ^ k}. z ^ j) = (\<Sum>j<2 ^ k. z ^ (2 ^ k) * z ^ j)"
    by (rule sum.reindex_bij_witness [of _ "\<lambda>j. j + 2 ^ k" "\<lambda>j. j - 2 ^ k"])
      (auto simp flip: power_add)
  also have "\<dots> = z ^ (2 ^ k) * (\<Sum>j<2 ^ k. z ^ j)"
    by (simp add: sum_distrib_left)
  finally show ?case
    using Suc by (simp add: algebra_simps)
qed

lemma odd_part: "0 < (d::nat) \<Longrightarrow> \<exists>s m. d = 2 ^ s * m \<and> odd m"
proof (induction d rule: less_induct)
  case (less d)
  show ?case
  proof (cases "even d")
    case True
    then obtain e where e: "d = 2 * e" by blast
    with less.prems less.IH [of e] obtain s m where "e = 2 ^ s * m" "odd m" by auto
    then show ?thesis by (metis e mult.assoc power_Suc)
  next
    case False
    then show ?thesis by (metis mult_1 power_0)
  qed
qed

text \<open>
  The sum of the powers of \<open>w^d\<close> vanishes unless \<open>d\<close> is a multiple of the order: the
  orthogonality behind the inverse transform.
\<close>

lemma root_sum_zero:
  assumes half: "cg q (w ^ (2 ^ k)) (- 1)" and d: "0 < d" "d < 2 ^ Suc k"
  shows "cg q (\<Sum>j<2 ^ Suc k. w ^ (d * j)) 0"
proof -
  obtain s m where sm: "d = 2 ^ s * m" "odd m"
    using odd_part d(1) by blast
  have "0 < m" using sm(2) by (cases m) auto
  have "s < Suc k"
  proof (rule ccontr)
    assume "\<not> s < Suc k"
    then have "(2::nat) ^ Suc k \<le> 2 ^ s" by (intro power_increasing) auto
    also have "\<dots> \<le> d" using sm \<open>0 < m\<close> by simp
    finally show False using d(2) by simp
  qed
  let ?z = "w ^ d"
  have "?z ^ (2 ^ (k - s)) = (w ^ (2 ^ k)) ^ m"
    using sm \<open>s < Suc k\<close>
    by (simp add: ac_simps flip: power_mult power_add)
  moreover have "cg q ((w ^ (2 ^ k)) ^ m) ((- 1) ^ m)"
    by (intro cg_intros half)
  ultimately have "cg q (?z ^ (2 ^ (k - s))) (- 1)"
    using sm(2) by simp
  from cg_add [OF cg_refl this, of 1] have "cg q (1 + ?z ^ (2 ^ (k - s))) (1 + (- 1))" .
  then have "q dvd 1 + ?z ^ (2 ^ (k - s))"
    by (simp add: cg_def)
  moreover have "k - s \<in> {..<Suc k}" by simp
  ultimately have "q dvd (\<Prod>i<Suc k. 1 + ?z ^ (2 ^ i))"
    by (meson dvd_prod_eqI dvd_prodI dvd_trans finite_lessThan)
  then have "q dvd (\<Sum>j<2 ^ Suc k. ?z ^ j)"
    by (simp only: geometric_sum_pow2)
  then show ?thesis
    by (simp add: cg_def flip: power_mult)
qed

end
