(* ===== verification/Galois.thy ===== *)
theory Galois
  imports ModArith
begin

text \<open>
  Finite fields over the integers modulo \<open>q\<close> (\<open>go/galois/galois.go\<close>): the field
  operations and the search for a root of unity. A \<open>*Field\<close> is its order \<open>q\<close>. The
  random reader is the list of bytes it still delivers, so every run of the
  search either returns or exhausts its reader. \<open>Exp\<close> is modelled for
  non-negative exponents, the only ones the package passes.
\<close>

section \<open>Field operations\<close>

datatype galois_error =
    OddRoot u64                      \<comment> \<open>can only calculate even roots of unity\<close>
  | RandError rand_error             \<comment> \<open>\<open>rand.Int()\<close> failed\<close>
  | NonPowerOf2                      \<comment> \<open>FFT on non-power-of-2 values unimplemented\<close>
  | RootIsOne                        \<comment> \<open>FFT root of unity == 1\<close>
  | NotARoot int u64                 \<comment> \<open>primitive root is not an n(th) root of unity\<close>
  | FFTof string galois_error        \<comment> \<open>an error of one of the transforms of \<open>Convolve\<close>\<close>

type_synonym field = int

definition NewField :: "int \<Rightarrow> field" where
  "NewField q = q"

definition Order :: "field \<Rightarrow> int" where
  "Order f = f"

definition Exp :: "field \<Rightarrow> int \<Rightarrow> nat \<Rightarrow> int" where
  "Exp f x y = bigExp x y f"

text \<open>\<open>Mod\<close> by a zero order is a division by zero.\<close>

definition Mul :: "field \<Rightarrow> int \<Rightarrow> int \<Rightarrow> (galois_error, int) outcome" where
  "Mul f x y = (if f = 0 then Panic else Ret (bigMod (x * y) f))"

text \<open>The inverse is nil (\<open>None\<close>) when there is none.\<close>

definition MultInverse :: "field \<Rightarrow> int \<Rightarrow> (galois_error, int option) outcome" where
  "MultInverse f x = (if f = 0 then Panic else Ret (bigModInverse x f))"

definition Random :: "field \<Rightarrow> bytes \<Rightarrow> (galois_error, int \<times> bytes) outcome" where
  "Random f r = map_fail RandError (rand_Int r f)"

section \<open>Roots of unity\<close>

text \<open>
  The loop draws field elements until it accepts one. Every iteration consumes
  bytes of the reader, except in the field of order one, where the first
  candidate is accepted.
\<close>

lemma Random_consumes: "1 < f \<Longrightarrow> Random f r = Ret (x, r') \<Longrightarrow> length r' < length r"
  by (auto simp: Random_def outcome_simps dest: rand_Int_consumes)

lemma Random_order: "Random f r = Ret (x, r') \<Longrightarrow> 0 < f \<and> 0 \<le> x \<and> x < f"
  using rand_Int_range [of r f x r']
  by (auto simp: Random_def outcome_simps rand_Int_def split: if_splits)

function root_loop ::
  "field \<Rightarrow> nat \<Rightarrow> nat \<Rightarrow> bool \<Rightarrow> bytes \<Rightarrow> (galois_error, int \<times> bytes) outcome" where
  "root_loop f qSub1OverN halfN primitive r =
     obind (Random f r) (\<lambda>(x, r').
       let root = Exp f x qSub1OverN in
       if \<not> primitive \<or> Exp f root halfN \<noteq> 1 then Ret (root, r')
       else root_loop f qSub1OverN halfN primitive r')"
  by pat_completeness auto
termination
proof (relation "measure (\<lambda>(f, e, h, p, r). length r)", goal_cases)
  case 1
  then show ?case by simp
next
  case (2 f e h p r a x r' root)
  then have d: "Random f r = Ret (x, r')" and one: "Exp f (Exp f x e) h = 1"
    by auto
  have "f \<noteq> 1"
    using one by (auto simp: Exp_def bigExp_def)
  then have "1 < f"
    using Random_order [OF d] by simp
  with d show ?case
    by (simp add: Random_consumes)
qed

declare root_loop.simps [simp del]

definition RootOfUnity ::
  "field \<Rightarrow> bytes \<Rightarrow> u64 \<Rightarrow> bool \<Rightarrow> (galois_error, int \<times> bytes) outcome" where
  "RootOfUnity f r n primitive =
     (if n mod 2 = 1 then Fail (OddRoot n)
      else if n = 0 then Panic
      else let bigN = int (unat n);
               qSub1OverN = (f - 1) div bigN;
               rem = (f - 1) mod bigN
           in if rem \<noteq> 0 then Ret (1, r)
              else root_loop f (nat qSub1OverN) (unat n div 2) primitive r)"

section \<open>Facts about the operations\<close>

lemma Exp_eq: "0 < f \<Longrightarrow> Exp f x y = x ^ y mod f"
  by (simp add: Exp_def bigExp_def)

lemma Exp_cg: "0 < f \<Longrightarrow> cg f (Exp f x y) (x ^ y)"
  by (simp add: Exp_eq)

lemma Mul_eq: "0 < f \<Longrightarrow> Mul f x y = Ret ((x * y) mod f)"
  by (simp add: Mul_def bigMod_def)

lemma MultInverse_coprime:
  assumes "0 < f" "coprime x f"
  shows "\<exists>v. MultInverse f x = Ret (Some v) \<and> cg f (x * v) 1"
proof -
  obtain v where v: "bigModInverse x f = Some v"
    using bigModInverse_coprime [OF assms(2)] assms(1) by auto
  then show ?thesis
    using bigModInverse_Some [OF v] assms(1) by (auto simp: MultInverse_def cg_iff_mod)
qed

lemma root_loop_Ret:
  "root_loop f e h p r = Ret (w, r') \<Longrightarrow>
   \<exists>x. 0 \<le> x \<and> x < f \<and> w = Exp f x e \<and> (p \<longrightarrow> Exp f w h \<noteq> 1)"
proof (induction f e h p r rule: root_loop.induct)
  case (1 f e h p r)
  from "1.prems" obtain x r1 where d: "Random f r = Ret (x, r1)"
    by (auto simp: root_loop.simps [of f e h p r] outcome_simps)
  show ?case
  proof (cases "\<not> p \<or> Exp f (Exp f x e) h \<noteq> 1")
    case True
    with "1.prems" d have "w = Exp f x e"
      by (simp add: root_loop.simps [of f e h p r] Let_def)
    with True show ?thesis
      using Random_order [OF d] by blast
  next
    case False
    with "1.prems" d have "root_loop f e h p r1 = Ret (w, r')"
      by (simp add: root_loop.simps [of f e h p r] Let_def)
    then show ?thesis
      using "1.IH" [OF d refl refl False] by simp
  qed
qed

lemma quotient_pos:
  assumes "1 < q" "0 < n" "int n dvd q - 1"
  shows "0 < nat ((q - 1) div int n)"
proof -
  obtain k where k: "q - 1 = int n * k"
    using assms(3) by blast
  then have "0 < int n * k"
    using assms(1) by linarith
  then show ?thesis
    using k assms(2) by (simp add: zero_less_mult_iff)
qed

text \<open>An \<open>n\<close>th power of what the loop returns is one, unless the element drawn was zero.\<close>

lemma root_candidate_power:
  assumes "is_prime q" "0 < n" "int n dvd q - 1" "0 \<le> x" "x < q" "x \<noteq> 0"
  shows "Exp q x (nat ((q - 1) div int n)) ^ n mod q = 1"
proof -
  have q: "1 < q" using assms(1) by (rule is_prime_gt_1)
  let ?e = "nat ((q - 1) div int n)"
  have "int (?e * n) = q - 1"
    using assms(2,3) q by (simp add: pos_imp_zdiv_nonneg_iff)
  then have e: "?e * n = nat (q - 1)" by linarith
  have "\<not> q dvd x"
    using assms(4-6) by (auto dest: zdvd_imp_le)
  then have "x ^ nat (q - 1) mod q = 1"
    by (rule fermat [OF assms(1)])
  moreover have "Exp q x ?e ^ n mod q = x ^ nat (q - 1) mod q"
    using q by (simp add: Exp_eq power_mod flip: e power_mult)
  ultimately show ?thesis by simp
qed

lemma Exp_zero_iff:
  assumes "is_prime q" "0 \<le> x" "x < q" "0 < e"
  shows "Exp q x e = 0 \<longleftrightarrow> x = 0"
proof
  assume "Exp q x e = 0"
  then have "q dvd x ^ e"
    using is_prime_gt_1 [OF assms(1)] by (simp add: Exp_eq dvd_eq_mod_eq_0)
  then have "q dvd x" by (rule is_prime_dvd_power [OF assms(1)])
  then show "x = 0" using assms(2,3) by (auto dest: zdvd_imp_le)
next
  assume "x = 0"
  then show "Exp q x e = 0"
    using assms(4) is_prime_gt_1 [OF assms(1)] by (simp add: Exp_eq power_0_left)
qed

text \<open>
  The test of the code on a power of two: \<open>root^(n/2) != 1\<close> makes the half power minus
  one, and then no smaller positive power is one.
\<close>

lemma half_power_minus_one:
  assumes "is_prime q" "w ^ (2 ^ Suc k) mod q = 1" "w ^ (2 ^ k) mod q \<noteq> 1"
  shows "cg q (w ^ (2 ^ k)) (- 1)"
proof -
  have "(w ^ (2 ^ k) * w ^ (2 ^ k)) mod q = 1"
    using assms(2) by (simp flip: power_add mult_2)
  then have "w ^ (2 ^ k) mod q = q - 1"
    using square_root_of_one [OF assms(1)] assms(3) by blast
  then have "cg q (w ^ (2 ^ k)) (q - 1)"
    by (metis cg_mod_left cg_refl)
  moreover have "cg q (q - 1) (- 1)"
    by (simp add: cg_def)
  ultimately show ?thesis by (rule cg_trans)
qed

lemma coprime_two_power:
  fixes q :: int
  assumes "odd q"
  shows "coprime q (2 ^ k)"
  using assms by simp

lemma order_exact:
  assumes "odd q" "1 < q" "cg q (w ^ (2 ^ k)) (- 1)" "0 < d" "d < 2 ^ Suc k"
  shows "w ^ d mod q \<noteq> 1"
proof
  assume "w ^ d mod q = 1"
  then have "cg q (w ^ d) 1"
    by (metis cg_mod_left cg_refl)
  then have "cg q (w ^ (d * j)) 1" for j
    using cg_power [of q "w ^ d" 1 j] by (simp add: power_mult)
  then have "cg q (\<Sum>j<2 ^ Suc k. w ^ (d * j)) (\<Sum>j<(2::nat) ^ Suc k. 1)"
    by (intro cg_sum)
  then have "cg q (\<Sum>j<(2::nat) ^ Suc k. (1::int)) 0"
    using root_sum_zero [OF assms(3-5)] cg_sym cg_trans by blast
  then have "q dvd 2 ^ Suc k * 1"
    by (simp add: cg_def)
  moreover have "coprime q (2 ^ Suc k)"
    using assms(1) by (rule coprime_two_power)
  ultimately have "q dvd 1"
    using coprime_dvd_mult_right_iff by blast
  then show False using assms(2) by simp
qed

text \<open>What an accepted candidate satisfies.\<close>

lemma RootOfUnity_half_power:
  assumes "is_prime q" and "unat n = 2 ^ Suc k" and "int (unat n) dvd q - 1"
    and "RootOfUnity q r n True = Ret (w, r')" and "w \<noteq> 0"
  shows "w ^ (2 ^ Suc k) mod q = 1 \<and> cg q (w ^ (2 ^ k)) (- 1)"
proof -
  have q: "1 < q" using assms(1) by (rule is_prime_gt_1)
  have "unat (n mod 2) = 0" "n \<noteq> 0"
    using assms(2) by (auto simp: unat_mod)
  then have even_n: "\<not> n mod 2 = 1" "n \<noteq> 0"
    by (auto simp: unsigned_eq_0_iff)
  have run: "root_loop q (nat ((q - 1) div int (unat n))) (unat n div 2) True r = Ret (w, r')"
    using assms(3,4) even_n by (simp add: RootOfUnity_def Let_def)
  then obtain x where x: "0 \<le> x" "x < q" "w = Exp q x (nat ((q - 1) div int (unat n)))"
    "Exp q w (unat n div 2) \<noteq> 1"
    using root_loop_Ret by blast
  have half: "unat n div 2 = 2 ^ k"
    using assms(2) by simp
  have "0 < nat ((q - 1) div int (unat n))"
    using assms(2) by (intro quotient_pos [OF q _ assms(3)]) simp
  then have "x \<noteq> 0"
    using assms(5) x Exp_zero_iff [OF assms(1) x(1,2)] by simp
  then have one: "w ^ (2 ^ Suc k) mod q = 1"
    using root_candidate_power [OF assms(1) _ assms(3) x(1,2)] assms(2) x(3) by simp
  moreover have "w ^ (2 ^ k) mod q \<noteq> 1"
    using x(4) half q by (simp add: Exp_eq)
  ultimately show ?thesis
    using half_power_minus_one [OF assms(1)] by blast
qed

section \<open>Properties\<close>

text \<open>
  C33. In a field of prime order \<open>q\<close>, a non-zero result of \<open>RootOfUnity(r, n, true)\<close> for a
  power of two \<open>n\<close> dividing \<open>q-1\<close> is a primitive \<open>n\<close>th root of unity: its \<open>n\<close>th power is
  one, its half power is minus one and no smaller positive power is one.
\<close>

theorem RootOfUnity_primitive:
  assumes "is_prime q" and "unat n = 2 ^ Suc k" and "int (unat n) dvd q - 1"
    and "RootOfUnity q r n True = Ret (w, r')" and "w \<noteq> 0"
  shows "w ^ unat n mod q = 1 \<and> w ^ (unat n div 2) mod q = q - 1 \<and>
         (\<forall>d. 0 < d \<and> d < unat n \<longrightarrow> w ^ d mod q \<noteq> 1)"
proof -
  have q: "1 < q" using assms(1) by (rule is_prime_gt_1)
  have one: "w ^ (2 ^ Suc k) mod q = 1" and h: "cg q (w ^ (2 ^ k)) (- 1)"
    using RootOfUnity_half_power [OF assms] by simp_all
  then have "w ^ (2 ^ k) mod q = q - 1"
    using q by (simp add: cg_iff_mod zmod_minus1)
  moreover have "even (q - 1)"
    using assms(2,3) by (metis dvd_trans even_mult_iff even_numeral of_nat_numeral of_nat_power power_Suc of_nat_mult)
  then have "odd q" by simp
  ultimately show ?thesis
    using one assms(2) order_exact [OF _ q h] by simp
qed

theorem RootOfUnity_primitive_witness:
  "\<exists>w r'. RootOfUnity 17 [3, 5] 8 True = Ret (w, r') \<and> w ^ 8 mod 17 = 1 \<and> w ^ 4 mod 17 = 16"
proof -
  have run: "RootOfUnity 17 [3, 5] 8 True = Ret (9, [5])"
    by code_simp
  have "is_prime 17"
    by code_simp
  from RootOfUnity_primitive [OF this _ _ run, of 2] run show ?thesis
    by simp
qed

text \<open>
  The search does not exclude zero: when the reader delivers the field element 0, the
  result of \<open>RootOfUnity(r, n, true)\<close> for an even divisor \<open>n\<close> of \<open>q-1\<close> is 0, which is no root
  of unity at all, because \<open>0^(n/2) != 1\<close> passes the test for a primitive root.
\<close>

theorem RootOfUnity_returns_zero:
  assumes "1 < q" and "0 < n" and "even (unat n)" and "int (unat n) dvd q - 1"
    and "rand_Int r q = Ret (0, r')"
  shows "RootOfUnity q r n True = Ret (0, r') \<and> (0::int) ^ unat n mod q \<noteq> 1"
proof -
  have n: "0 < unat n" "n \<noteq> 0" "\<not> n mod 2 = 1"
  proof -
    show "0 < unat n" using assms(2) by (simp add: word_less_nat_alt)
    then show "n \<noteq> 0" by auto
    have "unat (n mod 2) = 0" using assms(3) by (simp add: unat_mod)
    then show "\<not> n mod 2 = 1" by (auto simp: unsigned_eq_0_iff)
  qed
  let ?e = "nat ((q - 1) div int (unat n))"
  have "0 < ?e"
    by (rule quotient_pos [OF assms(1) n(1) assms(4)])
  then have e: "Exp q 0 ?e = 0"
    using assms(1) by (simp add: Exp_eq power_0_left)
  have "1 < unat n"
    using n(1) assms(3) by (cases "unat n = 1") auto
  then have "0 < unat n div 2"
    using assms(3) by (auto elim!: evenE)
  then have "Exp q 0 (unat n div 2) = 0"
    using assms(1) by (simp add: Exp_eq power_0_left)
  then have "root_loop q ?e (unat n div 2) True r = Ret (0, r')"
    using assms(5) e by (subst root_loop.simps) (simp add: Random_def Let_def)
  then show ?thesis
    using n assms(1,4) by (simp add: RootOfUnity_def Let_def power_0_left)
qed

theorem RootOfUnity_returns_zero_witness: "RootOfUnity 17 [0] 8 True = Ret (0, [])"
proof -
  have "rand_Int [0] 17 = Ret (0, [])"
    by code_simp
  from RootOfUnity_returns_zero [OF _ _ _ _ this, of 8] show ?thesis
    by simp
qed

end
