(* ===== verification/Transform.thy ===== *)
theory Transform
  imports Galois
begin

text \<open>
  What a convolution needs of a pair of transforms, as an interface: the forward
  transform evaluates its input, read as the coefficients of a polynomial, at fixed
  points, and the backward transform recovers the coefficients from values congruent to
  such an evaluation. \<open>go/galois/fft.go\<close> provides it (theory FFT) and
  \<open>go/galois/convolution.go\<close> relies on it (theory Convolution).
\<close>

section \<open>Linear convolution\<close>

definition coeff :: "int list \<Rightarrow> nat \<Rightarrow> int" where
  "coeff xs i = (if i < length xs then xs ! i else 0)"

text \<open>The quadratic-time definition of \<open>a \<^emph>\<open>*\<close> b\<close>.\<close>

definition convolution :: "int list \<Rightarrow> int list \<Rightarrow> nat \<Rightarrow> int" where
  "convolution a b i = (\<Sum>j\<le>i. coeff a j * coeff b (i - j))"

definition eval_at :: "int list \<Rightarrow> int \<Rightarrow> int" where
  "eval_at xs z = (\<Sum>j<length xs. xs ! j * z ^ j)"

lemma coeff_beyond: "length xs \<le> i \<Longrightarrow> coeff xs i = 0"
  by (simp add: coeff_def)

lemma eval_at_coeff:
  assumes "length xs \<le> Suc m"
  shows "eval_at xs z = (\<Sum>j\<le>m. coeff xs j * z ^ j)"
  unfolding eval_at_def using assms
  by (intro sum.mono_neutral_cong_left) (auto simp: coeff_def)

lemma convolution_beyond: "length a + length b \<le> Suc i \<Longrightarrow> convolution a b i = 0"
  unfolding convolution_def by (intro sum.neutral) (auto simp: coeff_def)

text \<open>The product of the polynomials has the convolution as its coefficients.\<close>

lemma eval_at_convolution:
  assumes "a \<noteq> []" "b \<noteq> []" and n: "length a + length b \<le> Suc n"
  shows "eval_at a z * eval_at b z = eval_at (map (convolution a b) [0..<n]) z"
proof -
  obtain la lb where la: "length a = Suc la" and lb: "length b = Suc lb"
    using assms(1,2) by (metis length_Suc_conv neq_Nil_conv)
  have "eval_at a z * eval_at b z = (\<Sum>r\<le>la + lb. convolution a b r * z ^ r)"
    using polynomial_product [of la "coeff a" lb "coeff b" z] la lb
    by (simp add: eval_at_coeff [of a la] eval_at_coeff [of b lb] coeff_beyond convolution_def)
  also have "\<dots> = (\<Sum>r<n. convolution a b r * z ^ r)"
    using n la lb by (intro sum.mono_neutral_left) (auto simp: convolution_beyond)
  also have "\<dots> = eval_at (map (convolution a b) [0..<n]) z"
    by (simp add: eval_at_def)
  finally show ?thesis .
qed

lemma eval_at_append_zeros: "eval_at (xs @ replicate m 0) z = eval_at xs z"
proof -
  have "eval_at (xs @ replicate m 0) z = (\<Sum>j\<le>length xs + m. coeff (xs @ replicate m 0) j * z ^ j)"
    by (rule eval_at_coeff) simp
  also have "\<dots> = (\<Sum>j\<le>length xs + m. coeff xs j * z ^ j)"
    by (intro sum.cong) (auto simp: coeff_def nth_append)
  also have "\<dots> = eval_at xs z"
    by (rule eval_at_coeff [symmetric]) simp
  finally show ?thesis .
qed

section \<open>The interface\<close>

locale transform_pair =
  fixes ok :: "'p \<Rightarrow> bool"
    and modulus :: "'p \<Rightarrow> int"
    and len :: "'p \<Rightarrow> nat"
    and point :: "'p \<Rightarrow> nat \<Rightarrow> int"
    and fwd :: "'p \<Rightarrow> int list \<Rightarrow> (galois_error, int list) outcome"
    and bwd :: "'p \<Rightarrow> int list \<Rightarrow> (galois_error, int list) outcome"
  assumes fwd_eval: "ok p \<Longrightarrow> length xs = len p \<Longrightarrow>
      fwd p xs = Ret (map (\<lambda>l. eval_at xs (point p l) mod modulus p) [0..<len p])"
    and bwd_interpolates: "ok p \<Longrightarrow> length xs = len p \<Longrightarrow> length Y = len p \<Longrightarrow>
      (\<And>l. l < len p \<Longrightarrow> cg (modulus p) (Y ! l) (eval_at xs (point p l))) \<Longrightarrow>
      bwd p Y = Ret (map (\<lambda>x. x mod modulus p) xs)"
begin

lemma roundtrip:
  assumes "ok p" and "length xs = len p"
  shows "obind (fwd p xs) (bwd p) = Ret (map (\<lambda>x. x mod modulus p) xs)"
proof -
  have "bwd p (map (\<lambda>l. eval_at xs (point p l) mod modulus p) [0..<len p]) =
      Ret (map (\<lambda>x. x mod modulus p) xs)"
    by (rule bwd_interpolates [OF assms]) (simp_all add: cg_iff_mod)
  then show ?thesis using fwd_eval [OF assms] by simp
qed

text \<open>The convolution theorem: transform, multiply point by point, transform back.\<close>

lemma pointwise_product:
  assumes p: "ok p" and ne: "a \<noteq> []" "b \<noteq> []"
    and fit: "length a + length b \<le> Suc (len p)"
    and pa: "pa = a @ replicate (len p - length a) 0" and pb: "pb = b @ replicate (len p - length b) 0"
    and A: "fwd p pa = Ret A" and B: "fwd p pb = Ret B"
  shows "length A = len p \<and> length B = len p \<and>
     bwd p (map2 (*) A B) = Ret (map (\<lambda>i. convolution a b i mod modulus p) [0..<len p])"
proof -
  have "0 < length a" "0 < length b" using ne by simp_all
  then have le: "length a \<le> len p" "length b \<le> len p" using fit by linarith+
  have A': "A = map (\<lambda>l. eval_at a (point p l) mod modulus p) [0..<len p]"
    using A fwd_eval [OF p, of pa] le pa by (simp add: eval_at_append_zeros)
  have B': "B = map (\<lambda>l. eval_at b (point p l) mod modulus p) [0..<len p]"
    using B fwd_eval [OF p, of pb] le pb by (simp add: eval_at_append_zeros)
  have "cg (modulus p) (map2 (*) A B ! l)
      (eval_at (map (convolution a b) [0..<len p]) (point p l))" if "l < len p" for l
    using that by (simp add: A' B' cg_iff_mod mod_mult_eq flip: eval_at_convolution [OF ne fit])
  then have "bwd p (map2 (*) A B) =
      Ret (map (\<lambda>x. x mod modulus p) (map (convolution a b) [0..<len p]))"
    by (intro bwd_interpolates [OF p]) (simp_all add: A' B')
  then show ?thesis by (simp add: A' B' comp_def)
qed

end

end
