(* ===== verification/FFT.thy ===== *)
theory FFT
  imports Transform
begin

text \<open>
  The fast Fourier transform over a field (\<open>go/galois/fft.go\<close>). A slice of
  \<open>*big.Int\<close> that may hold nil entries is a list of options. \<open>cooleyTukey\<close> is a
  partial function: \<open>None\<close> means that the call does not return, because it
  recurses for ever (on the empty slice) or because it dereferences nil (on a
  length that is not a power of two). The transform it computes is the discrete
  Fourier transform of \<open>dft\<close>.
\<close>

unbundle bit_operations_syntax

section \<open>The code\<close>

text \<open>Go's remainder takes the sign of the dividend.\<close>

definition go_rem :: "int \<Rightarrow> int \<Rightarrow> int" where
  "go_rem a b = sgn a * (\<bar>a\<bar> mod \<bar>b\<bar>)"

definition root_index :: "nat \<Rightarrow> nat \<Rightarrow> nat \<Rightarrow> bool \<Rightarrow> nat" where
  "root_index k stride len invert =
     (if invert then nat (go_rem (int k * int stride) (int len))
      else let r = go_rem (- int k * int stride) (int len) in
           nat (if r < 0 then r + int len else r))"

text \<open>
  One iteration of the loop over \<open>freqEven\<close>: the two entries \<open>freq[k]\<close> and
  \<open>freq[k+halfLen]\<close>, or a panic on a nil operand or an index out of range.
\<close>

definition butterfly ::
  "int list \<Rightarrow> nat \<Rightarrow> bool \<Rightarrow> int option list \<Rightarrow> int option list \<Rightarrow> nat \<Rightarrow> (int \<times> int) option" where
  "butterfly roots stride invert freqEven freqOdd k =
     (let root = root_index k stride (length roots) invert in
      if roots = [] \<or> \<not> root < length roots then None
      else case (freqEven ! k, freqOdd ! k) of
             (Some e, Some c) \<Rightarrow> let o' = c * roots ! root in Some (e + o', e - o')
           | _ \<Rightarrow> None)"

fun sequence_opt :: "'a option list \<Rightarrow> 'a list option" where
  "sequence_opt [] = Some []"
| "sequence_opt (None # xs) = None"
| "sequence_opt (Some x # xs) = map_option ((#) x) (sequence_opt xs)"

definition evens :: "'a list \<Rightarrow> 'a list" where
  "evens xs = map (\<lambda>i. xs ! (i * 2)) [0..<length xs div 2]"

definition odds :: "'a list \<Rightarrow> 'a list" where
  "odds xs = map (\<lambda>i. xs ! (i * 2 + 1)) [0..<length xs div 2]"

text \<open>
  \<open>freq := make([]*big.Int, len(xs))\<close>: the loop fills the two halves; an odd
  length leaves the last entry nil.
\<close>

definition combine :: "nat \<Rightarrow> (int \<times> int) list \<Rightarrow> int option list" where
  "combine len ps = map (Some \<circ> fst) ps @ map (Some \<circ> snd) ps @ replicate (len - 2 * length ps) None"

partial_function (option) cooleyTukey ::
  "int list \<Rightarrow> int list \<Rightarrow> nat \<Rightarrow> bool \<Rightarrow> int option list option" where
  "cooleyTukey xs roots stride invert =
     (if length xs = 1 then Some [Some (xs ! 0)]
      else Option.bind (cooleyTukey (evens xs) roots (stride * 2) invert) (\<lambda>freqEven.
           Option.bind (cooleyTukey (odds xs) roots (stride * 2) invert) (\<lambda>freqOdd.
           Option.bind
             (sequence_opt (map (butterfly roots stride invert freqEven freqOdd) [0..<length freqEven]))
             (\<lambda>ps. Some (combine (length xs) ps)))))"

definition twiddleFactors :: "field \<Rightarrow> int list \<Rightarrow> int \<Rightarrow> (galois_error, int list) outcome" where
  "twiddleFactors f xs w =
     (let n = (of_nat (length xs) :: u64) in
      if n AND (n - 1) \<noteq> 0 then Fail NonPowerOf2
      else if w = 1 then Fail RootIsOne
      else if Exp f w (unat n) \<noteq> 1 then Fail (NotARoot w n)
      else Ret (map (\<lambda>i. Exp f w i) [0..<length xs]))"

definition fft :: "field \<Rightarrow> int list \<Rightarrow> int \<Rightarrow> bool \<Rightarrow> (galois_error, int list) outcome" where
  "fft f xs primitiveRoot invert =
     obind (twiddleFactors f xs primitiveRoot) (\<lambda>roots.
       case Option.bind (cooleyTukey xs roots 1 invert) sequence_opt of
         None \<Rightarrow> Panic
       | Some freq \<Rightarrow>
           if f = 0 \<and> freq \<noteq> [] then Panic
           else Ret (map (\<lambda>fr. \<bar>bigMod fr f\<bar>) freq))"

definition FFT :: "field \<Rightarrow> int list \<Rightarrow> int \<Rightarrow> (galois_error, int list) outcome" where
  "FFT f x primitiveRoot = fft f x primitiveRoot False"

text \<open>\<open>f.Mul(t, inv)\<close> with a nil inverse panics on the first element.\<close>

fun mul_all :: "field \<Rightarrow> int option \<Rightarrow> int list \<Rightarrow> (galois_error, int list) outcome" where
  "mul_all f mi [] = Ret []"
| "mul_all f mi (t # ts) =
     (case mi of
        None \<Rightarrow> Panic
      | Some v \<Rightarrow> obind (Mul f t v) (\<lambda>y. obind (mul_all f mi ts) (\<lambda>ys. Ret (y # ys))))"

definition FFTInverse :: "field \<Rightarrow> int list \<Rightarrow> int \<Rightarrow> (galois_error, int list) outcome" where
  "FFTInverse f X primitiveRoot =
     obind (fft f X primitiveRoot True) (\<lambda>time.
     obind (MultInverse f (int (length X))) (\<lambda>mi. mul_all f mi time))"

section \<open>The transform it computes\<close>

definition dft :: "int \<Rightarrow> int list \<Rightarrow> nat \<Rightarrow> int" where
  "dft w xs k = (\<Sum>j<length xs. xs ! j * w ^ (j * k))"

text \<open>The condition under which a table of roots is a table of powers of \<open>v\<close>.\<close>

definition twiddle_table :: "int \<Rightarrow> int list \<Rightarrow> int \<Rightarrow> bool \<Rightarrow> bool" where
  "twiddle_table q roots v invert \<longleftrightarrow>
     roots \<noteq> [] \<and>
     (\<forall>k s. root_index k s (length roots) invert < length roots \<and>
            cg q (roots ! root_index k s (length roots) invert) (v ^ (k * s)))"

lemma length_evens [simp]: "length (evens xs) = length xs div 2"
  and length_odds [simp]: "length (odds xs) = length xs div 2"
  by (simp_all add: evens_def odds_def)

lemma sequence_opt_map_Some [simp]: "sequence_opt (map Some xs) = Some xs"
  by (induction xs) simp_all

lemma sequence_opt_map_cong:
  "(\<And>i. i \<in> set ks \<Longrightarrow> g i = Some (h i)) \<Longrightarrow> sequence_opt (map g ks) = Some (map h ks)"
  by (induction ks) simp_all

lemma sum_even_odd:
  fixes h :: nat
  shows "(\<Sum>j<2 * h. f j) = (\<Sum>j<h. f (2 * j)) + (\<Sum>j<h. f (2 * j + 1) :: int)"
  by (induction h) simp_all

lemma dft_split:
  assumes "length xs = 2 * h"
  shows "dft u xs k = dft (u\<^sup>2) (evens xs) k + u ^ k * dft (u\<^sup>2) (odds xs) k"
proof -
  have "dft u xs k = (\<Sum>j<h. xs ! (2 * j) * u ^ (2 * j * k)) +
                     (\<Sum>j<h. xs ! (2 * j + 1) * u ^ ((2 * j + 1) * k))"
    using assms by (simp add: dft_def sum_even_odd)
  also have "(\<Sum>j<h. xs ! (2 * j) * u ^ (2 * j * k)) = dft (u\<^sup>2) (evens xs) k"
    using assms by (simp add: dft_def evens_def power_mult [symmetric] mult.assoc)
      (simp add: mult.commute)
  also have "(\<Sum>j<h. xs ! (2 * j + 1) * u ^ ((2 * j + 1) * k)) = u ^ k * dft (u\<^sup>2) (odds xs) k"
    using assms
    by (simp add: dft_def odds_def power_mult [symmetric] sum_distrib_left power_add algebra_simps)
  finally show ?thesis .
qed

section \<open>Cooley-Tukey computes the transform\<close>

lemma cooleyTukey_step:
  assumes len: "length xs = 2 * h" "0 < h"
    and fe: "cooleyTukey (evens xs) roots (s * 2) d = Some (map Some es)" "length es = h"
    and fo: "cooleyTukey (odds xs) roots (s * 2) d = Some (map Some cs)" "length cs = h"
    and tab: "twiddle_table q roots v d"
  shows "cooleyTukey xs roots s d =
     Some (map Some (map (\<lambda>k. es ! k + cs ! k * roots ! root_index k s (length roots) d) [0..<h] @
                     map (\<lambda>k. es ! k - cs ! k * roots ! root_index k s (length roots) d) [0..<h]))"
proof -
  let ?t = "\<lambda>k. roots ! root_index k s (length roots) d"
  have "butterfly roots s d (map Some es) (map Some cs) k =
      Some (es ! k + cs ! k * ?t k, es ! k - cs ! k * ?t k)" if "k < h" for k
    using that fe(2) fo(2) tab by (simp add: butterfly_def twiddle_table_def Let_def)
  then have "sequence_opt (map (butterfly roots s d (map Some es) (map Some cs)) [0..<h]) =
      Some (map (\<lambda>k. (es ! k + cs ! k * ?t k, es ! k - cs ! k * ?t k)) [0..<h])"
    by (intro sequence_opt_map_cong) simp
  moreover have "length xs \<noteq> 1" using len by simp
  ultimately show ?thesis
    using len fe fo by (subst cooleyTukey.simps) (simp add: combine_def comp_def)
qed

text \<open>The upper half of the transform, when \<open>u^h\<close> is minus one.\<close>

lemma dft_periodic:
  assumes "cg q (z ^ h) 1"
  shows "cg q (dft z xs (k + h)) (dft z xs k)"
proof -
  have "cg q (z ^ (j * (k + h))) (z ^ (j * k))" for j
  proof -
    have "cg q (z ^ (j * k) * (z ^ h) ^ j) (z ^ (j * k) * 1 ^ j)"
      by (intro cg_intros assms)
    then show ?thesis
      by (simp add: distrib_left power_add mult.commute flip: power_mult)
  qed
  then show ?thesis
    unfolding dft_def by (intro cg_intros)
qed

lemma dft_split_upper:
  assumes len: "length xs = 2 * h" and half: "cg q (u ^ h) (- 1)"
  shows "cg q (dft u xs (k + h)) (dft (u\<^sup>2) (evens xs) k - u ^ k * dft (u\<^sup>2) (odds xs) k)"
proof -
  have "cg q (u ^ h * u ^ h) (- 1 * - 1)"
    by (intro cg_intros half)
  then have square: "cg q ((u\<^sup>2) ^ h) 1"
    by (simp add: power2_eq_square power_mult_distrib)
  have "cg q (u ^ k * u ^ h) (u ^ k * (- 1))"
    by (intro cg_intros half)
  then have minus: "cg q (u ^ (k + h)) (- (u ^ k))"
    by (simp add: power_add)
  have "cg q (dft u xs (k + h))
      (dft (u\<^sup>2) (evens xs) k + - (u ^ k) * dft (u\<^sup>2) (odds xs) k)"
    unfolding dft_split [OF len] by (intro cg_intros dft_periodic square minus)
  then show ?thesis by simp
qed

lemma cooleyTukey_combine:
  fixes h :: nat
  assumes len: "length xs = 2 * h" and half: "cg q (u ^ h) (- 1)"
    and es: "length es = h" "\<And>k. k < h \<Longrightarrow> cg q (es ! k) (dft (u\<^sup>2) (evens xs) k)"
    and cs: "length cs = h" "\<And>k. k < h \<Longrightarrow> cg q (cs ! k) (dft (u\<^sup>2) (odds xs) k)"
    and t: "\<And>k. cg q (t k) (u ^ k)"
    and k: "k < 2 * h"
  shows "cg q ((map (\<lambda>k. es ! k + cs ! k * t k) [0..<h] @ map (\<lambda>k. es ! k - cs ! k * t k) [0..<h]) ! k)
     (dft u xs k)"
proof (cases "k < h")
  case True
  have "cg q (es ! k + cs ! k * t k) (dft (u\<^sup>2) (evens xs) k + dft (u\<^sup>2) (odds xs) k * u ^ k)"
    using True by (intro cg_intros es(2) cs(2) t)
  then show ?thesis
    using True by (simp add: nth_append dft_split [OF len] mult.commute)
next
  case False
  define i where "i = k - h"
  have i: "k = i + h" "i < h" using False k by (auto simp: i_def)
  have "cg q (es ! i - cs ! i * t i) (dft (u\<^sup>2) (evens xs) i - dft (u\<^sup>2) (odds xs) i * u ^ i)"
    using i(2) by (intro cg_intros es(2) cs(2) t)
  also have "cg q \<dots> (dft u xs (i + h))"
    using dft_split_upper [OF len half, THEN cg_sym] by (simp add: mult.commute)
  finally show ?thesis
    using i by (simp add: nth_append)
qed

lemma cooleyTukey_dft:
  assumes tab: "twiddle_table q roots v d"
    and half: "0 < m \<Longrightarrow> cg q (v ^ (s * 2 ^ (m - 1))) (- 1)"
    and len: "length xs = 2 ^ m"
  shows "\<exists>ys. cooleyTukey xs roots s d = Some (map Some ys) \<and> length ys = 2 ^ m \<and>
           (\<forall>k < 2 ^ m. cg q (ys ! k) (dft (v ^ s) xs k))"
  using half len
proof (induction m arbitrary: xs s)
  case 0
  then have "length xs = 1" by simp
  then have "cooleyTukey xs roots s d = Some (map Some [xs ! 0])"
    by (subst cooleyTukey.simps) simp
  moreover have "dft (v ^ s) xs 0 = xs ! 0"
    using \<open>length xs = 1\<close> by (simp add: dft_def)
  ultimately show ?case by (intro exI [of _ "[xs ! 0]"]) simp
next
  case (Suc m)
  let ?h = "2 ^ m" and ?u = "v ^ s"
  let ?t = "\<lambda>k. roots ! root_index k s (length roots) d"
  have len: "length xs = 2 * ?h" using Suc.prems(2) by simp
  have u2: "?u\<^sup>2 = v ^ (s * 2)" by (simp add: power_mult)
  have uh: "cg q (?u ^ ?h) (- 1)" using Suc.prems(1) by (simp flip: power_mult)
  have halves: "length (evens xs) = ?h" "length (odds xs) = ?h" using len by simp_all
  have half': "0 < m \<Longrightarrow> cg q (v ^ (s * 2 * 2 ^ (m - 1))) (- 1)"
    using Suc.prems(1) by (cases m) (simp_all add: mult.assoc)
  obtain es where es: "cooleyTukey (evens xs) roots (s * 2) d = Some (map Some es)"
    "length es = ?h" "\<And>k. k < ?h \<Longrightarrow> cg q (es ! k) (dft (?u\<^sup>2) (evens xs) k)"
    using Suc.IH [OF half' halves(1)] unfolding u2 by blast
  obtain cs where cs: "cooleyTukey (odds xs) roots (s * 2) d = Some (map Some cs)"
    "length cs = ?h" "\<And>k. k < ?h \<Longrightarrow> cg q (cs ! k) (dft (?u\<^sup>2) (odds xs) k)"
    using Suc.IH [OF half' halves(2)] unfolding u2 by blast
  have t: "cg q (?t k) (?u ^ k)" for k
    using tab by (simp add: twiddle_table_def mult.commute flip: power_mult)
  show ?case
    using cooleyTukey_step [OF len _ es(1,2) cs(1,2) tab]
      cooleyTukey_combine [OF len uh es(2,3) cs(2,3) t] by fastforce
qed

section \<open>The tables of roots\<close>

lemma go_rem_nonneg: "0 \<le> a \<Longrightarrow> 0 < b \<Longrightarrow> go_rem a b = a mod b"
  by (cases "a = 0") (simp_all add: go_rem_def)

lemma go_rem_neg: "0 \<le> a \<Longrightarrow> 0 < b \<Longrightarrow> go_rem (- a) b = - (a mod b)"
  by (cases "a = 0") (simp_all add: go_rem_def)

lemma root_index_forward: "0 < n \<Longrightarrow> root_index k s n True = (k * s) mod n"
  by (simp add: root_index_def go_rem_nonneg nat_mod_distrib nat_mult_distrib flip: of_nat_mult of_nat_mod)

lemma root_index_backward:
  assumes "0 < n"
  shows "int (root_index k s n False) = (- (int k * int s)) mod int n"
proof -
  define a where "a = int k * int s"
  define m where "m = a mod int n"
  have m: "0 \<le> m" "m < int n"
    using assms by (simp_all add: m_def)
  have "go_rem (- a) (int n) = - m"
    using go_rem_neg [of a "int n"] assms by (simp add: m_def a_def)
  then have "int (root_index k s n False) = (if m = 0 then 0 else int n - m)"
    using m by (simp add: root_index_def Let_def a_def)
  also have "\<dots> = (- a) mod int n"
    by (simp add: zmod_zminus1_eq_if m_def)
  finally show ?thesis by (simp add: a_def)
qed

lemma power_cong_exponent:
  assumes one: "cg q (w ^ n) 1" and eq: "a mod n = b mod n"
  shows "cg q (w ^ a) (w ^ b)"
proof -
  have red: "cg q (w ^ c) (w ^ (c mod n))" for c
  proof -
    have "w ^ c = (w ^ n) ^ (c div n) * w ^ (c mod n)"
      by (simp flip: power_mult power_add)
    moreover have "cg q ((w ^ n) ^ (c div n) * w ^ (c mod n)) (1 ^ (c div n) * w ^ (c mod n))"
      by (intro cg_intros one)
    ultimately show ?thesis by simp
  qed
  show ?thesis
    using red [of a] red [of b] eq cg_sym cg_trans by metis
qed

lemma twiddle_table_True:
  assumes "0 < q" "0 < n" "cg q (w ^ n) 1"
  shows "twiddle_table q (map (\<lambda>i. Exp q w i) [0..<n]) w True"
proof -
  have "cg q (Exp q w ((k * s) mod n)) (w ^ (k * s))" for k s
    using assms power_cong_exponent [OF assms(3), of "(k * s) mod n" "k * s"]
    by (simp add: Exp_eq)
  then show ?thesis
    using assms(2) by (simp add: twiddle_table_def root_index_forward)
qed

lemma backward_exponent:
  assumes "0 < n"
  shows "root_index k s n False mod n = ((n - 1) * (k * s)) mod n"
proof -
  have "int (root_index k s n False mod n) = (- (int k * int s)) mod int n"
    by (simp add: zmod_int root_index_backward [OF assms])
  also have "\<dots> = (- (int k * int s) + int n * (int k * int s)) mod int n"
    by (rule mod_mult_self2 [symmetric])
  also have "\<dots> = int (((n - 1) * (k * s)) mod n)"
    using assms by (simp add: zmod_int of_nat_diff algebra_simps)
  finally show ?thesis by simp
qed

lemma twiddle_table_False:
  assumes "0 < q" "0 < n" "cg q (w ^ n) 1"
  shows "twiddle_table q (map (\<lambda>i. Exp q w i) [0..<n]) (w ^ (n - 1)) False"
proof -
  have "int (root_index k s n False) < int n" for k s
    using assms(2) by (simp add: root_index_backward)
  then have lt: "root_index k s n False < n" for k s
    by simp
  have "cg q (w ^ root_index k s n False) ((w ^ (n - 1)) ^ (k * s))" for k s
    using power_cong_exponent [OF assms(3) backward_exponent [OF assms(2)]]
    by (simp add: power_mult)
  then show ?thesis
    using lt assms(1,2) by (simp add: twiddle_table_def Exp_eq)
qed

section \<open>The transform and its inverse\<close>

text \<open>What the transform needs of its root, for a slice of length \<open>2^(k+1)\<close>.\<close>

definition good_root :: "field \<Rightarrow> nat \<Rightarrow> int \<Rightarrow> bool" where
  "good_root q k w \<longleftrightarrow> 1 < q \<and> odd q \<and> cg q (w ^ (2 ^ k)) (- 1)"

lemma good_root_power: "good_root q k w \<Longrightarrow> cg q (w ^ (2 ^ Suc k)) 1"
proof -
  assume "good_root q k w"
  then have "cg q (w ^ (2 ^ k) * w ^ (2 ^ k)) (- 1 * - 1)"
    unfolding good_root_def by (intro cg_intros) auto
  then show ?thesis by (simp add: mult_2 flip: power_add)
qed

lemma good_root_neq_1: "good_root q k w \<Longrightarrow> w \<noteq> 1"
proof
  assume "good_root q k w" "w = 1"
  then have q: "q dvd 2" "1 < q" "odd q" by (simp_all add: good_root_def cg_def)
  then have "q \<le> 2" by (simp add: zdvd_imp_le)
  with q have "q = 2" by simp
  with q(3) show False by simp
qed

lemma unat_of_nat_64: "m < 2 ^ 64 \<Longrightarrow> unat (of_nat m :: u64) = m"
  by (simp add: unat_of_nat)

lemma twiddleFactors_good:
  assumes good: "good_root q k w" and len: "length xs = 2 ^ Suc k" and k: "Suc k < 64"
  shows "twiddleFactors q xs w = Ret (map (\<lambda>i. Exp q w i) [0..<2 ^ Suc k])"
proof -
  let ?n = "of_nat (length xs) :: u64"
  have "(2::nat) ^ Suc k < 2 ^ 64"
    using k by (intro power_strict_increasing) auto
  then have un: "unat ?n = 2 ^ Suc k"
    using len by (simp only: unat_of_nat_64)
  then have "?n \<noteq> 0" by auto
  then have "unat (?n - 1) = 2 ^ Suc k - 1"
    using un by (simp add: unat_minus_one)
  then have "unat (?n AND (?n - 1)) = 2 ^ Suc k AND (2 ^ Suc k - 1)"
    using un by (simp only: unsigned_and_eq)
  then have pow: "?n AND (?n - 1) = 0"
    by (simp only: and_pred_power2 unsigned_eq_0_iff)
  have "Exp q w (unat ?n) = 1"
    using good good_root_power [OF good] un by (simp add: Exp_eq good_root_def cg_iff_mod)
  then show ?thesis
    using pow good_root_neq_1 [OF good] len by (simp add: twiddleFactors_def Let_def)
qed

text \<open>The root that the code uses in each direction.\<close>

definition direction_root :: "nat \<Rightarrow> int \<Rightarrow> bool \<Rightarrow> int" where
  "direction_root n w invert = (if invert then w else w ^ (n - 1))"

lemma direction_root_half:
  assumes "good_root q k w"
  shows "cg q (direction_root (2 ^ Suc k) w d ^ (2 ^ k)) (- 1)"
proof (cases d)
  case True
  then show ?thesis using assms by (simp add: direction_root_def good_root_def)
next
  case False
  have "odd ((2::nat) ^ Suc k - 1)" by simp
  moreover have "cg q ((w ^ (2 ^ k)) ^ (2 ^ Suc k - 1)) ((- 1) ^ (2 ^ Suc k - 1))"
    using assms unfolding good_root_def by (intro cg_intros) auto
  ultimately have "cg q ((w ^ (2 ^ k)) ^ (2 ^ Suc k - 1)) (- 1)"
    by (metis power_minus_odd power_one)
  then show ?thesis
    using False by (simp add: direction_root_def mult.commute flip: power_mult)
qed

lemma twiddle_table_direction:
  assumes "0 < q" "0 < n" "cg q (w ^ n) 1"
  shows "twiddle_table q (map (\<lambda>i. Exp q w i) [0..<n]) (direction_root n w d) d"
  using twiddle_table_True [OF assms] twiddle_table_False [OF assms]
  by (cases d) (simp_all add: direction_root_def)

text \<open>The code's transform of a slice whose length is a power of two, entry by entry.\<close>

lemma fft_eq_dft:
  assumes good: "good_root q k w" and len: "length xs = 2 ^ Suc k" and k: "Suc k < 64"
  shows "fft q xs w d = Ret (map (\<lambda>i. dft (direction_root (2 ^ Suc k) w d) xs i mod q) [0..<2 ^ Suc k])"
proof -
  have q: "1 < q" using good by (simp add: good_root_def)
  let ?roots = "map (\<lambda>i. Exp q w i) [0..<2 ^ Suc k]" and ?v = "direction_root (2 ^ Suc k) w d"
  have tab: "twiddle_table q ?roots ?v d"
    using q good_root_power [OF good] by (intro twiddle_table_direction) auto
  have half: "cg q (?v ^ (1 * 2 ^ (Suc k - 1))) (- 1)"
    using direction_root_half [OF good] by simp
  obtain ys where ys: "cooleyTukey xs ?roots 1 d = Some (map Some ys)" "length ys = 2 ^ Suc k"
    "\<And>i. i < 2 ^ Suc k \<Longrightarrow> cg q (ys ! i) (dft ?v xs i)"
    using cooleyTukey_dft [OF tab half len] by (auto simp del: power_Suc)
  have "map (\<lambda>fr. \<bar>bigMod fr q\<bar>) ys = map (\<lambda>i. dft ?v xs i mod q) [0..<2 ^ Suc k]"
    using ys(2,3) q by (intro nth_equalityI) (simp_all add: bigMod_def cg_iff_mod)
  then show ?thesis
    using ys(1) q by (simp add: fft_def twiddleFactors_good [OF good len k] del: power_Suc)
qed

text \<open>Orthogonality of the powers of the root, in the form both inverses below use.\<close>

lemma orthogonality:
  assumes good: "good_root q k w" and n: "n = 2 ^ Suc k"
  shows "cg q (\<Sum>l<n. w ^ (((n - 1) * c + i) * l)) (if c mod n = i mod n then int n else 0)"
proof -
  let ?e = "(n - 1) * c + i" and ?d = "((n - 1) * c + i) mod n"
  have one: "cg q (w ^ n) 1" using good_root_power [OF good] n by simp
  have red: "cg q (\<Sum>l<n. w ^ (?e * l)) (\<Sum>l<n. w ^ (?d * l))"
    by (intro cg_intros power_cong_exponent [OF one]) (simp add: mod_mult_left_eq)
  have "0 < n" using n by simp
  then have pred: "int (n - 1) = int n - 1" by linarith
  have "int ?e = int n * int c + (int i - int c)"
    unfolding of_nat_add of_nat_mult pred by (simp add: algebra_simps)
  then have "int ?d = (int i - int c) mod int n"
    by (simp only: zmod_int mod_mult_self4)
  then have "?d = 0 \<longleftrightarrow> int n dvd int i - int c"
    by (metis dvd_eq_mod_eq_0 of_nat_eq_0_iff)
  also have "\<dots> \<longleftrightarrow> c mod n = i mod n"
    by (metis mod_eq_dvd_iff of_nat_mod of_nat_eq_iff)
  finally have zero: "?d = 0 \<longleftrightarrow> c mod n = i mod n" .
  show ?thesis
  proof (cases "?d = 0")
    case True
    then show ?thesis using red zero by simp
  next
    case False
    then have "cg q (\<Sum>l<n. w ^ (?d * l)) 0"
      using good unfolding n good_root_def by (intro root_sum_zero) auto
    then show ?thesis using red zero False cg_trans by auto
  qed
qed

lemma power_exponents: "(w ^ m) ^ (j * l) * w ^ (l * i) = (w::int) ^ ((m * j + i) * l)"
  by (simp add: algebra_simps flip: power_mult power_add)

lemma mul_all_Some: "0 < q \<Longrightarrow> mul_all q (Some v) ts = Ret (map (\<lambda>t. (t * v) mod q) ts)"
  by (induction ts) (simp_all add: Mul_eq)

lemma FFTInverse_eq:
  assumes good: "good_root q k w" and len: "length X = 2 ^ Suc k" and k: "Suc k < 64"
  shows "\<exists>v. cg q (int (2 ^ Suc k) * v) 1 \<and>
     FFTInverse q X w = Ret (map (\<lambda>i. (dft w X i * v) mod q) [0..<2 ^ Suc k])"
proof -
  have q: "1 < q" "odd q" using good by (simp_all add: good_root_def)
  have "coprime (int (2 ^ Suc k)) q"
    using q(2) coprime_two_power [of q "Suc k"] by (simp add: coprime_commute)
  then obtain v where v: "MultInverse q (int (2 ^ Suc k)) = Ret (Some v)" "cg q (int (2 ^ Suc k) * v) 1"
    using MultInverse_coprime q(1) by (metis less_trans zero_less_one)
  have "FFTInverse q X w = Ret (map (\<lambda>t. (t * v) mod q) (map (\<lambda>i. dft w X i mod q) [0..<2 ^ Suc k]))"
    using v(1) q(1) fft_eq_dft [OF good len k, of True] len
    by (simp add: FFTInverse_def mul_all_Some direction_root_def del: power_Suc)
  then show ?thesis
    using v(2) by (auto simp: mod_mult_left_eq comp_def simp del: power_Suc)
qed

text \<open>
  A slice whose entries are congruent to the forward transform of \<open>xs\<close> transforms back
  to \<open>n\<close> times \<open>xs\<close>.
\<close>

lemma dft_inverse:
  assumes good: "good_root q k w" and n: "n = 2 ^ Suc k"
    and len: "length xs = n" "length Y = n" and i: "i < n"
    and Y: "\<And>l. l < n \<Longrightarrow> cg q (Y ! l) (dft (w ^ (n - 1)) xs l)"
  shows "cg q (dft w Y i) (int n * xs ! i)"
proof -
  have "cg q (dft w Y i) (\<Sum>l<n. dft (w ^ (n - 1)) xs l * w ^ (l * i))"
    unfolding dft_def [of w] len by (intro cg_intros Y) auto
  also have "\<dots> = (\<Sum>l<n. \<Sum>j<n. xs ! j * w ^ (((n - 1) * j + i) * l))"
    unfolding dft_def len sum_distrib_right
    by (intro sum.cong refl) (simp only: mult.assoc power_exponents)
  also have "\<dots> = (\<Sum>j<n. xs ! j * (\<Sum>l<n. w ^ (((n - 1) * j + i) * l)))"
    by (subst sum.swap) (simp add: sum_distrib_left)
  also have "cg q \<dots> (\<Sum>j<n. xs ! j * (if j mod n = i mod n then int n else 0))"
    by (intro cg_intros orthogonality [OF good n])
  also have "\<dots> = (\<Sum>j<n. if j = i then xs ! j * int n else 0)"
    using i by (intro sum.cong) auto
  also have "\<dots> = int n * xs ! i"
    using i by simp
  finally show ?thesis .
qed


lemma FFTInverse_interpolates:
  assumes good: "good_root q k w" and k: "Suc k < 64" and n: "n = 2 ^ Suc k"
    and len: "length xs = n" "length Y = n"
    and Y: "\<And>l. l < n \<Longrightarrow> cg q (Y ! l) (dft (w ^ (n - 1)) xs l)"
  shows "FFTInverse q Y w = Ret (map (\<lambda>x. x mod q) xs)"
proof -
  obtain v where v: "cg q (int n * v) 1" "FFTInverse q Y w = Ret (map (\<lambda>i. (dft w Y i * v) mod q) [0..<n])"
    using FFTInverse_eq [OF good _ k, of Y] len n by auto
  have "cg q (dft w Y i * v) (xs ! i)" if "i < n" for i
  proof -
    have "cg q (dft w Y i * v) (int n * xs ! i * v)"
      by (intro cg_intros dft_inverse [OF good n len that] Y)
    also have "int n * xs ! i * v = (int n * v) * xs ! i" by simp
    also have "cg q \<dots> (1 * xs ! i)" by (intro cg_intros v(1))
    finally show ?thesis by simp
  qed
  then have "map (\<lambda>i. (dft w Y i * v) mod q) [0..<n] = map (\<lambda>x. x mod q) xs"
    using len by (intro nth_equalityI) (simp_all add: cg_iff_mod)
  then show ?thesis using v(2) by simp
qed

lemma dft_eval_at: "dft v xs i = eval_at xs (v ^ i)"
  by (simp add: dft_def eval_at_def mult.commute flip: power_mult)

text \<open>The package's transforms provide the interface.\<close>

interpretation ft: transform_pair
  "\<lambda>(q, k, w). good_root q k w \<and> Suc k < 64"
  "\<lambda>(q, k, w). q"
  "\<lambda>(q, k, w). 2 ^ Suc k"
  "\<lambda>(q, k, w) l. (w ^ (2 ^ Suc k - 1)) ^ l"
  "\<lambda>(q, k, w) xs. FFT q xs w"
  "\<lambda>(q, k, w) X. FFTInverse q X w"
proof (unfold_locales, goal_cases)
  case (1 p xs)
  obtain q k w where p: "p = (q, k, w)" by (cases p)
  then have "fft q xs w False =
      Ret (map (\<lambda>i. dft (direction_root (2 ^ Suc k) w False) xs i mod q) [0..<2 ^ Suc k])"
    using 1 by (intro fft_eq_dft) auto
  then show ?case
    unfolding p prod.case FFT_def direction_root_def if_False dft_eval_at .
next
  case (2 p xs Y)
  obtain q k w where p: "p = (q, k, w)" by (cases p)
  show ?case
    using 2 unfolding p prod.case dft_eval_at [symmetric]
    by (intro FFTInverse_interpolates [OF _ _ refl]) auto
qed

section \<open>Properties\<close>

text \<open>
  C35. For an odd modulus and a root whose \<open>n/2\<close>-th power is minus one, the recursive
  routine of \<open>FFT\<close> returns on every slice of \<open>n = 2^(k+1)\<close> elements, and entry \<open>i\<close> of
  its result is the quadratic-time discrete Fourier transform
  \<open>\<Sum>\<^sub>j xs[j] * w^(-i*j) mod q\<close> (with \<open>w^(n-1)\<close> for the inverse of \<open>w\<close>).
\<close>

theorem FFT_computes_dft:
  assumes "good_root q k w" and "length xs = 2 ^ Suc k" and "Suc k < 64"
  shows "FFT q xs w = Ret (map (\<lambda>i. dft (w ^ (2 ^ Suc k - 1)) xs i mod q) [0..<2 ^ Suc k])"
  using fft_eq_dft [OF assms, of False] unfolding FFT_def direction_root_def if_False .

theorem FFT_computes_dft_witness:
  "FFT 17 [1, 2, 3, 4] 4 = Ret [10, 6, 15, 7]"
proof -
  have "FFT 17 [1, 2, 3, 4] 4 = Ret (map (\<lambda>i. dft (4 ^ (2 ^ Suc 1 - 1)) [1, 2, 3, 4] i mod 17) [0..<2 ^ Suc 1])"
    by (rule FFT_computes_dft) (simp_all add: good_root_def cg_def)
  also have "\<dots> = Ret [10, 6, 15, 7]" by code_simp
  finally show ?thesis .
qed

text \<open>
  C37. \<open>FFTInverse\<close> inverts \<open>FFT\<close>: transforming a slice there and back returns its
  elements reduced modulo the order of the field, and neither call fails.
\<close>

theorem FFT_roundtrip:
  assumes "good_root q k w" and "length xs = 2 ^ Suc k" and "Suc k < 64"
  shows "obind (FFT q xs w) (\<lambda>X. FFTInverse q X w) = Ret (map (\<lambda>x. x mod q) xs)"
  using ft.roundtrip [of "(q, k, w)" xs] assms by simp

theorem FFT_roundtrip_witness:
  "obind (FFT 17 [1, 20, 3, 0] 4) (\<lambda>X. FFTInverse 17 X 4) = Ret [1, 3, 3, 0]"
  using FFT_roundtrip [of 17 1 4 "[1, 20, 3, 0]"] by (simp add: good_root_def cg_def)

text \<open>The recursion on an empty slice never ends: no call on it returns.\<close>

lemma cooleyTukey_defined: "cooleyTukey xs roots s d = Some ys \<Longrightarrow> xs \<noteq> []"
proof (rule cooleyTukey.raw_induct [of "\<lambda>xs roots s d ys. xs \<noteq> []" xs roots s d ys, rotated])
  fix ct xs roots s d ys
  assume 1: "\<And>xs roots s d ys. ct xs roots s d = Some ys \<Longrightarrow> xs \<noteq> []"
    "(if length xs = 1 then Some [Some (xs ! 0)]
      else Option.bind (ct (evens xs) roots (s * 2) d) (\<lambda>freqEven.
           Option.bind (ct (odds xs) roots (s * 2) d) (\<lambda>freqOdd.
           Option.bind
             (sequence_opt (map (butterfly roots s d freqEven freqOdd) [0..<length freqEven]))
             (\<lambda>ps. Some (combine (length xs) ps))))) = Some ys"
  show "xs \<noteq> []"
  proof
    assume "xs = []"
    then have "evens xs = []" by (simp add: evens_def)
    moreover obtain fe where "ct (evens xs) roots (s * 2) d = Some fe"
      using 1(2) \<open>xs = []\<close> by (auto simp: bind_eq_Some_conv)
    ultimately show False using 1(1) by blast
  qed
qed

lemma power_of_two_guard:
  assumes "0 < m" "m < 2 ^ 64"
  shows "(of_nat m :: u64) AND (of_nat m - 1) = 0 \<longleftrightarrow> (\<exists>k. m = 2 ^ k)"
proof -
  let ?n = "of_nat m :: u64"
  have un: "unat ?n = m" using assms(2) by (rule unat_of_nat_64)
  then have "?n \<noteq> 0" using assms(1) by auto
  then have "unat (?n - 1) = m - 1" using un by (simp add: unat_minus_one)
  then have "unat (?n AND (?n - 1)) = m AND (m - 1)" using un by (simp only: unsigned_and_eq)
  then have "?n AND (?n - 1) = 0 \<longleftrightarrow> m AND (m - 1) = 0"
    by (metis unsigned_eq_0_iff)
  then show ?thesis using and_pred_iff [OF assms(1)] by simp
qed

text \<open>
  The slices the transform rejects: a non-empty slice is refused as "not a power of
  two" exactly when its length is none, the root 1 never yields a result, and on the
  empty slice, which passes the guard on the length, no call returns a result (the
  recursion does not end).
\<close>

theorem fft_rejects:
  assumes "length xs < 2 ^ 64"
  shows "(fft q xs w d = Fail NonPowerOf2 \<longleftrightarrow> xs \<noteq> [] \<and> (\<forall>k. length xs \<noteq> 2 ^ k)) \<and>
         (\<forall>ys. fft q xs 1 d \<noteq> Ret ys) \<and> (\<forall>ys. fft q [] w d \<noteq> Ret ys)"
proof -
  have "cooleyTukey [] roots 1 d = None" for roots
    using cooleyTukey_defined [of "[]" roots 1 d] by (cases "cooleyTukey [] roots 1 d") auto
  then have "fft q [] w d \<noteq> Ret ys" for ys
    by (simp add: fft_def twiddleFactors_def Let_def)
  moreover have "fft q xs 1 d \<noteq> Ret ys" for ys
    by (simp add: fft_def twiddleFactors_def Let_def)
  moreover have "fft q xs w d = Fail NonPowerOf2 \<longleftrightarrow>
      (of_nat (length xs) :: u64) AND (of_nat (length xs) - 1) \<noteq> 0"
    by (simp add: fft_def twiddleFactors_def Let_def split: option.splits)
  moreover have "xs \<noteq> [] \<Longrightarrow>
      (of_nat (length xs) :: u64) AND (of_nat (length xs) - 1) \<noteq> 0 \<longleftrightarrow> (\<forall>k. length xs \<noteq> 2 ^ k)"
    using power_of_two_guard [of "length xs"] assms by simp
  ultimately show ?thesis by (cases "xs = []") simp_all
qed

theorem fft_rejects_witness: "fft 17 [1, 2, 3] 4 False = Fail NonPowerOf2"
proof -
  have "(3::nat) \<noteq> 2 ^ k" for k
    by (cases k) (simp_all, presburger)
  then show ?thesis
    using fft_rejects [of "[1, 2, 3]" 17 4 False] by (simp add: numeral_3_eq_3)
qed

end
