(* ===== verification/Convolution.thy ===== *)
theory Convolution
  imports FFT
begin

text \<open>
  Convolution of two sequences over a field (\<open>go/galois/convolution.go\<close>), through the
  transforms of \<open>go/galois/fft.go\<close>. The lengths are kept at 64 bits where the code
  computes with \<open>uint64\<close>. The two argument slices are taken to share no memory: the
  code's \<open>append\<close> in \<open>zeroPad\<close> may write behind the end of its argument.
\<close>

unbundle bit_operations_syntax

section \<open>The code\<close>

definition convolutionSize :: "int list \<Rightarrow> int list \<Rightarrow> u64" where
  "convolutionSize a b =
     (let n = of_int (int (length a) + int (length b) - 1) in
      if n AND (n - 1) = 0 then n
      else push_bit (64 - LeadingZeros64 n) 1)"

text \<open>\<open>make\<close> with a negative length panics.\<close>

definition zeroPad :: "int list \<Rightarrow> int \<Rightarrow> (galois_error, int list) outcome" where
  "zeroPad x sz =
     (if sz - int (length x) < 0 then Panic
      else Ret (x @ replicate (nat (sz - int (length x))) 0))"

definition Convolve :: "field \<Rightarrow> int list \<Rightarrow> int list \<Rightarrow> int \<Rightarrow> (galois_error, int list) outcome" where
  "Convolve f a b primitiveRoot =
     (let n = sint (convolutionSize a b); top = int (length a) + int (length b) - 1 in
      obind (zeroPad a n) (\<lambda>pa.
      obind (map_fail (FFTof ''a'') (FFT f pa primitiveRoot)) (\<lambda>aFreq.
      obind (zeroPad b n) (\<lambda>pb.
      obind (map_fail (FFTof ''b'') (FFT f pb primitiveRoot)) (\<lambda>bFreq.
      if length bFreq < length aFreq then Panic
      else obind (map_fail (FFTof ''product'') (FFTInverse f (map2 (*) aFreq bFreq) primitiveRoot)) (\<lambda>result.
      if top < 0 \<or> int (length result) < top then Panic
      else Ret (take (nat top) result)))))))"

definition ConvolutionRoot ::
  "field \<Rightarrow> bytes \<Rightarrow> int list \<Rightarrow> int list \<Rightarrow> (galois_error, int \<times> bytes) outcome" where
  "ConvolutionRoot f r a b = RootOfUnity f r (convolutionSize a b) True"

section \<open>The size of the transform\<close>

text \<open>The smallest power of two that is at least \<open>m\<close>.\<close>

definition least_pow2 :: "nat \<Rightarrow> nat \<Rightarrow> bool" where
  "least_pow2 m k \<longleftrightarrow> m \<le> 2 ^ k \<and> (k = 0 \<or> 2 ^ (k - 1) < m)"

lemma least_pow2_power [simp]: "least_pow2 (2 ^ k) k"
  by (cases k) (simp_all add: least_pow2_def)

lemma unat_two_power: "k < 64 \<Longrightarrow> unat ((2 :: u64) ^ k) = 2 ^ k"
proof -
  assume "k < 64"
  then have "(2::nat) ^ k < 2 ^ 64" by (intro power_strict_increasing) auto
  then show ?thesis using unat_of_nat_64 [of "2 ^ k"] by simp
qed

lemma bitLen_bound: "m < 2 ^ j \<Longrightarrow> bitLen m \<le> j"
proof (cases "m = 0")
  case False
  assume "m < 2 ^ j"
  then have "(2::nat) ^ (bitLen m - 1) < 2 ^ j"
    using bitLen_bounds [of m] False le_less_trans by blast
  then have "bitLen m - 1 < j" by simp
  then show ?thesis by simp
qed simp

lemma convolutionSize_pow2:
  assumes m: "length a + length b = Suc m" "0 < m" "m \<le> 2 ^ 62"
  shows "\<exists>k. unat (convolutionSize a b) = 2 ^ k \<and> least_pow2 m k \<and> k \<le> 62"
proof -
  let ?n = "of_nat m :: u64"
  have "of_int (int (length a) + int (length b) - 1) = ?n"
    using m(1) by (metis (no_types, opaque_lifting) add_diff_cancel_right' of_int_of_nat_eq of_nat_Suc of_nat_add add.commute)
  then have size: "convolutionSize a b =
      (if ?n AND (?n - 1) = 0 then ?n else push_bit (64 - LeadingZeros64 ?n) 1)"
    by (simp add: convolutionSize_def)
  have un: "unat ?n = m" using m(3) by (intro unat_of_nat_64) simp
  show ?thesis
  proof (cases "?n AND (?n - 1) = 0")
    case True
    then obtain k where k: "m = 2 ^ k"
      using power_of_two_guard [of m] m by auto
    have "k \<le> 62"
      using m(3) k power_le_imp_le_exp [of "2::nat" k 62] by simp
    then show ?thesis using True size un k by auto
  next
    case False
    then have np: "m \<noteq> 2 ^ k" for k
      using power_of_two_guard [of m] m by auto
    have "m < 2 ^ 62" using m(3) np [of 62] by linarith
    then have bl: "bitLen m \<le> 62" by (rule bitLen_bound)
    have bounds: "2 ^ (bitLen m - 1) \<le> m" "m < 2 ^ bitLen m"
      using bitLen_bounds [OF m(2)] by auto
    have "unat (convolutionSize a b) = 2 ^ bitLen m"
      using False size un bl by (simp add: LeadingZeros64_def unat_two_power)
    moreover have "2 ^ (bitLen m - 1) < m"
      using bounds(1) np [of "bitLen m - 1"] by linarith
    ultimately show ?thesis
      using bl bounds(2) by (auto simp: least_pow2_def)
  qed
qed

lemma sint_of_pow2: "unat (x :: u64) = 2 ^ k \<Longrightarrow> k \<le> 62 \<Longrightarrow> sint x = 2 ^ k"
proof -
  assume x: "unat x = 2 ^ k" "k \<le> 62"
  then have "uint x = 2 ^ k" by (metis of_nat_numeral of_nat_power uint_nat)
  moreover have "(2::int) ^ k < 2 ^ 63" using x(2) by (intro power_strict_increasing) auto
  ultimately show ?thesis
    using order_trans [of "- (2 ^ 63)" 0 "(2::int) ^ k"]
    by (simp add: sint_uint signed_take_bit_int_eq_self_iff)
qed

section \<open>Convolving through the transform\<close>

lemma zeroPad_Ret:
  "length x \<le> 2 ^ k \<Longrightarrow> zeroPad x (2 ^ k) = Ret (x @ replicate (2 ^ k - length x) 0)"
  using of_nat_mono [of "length x" "2 ^ k", where 'a = int]
  by (simp add: zeroPad_def nat_diff_distrib nat_power_eq)

lemma Convolve_good:
  assumes good: "good_root q k w" and size: "unat (convolutionSize a b) = 2 ^ Suc k" and k: "Suc k \<le> 62"
    and ne: "a \<noteq> []" "b \<noteq> []" and fit: "length a + length b \<le> Suc (2 ^ Suc k)"
  shows "Convolve q a b w = Ret (map (\<lambda>i. convolution a b i mod q) [0..<length a + length b - 1])"
proof -
  let ?n = "2 ^ Suc k :: nat"
  have s: "sint (convolutionSize a b) = 2 ^ Suc k"
    by (rule sint_of_pow2 [OF size k])
  have "0 < length a" "0 < length b" using ne by simp_all
  then have le: "length a \<le> ?n" "length b \<le> ?n" using fit by linarith+
  let ?pa = "a @ replicate (?n - length a) 0" and ?pb = "b @ replicate (?n - length b) 0"
  obtain A B where A: "FFT q ?pa w = Ret A" and B: "FFT q ?pb w = Ret B"
    using ft.fwd_eval [of "(q, k, w)" ?pa] ft.fwd_eval [of "(q, k, w)" ?pb] good k le by auto
  have pp: "length A = ?n" "length B = ?n"
    "FFTInverse q (map2 (*) A B) w = Ret (map (\<lambda>i. convolution a b i mod q) [0..<?n])"
    using ft.pointwise_product [of "(q, k, w)" a b ?pa ?pb A B] good k ne fit A B by simp_all
  have top: "nat (int (length a) + int (length b) - 1) = length a + length b - 1"
    "0 \<le> int (length a) + int (length b) - 1" "int (length a) + int (length b) - 1 \<le> int ?n"
    using ne fit \<open>0 < length a\<close> by linarith+
  then show ?thesis
    using fit unfolding Convolve_def Let_def s
    by (simp add: zeroPad_Ret [OF le(1)] zeroPad_Ret [OF le(2)] A B pp take_map del: power_Suc)
qed

lemma good_root_prime:
  assumes "is_prime q" "odd q" "w ^ (2 ^ Suc k) mod q = 1" "w ^ (2 ^ k) mod q \<noteq> 1"
  shows "good_root q k w"
  using assms half_power_minus_one [OF assms(1,3,4)] is_prime_gt_1 by (simp add: good_root_def)

lemma convolutionSize_Suc:
  assumes "a \<noteq> []" "b \<noteq> []" "3 \<le> length a + length b" "length a + length b \<le> 2 ^ 62"
  shows "\<exists>k. unat (convolutionSize a b) = 2 ^ Suc k \<and> Suc k \<le> 62 \<and> length a + length b \<le> Suc (2 ^ Suc k)"
proof -
  define m where "m = length a + length b - 1"
  have m: "length a + length b = Suc m" "2 \<le> m" "0 < m" "m \<le> 2 ^ 62" using assms by (auto simp: m_def)
  then obtain k where k: "unat (convolutionSize a b) = 2 ^ k" "least_pow2 m k" "k \<le> 62"
    using convolutionSize_pow2 [OF m(1,3,4)] by blast
  have "k \<noteq> 0"
  proof
    assume "k = 0"
    then show False using k(2) m(2) by (simp add: least_pow2_def)
  qed
  then obtain j where "k = Suc j" using not0_implies_Suc by blast
  then show ?thesis using k m(1) by (auto simp: least_pow2_def)
qed

section \<open>Properties\<close>

text \<open>
  \<open>convolutionSize\<close> returns the smallest power of two that is at least
  \<open>len(a)+len(b)-1\<close>, for all lengths that fit in memory; the bit tricks neither overshoot nor
  wrap around.
\<close>

theorem convolutionSize_least:
  assumes "0 < length a" and "0 < length b" and "length a + length b \<le> 2 ^ 62"
  shows "\<exists>k. unat (convolutionSize a b) = 2 ^ k \<and> length a + length b - 1 \<le> 2 ^ k \<and>
             (\<forall>j. length a + length b - 1 \<le> 2 ^ j \<longrightarrow> k \<le> j)"
proof -
  define m where "m = length a + length b - 1"
  have m: "length a + length b = Suc m" "0 < m" "m \<le> 2 ^ 62" using assms unfolding m_def by linarith+
  obtain k where k: "unat (convolutionSize a b) = 2 ^ k" "least_pow2 m k"
    using convolutionSize_pow2 [OF m] by blast
  have "k \<le> j" if "m \<le> 2 ^ j" for j
  proof (cases "k = 0")
    case False
    then have "2 ^ (k - 1) < m" using k(2) by (simp add: least_pow2_def)
    then have "(2::nat) ^ (k - 1) < 2 ^ j" using that by (rule less_le_trans)
    then have "k - 1 < j" by simp
    then show ?thesis using False by simp
  qed simp
  then show ?thesis using k m(1) by (auto simp: least_pow2_def)
qed

theorem convolutionSize_least_witness:
  "\<exists>k. unat (convolutionSize [1, 2, 3] [4, 5, 6]) = 2 ^ k \<and> 5 \<le> (2::nat) ^ k \<and>
       (\<forall>j. 5 \<le> (2::nat) ^ j \<longrightarrow> k \<le> j)"
proof -
  have "length [1, 2, 3 :: int] + length [4, 5, 6 :: int] - 1 = 5" by simp
  from convolutionSize_least [of "[1, 2, 3]" "[4, 5, 6]", unfolded this] show ?thesis by simp
qed

text \<open>
  C1. \<open>Convolve\<close> is correct: over a field of odd prime order, for any two non-empty slices and
  any primitive root \<open>w\<close> of the size the code computes (\<open>w^n = 1\<close> and \<open>w^(n/2) \<noteq> 1\<close>), the
  log-linear routine returns, without an error or a panic, the \<open>len(a)+len(b)-1\<close>
  coefficients \<open>\<Sum>\<^sub>j a[j]*b[i-j] mod q\<close> of the quadratic-time definition.
\<close>

theorem Convolve_correct:
  assumes prime: "is_prime q" "odd q"
    and ne: "a \<noteq> []" "b \<noteq> []" "3 \<le> length a + length b" "length a + length b \<le> 2 ^ 62"
    and root: "w ^ unat (convolutionSize a b) mod q = 1"
      "w ^ (unat (convolutionSize a b) div 2) mod q \<noteq> 1"
  shows "Convolve q a b w = Ret (map (\<lambda>i. convolution a b i mod q) [0..<length a + length b - 1])"
proof -
  obtain k where k: "unat (convolutionSize a b) = 2 ^ Suc k" "Suc k \<le> 62"
    "length a + length b \<le> Suc (2 ^ Suc k)"
    using convolutionSize_Suc [OF ne] by blast
  have "good_root q k w"
    using root k(1) by (intro good_root_prime [OF prime]) simp_all
  from Convolve_good [OF this k(1,2) ne(1,2) k(3)] show ?thesis .
qed

theorem Convolve_correct_witness: "Convolve 17 [1, 2] [3, 4, 5] 4 = Ret [3, 10, 13, 10]"
proof -
  have size: "unat (convolutionSize [1, 2] [3, 4, 5]) = 4" by code_simp
  have "is_prime 17" by code_simp
  then have "Convolve 17 [1, 2] [3, 4, 5] 4 =
      Ret (map (\<lambda>i. convolution [1, 2] [3, 4, 5] i mod 17) [0..<length [1, 2 :: int] + length [3, 4, 5 :: int] - 1])"
    by (rule Convolve_correct) (simp_all add: size)
  also have "\<dots> = Ret [3, 10, 13, 10]" by code_simp
  finally show ?thesis .
qed

text \<open>An error of the first transform is that of the convolution; the padded input passes the guards of the transform.\<close>

lemma first_transform:
  assumes "a \<noteq> []" "b \<noteq> []" "3 \<le> length a + length b" "length a + length b \<le> 2 ^ 62"
  obtains pa where "of_nat (length pa) = convolutionSize a b"
    and "convolutionSize a b AND (convolutionSize a b - 1) = 0"
    and "\<And>q w e. FFT q pa w = Fail e \<Longrightarrow> Convolve q a b w = Fail (FFTof ''a'' e)"
proof -
  let ?s = "convolutionSize a b"
  obtain k where k: "unat ?s = 2 ^ Suc k" "Suc k \<le> 62" "length a + length b \<le> Suc (2 ^ Suc k)"
    using convolutionSize_Suc [OF assms] by blast
  have "sint ?s = 2 ^ Suc k" by (rule sint_of_pow2 [OF k(1,2)])
  moreover have "length a \<le> 2 ^ Suc k" using k(3) assms(2) by (cases b) simp_all
  ultimately obtain pa where pa: "zeroPad a (sint ?s) = Ret pa" "length pa = 2 ^ Suc k"
    using zeroPad_Ret [of a "Suc k"] by auto
  have "of_nat (unat ?s) = ?s" by simp
  then have len: "of_nat (length pa) = ?s" using pa(2) k(1) by metis
  have "(2::nat) ^ Suc k < 2 ^ 64" using k(2) by (intro power_strict_increasing) auto
  then have guard: "?s AND (?s - 1) = 0"
    using power_of_two_guard [of "length pa"] pa(2) len by (metis zero_less_numeral zero_less_power)
  show ?thesis using pa(1) by (intro that [OF len guard]) (simp add: Convolve_def Let_def)
qed

text \<open>
  C39. \<open>ConvolutionRoot\<close> and \<open>Convolve\<close> together, for every reader: with the root that
  \<open>ConvolutionRoot\<close> returned, \<open>Convolve\<close> never yields a wrong result. It returns the
  convolution when the size divides \<open>q-1\<close> and the root is not zero, and an error otherwise:
  the root 0 that the search may return is rejected, and a field without a root of that
  size gives the root 1, which is rejected too.
\<close>

theorem ConvolutionRoot_Convolve:
  assumes prime: "is_prime q"
    and ne: "a \<noteq> []" "b \<noteq> []" "3 \<le> length a + length b" "length a + length b \<le> 2 ^ 62"
    and run: "ConvolutionRoot q r a b = Ret (w, r')"
  shows "Convolve q a b w =
     (if \<not> int (unat (convolutionSize a b)) dvd q - 1 then Fail (FFTof ''a'' RootIsOne)
      else if w = 0 then Fail (FFTof ''a'' (NotARoot 0 (convolutionSize a b)))
      else Ret (map (\<lambda>i. convolution a b i mod q) [0..<length a + length b - 1]))"
proof -
  let ?s = "convolutionSize a b"
  have q: "1 < q" using prime by (rule is_prime_gt_1)
  obtain k where k: "unat ?s = 2 ^ Suc k" "Suc k \<le> 62" "length a + length b \<le> Suc (2 ^ Suc k)"
    using convolutionSize_Suc [OF ne] by blast
  obtain pa where len: "of_nat (length pa) = ?s" and guard: "?s AND (?s - 1) = 0"
    and fail: "\<And>e. FFT q pa w = Fail e \<Longrightarrow> Convolve q a b w = Fail (FFTof ''a'' e)"
    using first_transform [OF ne] by metis
  show ?thesis
  proof (cases "int (unat ?s) dvd q - 1")
    case False
    then have "w = 1" using run k(1)
      by (auto simp: ConvolutionRoot_def RootOfUnity_def Let_def dvd_eq_mod_eq_0 split: if_splits)
    then show ?thesis
      using False fail guard len by (simp add: FFT_def fft_def twiddleFactors_def Let_def)
  next
    case True
    show ?thesis
    proof (cases "w = 0")
      case w: True
      then show ?thesis
        using True fail [of "NotARoot 0 ?s"] guard len k(1) q
        by (simp add: FFT_def fft_def twiddleFactors_def Let_def Exp_eq power_0_left)
    next
      case False
      have half: "cg q (w ^ (2 ^ k)) (- 1)"
        using RootOfUnity_half_power [OF prime k(1) True _ False] run
        by (auto simp: ConvolutionRoot_def)
      have "even (q - 1)" using True k(1) by (metis dvd_trans dvd_triv_left of_nat_mult of_nat_numeral power_Suc)
      then have "good_root q k w" using q half by (simp add: good_root_def)
      from Convolve_good [OF this k(1,2) ne(1,2) k(3)] show ?thesis
        using True False by (simp only: if_not_P simp_thms if_True if_False)
    qed
  qed
qed

theorem ConvolutionRoot_Convolve_witness:
  "\<exists>w r'. ConvolutionRoot 17 [3, 5] [1, 2] [3, 4, 5] = Ret (w, r') \<and>
          Convolve 17 [1, 2] [3, 4, 5] w = Ret [3, 10, 13, 10]"
proof -
  have size: "unat (convolutionSize [1, 2] [3, 4, 5]) = 4" by code_simp
  have "is_prime 17" by code_simp
  moreover have run: "ConvolutionRoot 17 [3, 5] [1, 2] [3, 4, 5] = Ret (13, [5])" by code_simp
  ultimately have "Convolve 17 [1, 2] [3, 4, 5] 13 =
      Ret (map (\<lambda>i. convolution [1, 2] [3, 4, 5] i mod 17) [0..<length [1, 2 :: int] + length [3, 4, 5 :: int] - 1])"
    using ConvolutionRoot_Convolve [of 17 "[1, 2]" "[3, 4, 5]" "[3, 5]" 13 "[5]"] by (simp add: size)
  also have "\<dots> = Ret [3, 10, 13, 10]" by code_simp
  finally show ?thesis using run by blast
qed

end
