(* ===== verification/Toggle.thy ===== *)
theory Toggle
  imports Prelude
begin

text \<open>
  The toggle of \<open>go/sync/toggle.go\<close>: a condition that goroutines wait for, built from a
  mutex and a channel with a one-item buffer. The model is a step relation over the shared
  state and the goroutines that use it. A step is one critical section of the mutex or one
  channel operation; a goroutine that cannot step is blocked. Each step carries a label,
  the event that a caller observes at that moment.
\<close>

section \<open>Shared state\<close>

record channel =
  buf :: nat
  chan_closed :: bool

record toggle =
  mu :: bool
  tstate :: bool
  signal :: "channel option"

definition zero_toggle :: toggle where
  "zero_toggle = \<lparr>mu = False, tstate = False, signal = None\<rparr>"

definition new_chan :: channel where
  "new_chan = \<lparr>buf = 0, chan_closed = False\<rparr>"

definition sigChanWhenAlreadyLocked :: "toggle \<Rightarrow> toggle" where
  "sigChanWhenAlreadyLocked t =
     (case signal t of None \<Rightarrow> t\<lparr>signal := Some new_chan\<rparr> | Some c \<Rightarrow> t)"

text \<open>The whole critical section of \<open>sigChan\<close>, when the mutex is free.\<close>

definition sigChan :: "toggle \<Rightarrow> toggle option" where
  "sigChan t = (if mu t then None else Some (sigChanWhenAlreadyLocked t))"

section \<open>Goroutines\<close>

text \<open>The calls, with the context of \<open>Wait\<close> as whether it is done.\<close>

datatype call = CWait bool | CSet bool | CClose | CState

datatype result = RNil | RCtxErr | RErrToggleClosed | RState bool | RPanic

datatype pc =
    Idle
  | Begin call
  | InSelect bool            \<comment> \<open>in the \<open>select\<close> of \<open>Wait\<close>\<close>
  | Returning                \<comment> \<open>in \<open>Wait\<close>, about to give the item back\<close>
  | Sending                  \<comment> \<open>in \<open>Set(true)\<close>, holding the mutex\<close>
  | Receiving                \<comment> \<open>in \<open>Set(false)\<close>, holding the mutex\<close>
  | Closing                  \<comment> \<open>in \<open>Close\<close>, after \<open>sigChan\<close>\<close>
  | Done result

datatype event = Tau | ESet bool | EWait | EState bool | EClose

type_synonym move = "event \<times> toggle \<times> pc"

text \<open>\<open>ch <- x\<close>: blocks on a full buffer, panics on a closed channel.\<close>

definition chan_send :: "toggle \<Rightarrow> event \<Rightarrow> (toggle \<Rightarrow> toggle) \<Rightarrow> move list" where
  "chan_send t e after =
     (case signal t of
        None \<Rightarrow> []
      | Some c \<Rightarrow>
          if chan_closed c then [(Tau, after t, Done RPanic)]
          else if buf c = 0 then [(e, after (t\<lparr>signal := Some (c\<lparr>buf := 1\<rparr>)\<rparr>), Done RNil)]
          else [])"

text \<open>
  \<open>x, ok := <-ch\<close>: the buffer first, also on a closed channel; a drained closed channel
  yields \<open>ok = false\<close>.
\<close>

definition chan_recv :: "toggle \<Rightarrow> (toggle \<Rightarrow> move) \<Rightarrow> move \<Rightarrow> move list" where
  "chan_recv t ok not_ok =
     (case signal t of
        None \<Rightarrow> []
      | Some c \<Rightarrow>
          if 0 < buf c then [ok (t\<lparr>signal := Some (c\<lparr>buf := buf c - 1\<rparr>)\<rparr>)]
          else if chan_closed c then [not_ok] else [])"

definition Wait_begin :: "bool \<Rightarrow> toggle \<Rightarrow> move list" where
  "Wait_begin ctx t = (case sigChan t of None \<Rightarrow> [] | Some t' \<Rightarrow> [(Tau, t', InSelect ctx)])"

text \<open>A \<open>select\<close> with both cases ready may take either.\<close>

definition Wait_select :: "bool \<Rightarrow> toggle \<Rightarrow> move list" where
  "Wait_select ctx t =
     (if ctx then [(Tau, t, Done RCtxErr)] else []) @
     chan_recv t (\<lambda>t'. (EWait, t', Returning)) (Tau, t, Done RErrToggleClosed)"

definition Wait_return :: "toggle \<Rightarrow> move list" where
  "Wait_return t = chan_send t Tau id"

definition Set_begin :: "bool \<Rightarrow> toggle \<Rightarrow> move list" where
  "Set_begin state t =
     (if mu t then []
      else if state = tstate t then [(ESet state, t, Done RNil)]
      else [(Tau, sigChanWhenAlreadyLocked (t\<lparr>mu := True, tstate := state\<rparr>),
             if state then Sending else Receiving)])"

definition unlock :: "toggle \<Rightarrow> toggle" where
  "unlock t = t\<lparr>mu := False\<rparr>"

definition Set_send :: "toggle \<Rightarrow> move list" where
  "Set_send t = chan_send t (ESet True) unlock"

definition Set_recv :: "toggle \<Rightarrow> move list" where
  "Set_recv t = chan_recv t (\<lambda>t'. (ESet False, unlock t', Done RNil)) (ESet False, unlock t, Done RNil)"

definition Close_begin :: "toggle \<Rightarrow> move list" where
  "Close_begin t = (case sigChan t of None \<Rightarrow> [] | Some t' \<Rightarrow> [(Tau, t', Closing)])"

definition Close_chan :: "toggle \<Rightarrow> move list" where
  "Close_chan t =
     (case signal t of
        None \<Rightarrow> []
      | Some c \<Rightarrow>
          if chan_closed c then [(Tau, t, Done RPanic)]
          else [(EClose, t\<lparr>signal := Some (c\<lparr>chan_closed := True\<rparr>)\<rparr>, Done RNil)])"

definition State_call :: "toggle \<Rightarrow> move list" where
  "State_call t = (if mu t then [] else [(EState (tstate t), t, Done (RState (tstate t)))])"

text \<open>The moves a goroutine can make; none when it is blocked or at rest.\<close>

fun moves :: "toggle \<Rightarrow> pc \<Rightarrow> move list" where
  "moves t (Begin (CWait ctx)) = Wait_begin ctx t"
| "moves t (Begin (CSet b)) = Set_begin b t"
| "moves t (Begin CClose) = Close_begin t"
| "moves t (Begin CState) = State_call t"
| "moves t (InSelect ctx) = Wait_select ctx t"
| "moves t Returning = Wait_return t"
| "moves t Sending = Set_send t"
| "moves t Receiving = Set_recv t"
| "moves t Closing = Close_chan t"
| "moves t Idle = []"
| "moves t (Done r) = []"

section \<open>Runs\<close>

type_synonym config = "toggle \<times> pc list"

text \<open>
  Any goroutine may move; a goroutine at rest may start any call; the context of a waiting
  goroutine may be cancelled.
\<close>

inductive tstep :: "config \<Rightarrow> event \<Rightarrow> config \<Rightarrow> bool" where
  move: "i < length ps \<Longrightarrow> (e, t', p) \<in> set (moves t (ps ! i)) \<Longrightarrow>
    tstep (t, ps) e (t', ps[i := p])"
| start: "i < length ps \<Longrightarrow> ps ! i = Idle \<or> (\<exists>r. ps ! i = Done r \<and> r \<noteq> RPanic) \<Longrightarrow>
    tstep (t, ps) Tau (t, ps[i := Begin c])"
| cancel: "i < length ps \<Longrightarrow> ps ! i = InSelect False \<Longrightarrow> tstep (t, ps) Tau (t, ps[i := InSelect True])"

inductive_cases tstepE: "tstep s e s'"

definition tinit :: "config \<Rightarrow> bool" where
  "tinit s \<longleftrightarrow> fst s = zero_toggle \<and> set (snd s) \<subseteq> {Idle}"

definition any_step :: "config \<Rightarrow> config \<Rightarrow> bool" where
  "any_step s s' \<longleftrightarrow> (\<exists>e. tstep s e s')"

text \<open>A schedule, replayed: which goroutine starts which call, or takes which of its moves.\<close>

datatype action = Start nat call | Move nat nat | Cancel nat

fun perform :: "config \<Rightarrow> action \<Rightarrow> (event \<times> config) option" where
  "perform (t, ps) (Start i c) =
     (if i < length ps \<and> ps ! i = Idle then Some (Tau, t, ps[i := Begin c]) else None)"
| "perform (t, ps) (Move i k) =
     (if i < length ps \<and> k < length (moves t (ps ! i))
      then case moves t (ps ! i) ! k of (e, t', p) \<Rightarrow> Some (e, t', ps[i := p]) else None)"
| "perform (t, ps) (Cancel i) =
     (if i < length ps \<and> ps ! i = InSelect False then Some (Tau, t, ps[i := InSelect True]) else None)"

fun replay :: "config \<Rightarrow> action list \<Rightarrow> (event list \<times> config) option" where
  "replay s [] = Some ([], s)"
| "replay s (a # as) =
     Option.bind (perform s a) (\<lambda>(e, s'). Option.bind (replay s' as) (\<lambda>(es, s''). Some (e # es, s'')))"

lemma perform_step: "perform s a = Some (e, s') \<Longrightarrow> tstep s e s'"
proof (induction s a rule: perform.induct)
  case (2 t ps i k)
  then obtain t' p where k: "i < length ps" "k < length (moves t (ps ! i))"
    "moves t (ps ! i) ! k = (e, t', p)" "s' = (t', ps[i := p])"
    by (auto split: if_splits prod.splits)
  then have "(e, t', p) \<in> set (moves t (ps ! i))" by (metis nth_mem)
  then show ?case using k by (auto intro: move)
qed (auto split: if_splits intro: start cancel)

lemma run_Cons: "step s l t \<Longrightarrow> run step t ls u \<Longrightarrow> run step s (l # ls) u"
proof (rotate_tac, induction rule: run.induct)
  case (run_nil t)
  then show ?case using run.run_snoc [OF run.run_nil, of step s l t] by simp
next
  case (run_snoc t ls u m v)
  then show ?case using run.run_snoc [of step s "l # ls" u m v] by simp
qed

lemma replay_run: "replay s as = Some (es, s') \<Longrightarrow> run tstep s es s'"
proof (induction s as arbitrary: es rule: replay.induct)
  case (2 s a as)
  then show ?case
    by (auto simp: bind_eq_Some_conv intro: run_Cons perform_step)
qed (auto intro: run_nil)

section \<open>The invariant\<close>

definition closed :: "toggle \<Rightarrow> bool" where
  "closed t = (case signal t of None \<Rightarrow> False | Some c \<Rightarrow> chan_closed c)"

definition items :: "toggle \<Rightarrow> nat" where
  "items t = (case signal t of None \<Rightarrow> 0 | Some c \<Rightarrow> buf c)"

definition num :: "pc list \<Rightarrow> pc \<Rightarrow> nat" where
  "num ps p = count (mset ps) p"

definition needs_chan :: "pc \<Rightarrow> bool" where
  "needs_chan p \<longleftrightarrow> p \<in> {InSelect True, InSelect False, Returning, Sending, Receiving, Closing}"

text \<open>
  The item is in the buffer or in the hands of one waiter; while a \<open>Set\<close> is between its
  change of \<open>t.state\<close> and its channel operation, it owes the difference, and holds the mutex.
\<close>

definition tinv :: "config \<Rightarrow> bool" where
  "tinv s \<longleftrightarrow> (case s of (t, ps) \<Rightarrow>
     num ps Sending + num ps Receiving = of_bool (mu t) \<and>
     (0 < num ps Sending \<longrightarrow> tstate t) \<and> (0 < num ps Receiving \<longrightarrow> \<not> tstate t) \<and>
     items t + num ps Returning + num ps Sending = of_bool (tstate t) + num ps Receiving \<and>
     (signal t = None \<longrightarrow> (\<forall>p \<in> set ps. \<not> needs_chan p)) \<and>
     Done RPanic \<notin> set ps)"

text \<open>A run in which the toggle is still open keeps the invariant.\<close>

definition tinv_open :: "config \<Rightarrow> bool" where
  "tinv_open s \<longleftrightarrow> closed (fst s) \<or> tinv s"

lemma num_update:
  "i < length ps \<Longrightarrow> num (ps[i := p]) x = num ps x - of_bool (ps ! i = x) + of_bool (p = x)"
  by (simp add: num_def mset_update)

lemma num_pos: "i < length ps \<Longrightarrow> ps ! i = x \<Longrightarrow> 0 < num ps x"
  by (auto simp: num_def)

lemma num_zero: "x \<notin> set ps \<Longrightarrow> num ps x = 0"
  by (simp add: num_def count_eq_zero_iff)

lemmas move_defs =
  Wait_begin_def Wait_select_def Wait_return_def Set_begin_def Set_send_def Set_recv_def
  Close_begin_def Close_chan_def State_call_def chan_send_def chan_recv_def sigChan_def
  sigChanWhenAlreadyLocked_def unlock_def new_chan_def

lemma moves_closed: "(e, t', p) \<in> set (moves t p0) \<Longrightarrow> closed t \<Longrightarrow> closed t'"
  by (induction t p0 rule: moves.induct)
     (auto simp: move_defs closed_def split: option.splits if_splits)

lemma moves_signal: "(e, t', p) \<in> set (moves t p0) \<Longrightarrow> signal t \<noteq> None \<Longrightarrow> signal t' \<noteq> None"
  by (induction t p0 rule: moves.induct) (auto simp: move_defs split: option.splits if_splits)

lemma moves_needs_chan: "(e, t', p) \<in> set (moves t p0) \<Longrightarrow> needs_chan p \<Longrightarrow> signal t' \<noteq> None"
  by (induction t p0 rule: moves.induct)
     (auto simp: move_defs needs_chan_def split: option.splits if_splits)

lemma moves_no_panic: "(e, t', p) \<in> set (moves t p0) \<Longrightarrow> \<not> closed t \<Longrightarrow> p \<noteq> Done RPanic"
  by (induction t p0 rule: moves.induct)
     (auto simp: move_defs closed_def split: option.splits if_splits)

text \<open>The balance of items, for the move of one goroutine out of a given place.\<close>

lemma moves_balance:
  assumes "(e, t', p) \<in> set (moves t p0)" "\<not> closed t"
    and "nS + nR = of_bool (mu t)" "0 < nS \<Longrightarrow> tstate t" "0 < nR \<Longrightarrow> \<not> tstate t"
    and "items t + nW + nS = of_bool (tstate t) + nR"
    and "p0 = Sending \<Longrightarrow> 0 < nS" "p0 = Receiving \<Longrightarrow> 0 < nR" "p0 = Returning \<Longrightarrow> 0 < nW"
    and "nS' = nS - of_bool (p0 = Sending) + of_bool (p = Sending)"
    and "nR' = nR - of_bool (p0 = Receiving) + of_bool (p = Receiving)"
    and "nW' = nW - of_bool (p0 = Returning) + of_bool (p = Returning)"
  shows "nS' + nR' = of_bool (mu t') \<and> (0 < nS' \<longrightarrow> tstate t') \<and> (0 < nR' \<longrightarrow> \<not> tstate t') \<and>
         items t' + nW' + nS' = of_bool (tstate t') + nR'"
  using assms
  by (induction t p0 rule: moves.induct)
     (auto simp: move_defs closed_def items_def of_bool_def split: option.splits if_splits)

lemma tinv_move:
  assumes i: "i < length ps" and m: "(e, t', p) \<in> set (moves t (ps ! i))"
    and inv: "tinv (t, ps)" and o: "\<not> closed t"
  shows "tinv (t', ps[i := p])"
proof -
  let ?n = "\<lambda>x. num ps x" and ?n' = "\<lambda>x. num (ps[i := p]) x"
  have "?n' Sending + ?n' Receiving = of_bool (mu t') \<and> (0 < ?n' Sending \<longrightarrow> tstate t') \<and>
      (0 < ?n' Receiving \<longrightarrow> \<not> tstate t') \<and>
      items t' + ?n' Returning + ?n' Sending = of_bool (tstate t') + ?n' Receiving"
    using inv i
    by (intro moves_balance [OF m o, of "?n Sending" "?n Receiving" "?n Returning"])
       (auto simp: tinv_def num_update num_pos)
  moreover have "\<not> needs_chan x" if "signal t' = None" "x \<in> set (ps[i := p])" for x
  proof -
    have "signal t = None" using moves_signal [OF m] that(1) by blast
    moreover have "\<not> needs_chan p" using moves_needs_chan [OF m] that(1) by blast
    ultimately show ?thesis
      using inv that(2) set_update_subset_insert [of ps i p] by (auto simp: tinv_def)
  qed
  moreover have "Done RPanic \<notin> set (ps[i := p])"
    using inv moves_no_panic [OF m o] set_update_subset_insert [of ps i p] by (auto simp: tinv_def)
  ultimately show ?thesis by (auto simp: tinv_def)
qed

text \<open>Starting a call and cancelling a context do not touch the shared state.\<close>

lemma tinv_local:
  assumes i: "i < length ps" and inv: "tinv (t, ps)"
    and old: "\<not> needs_chan (ps ! i) \<or> ps ! i = InSelect False"
    and new: "(needs_chan p \<longrightarrow> ps ! i = InSelect False) \<and> p \<notin> {Sending, Receiving, Returning, Done RPanic}"
  shows "tinv (t, ps[i := p])"
proof -
  have "num (ps[i := p]) x = num ps x" if "x \<in> {Sending, Receiving, Returning}" for x
    using that old new i by (auto simp: num_update needs_chan_def)
  moreover have "\<not> needs_chan x" if "signal t = None" "x \<in> set (ps[i := p])" for x
  proof -
    have none: "\<forall>y \<in> set ps. \<not> needs_chan y" using inv that(1) by (simp add: tinv_def)
    then have "ps ! i \<noteq> InSelect False" using i by (force simp: needs_chan_def)
    then show ?thesis
      using none new that(2) set_update_subset_insert [of ps i p] by auto
  qed
  moreover have "Done RPanic \<notin> set (ps[i := p])"
    using inv new set_update_subset_insert [of ps i p] by (auto simp: tinv_def)
  ultimately show ?thesis using inv by (simp add: tinv_def)
qed

lemma tinv_step:
  assumes "tstep s e s'" "tinv_open s"
  shows "tinv_open s'"
  using assms
proof (induction rule: tstep.induct)
  case (move i ps e t' p t)
  then show ?case
    using moves_closed [OF move(2)] tinv_move [OF move(1,2)] by (auto simp: tinv_open_def)
next
  case (start i ps t c)
  then show ?case
    using tinv_local [OF start(1), of t "Begin c"] by (auto simp: tinv_open_def needs_chan_def)
next
  case (cancel i ps t)
  then show ?case
    using tinv_local [OF cancel(1), of t "InSelect True"] by (auto simp: tinv_open_def)
qed

lemma tinv_init: "tinit s \<Longrightarrow> tinv_open s"
proof -
  assume init: "tinit s"
  then have "num (snd s) x = 0" if "x \<noteq> Idle" for x
    using that by (intro num_zero) (auto simp: tinit_def)
  then show ?thesis
    using init by (cases s) (auto simp: tinit_def tinv_open_def tinv_def zero_toggle_def items_def needs_chan_def)
qed

interpretation tg: invariant_system tinit any_step tinv_open
  by unfold_locales (auto simp: any_step_def intro: tinv_init tinv_step)

section \<open>Refinement of a boolean flag\<close>

text \<open>
  What a toggle promises: one boolean; \<open>Set\<close> writes it, \<open>Wait\<close> succeeds only while it is
  true, \<open>State\<close> reads it. A specification of closing is left out: \<open>EClose\<close> is no event
  of an open toggle.
\<close>

fun flag_step :: "bool \<Rightarrow> event \<Rightarrow> bool option" where
  "flag_step a Tau = Some a"
| "flag_step a (ESet b) = Some b"
| "flag_step a EWait = (if a then Some a else None)"
| "flag_step a (EState b) = (if b = a then Some a else None)"
| "flag_step a EClose = None"

definition tabs :: "config \<Rightarrow> bool" where
  "tabs s \<longleftrightarrow> 0 < items (fst s) + num (snd s) Returning"

definition open_step :: "config \<Rightarrow> event \<Rightarrow> config \<Rightarrow> bool" where
  "open_step s e s' \<longleftrightarrow> tstep s e s' \<and> \<not> closed (fst s')"

definition tinv_strict :: "config \<Rightarrow> bool" where
  "tinv_strict s \<longleftrightarrow> \<not> closed (fst s) \<and> tinv s"

lemma moves_flag:
  assumes "(e, t', p) \<in> set (moves t p0)" "\<not> closed t'"
    and "nS + nR = of_bool (mu t)" "0 < nS \<Longrightarrow> tstate t" "0 < nR \<Longrightarrow> \<not> tstate t"
    and "items t + nW + nS = of_bool (tstate t) + nR"
    and "p0 = Sending \<Longrightarrow> 0 < nS" "p0 = Receiving \<Longrightarrow> 0 < nR" "p0 = Returning \<Longrightarrow> 0 < nW"
    and "nW' = nW - of_bool (p0 = Returning) + of_bool (p = Returning)"
  shows "flag_step (0 < items t + nW) e = Some (0 < items t' + nW')"
  using assms
  by (induction t p0 rule: moves.induct)
     (auto simp: move_defs closed_def items_def of_bool_def split: option.splits if_splits)

lemma tinv_strict_step: "open_step s e s' \<Longrightarrow> tinv_strict s \<Longrightarrow> tinv_strict s'"
  using tinv_step [of s e s'] by (auto simp: open_step_def tinv_strict_def tinv_open_def)

lemma flag_simulates:
  assumes "open_step s e s'" "tinv_strict s"
  shows "flag_step (tabs s) e = Some (tabs s')"
proof -
  have st: "tstep s e s'" and o: "\<not> closed (fst s')" and inv: "tinv s"
    using assms by (simp_all add: open_step_def tinv_strict_def)
  from st show ?thesis
  proof (cases rule: tstep.cases)
    case (move i ps t' p t)
    have "flag_step (0 < items t + num ps Returning) e = Some (0 < items t' + num (ps[i := p]) Returning)"
      using o inv move
      by (intro moves_flag [OF move(4), where nS = "num ps Sending" and nR = "num ps Receiving"])
         (auto simp: tinv_def num_update num_pos)
    then show ?thesis using move by (simp add: tabs_def)
  next
    case (start i ps t c)
    then show ?thesis by (auto simp: tabs_def num_update)
  next
    case (cancel i ps t)
    then show ?thesis by (auto simp: tabs_def num_update)
  qed
qed

interpretation tf: refinement tinit open_step tinv_strict tabs False flag_step
proof
  show "tinit s \<Longrightarrow> tinv_strict s" for s
    using tinv_init [of s]
    by (auto simp: tinv_strict_def tinv_open_def tinit_def zero_toggle_def closed_def)
  show "tabs s = False" if "tinit s" for s
  proof -
    have "num (snd s) Returning = 0" using that by (intro num_zero) (auto simp: tinit_def)
    then show ?thesis using that by (simp add: tabs_def tinit_def zero_toggle_def items_def)
  qed
qed (auto intro: tinv_strict_step flag_simulates)

lemma run_open:
  "run tstep s es s' \<Longrightarrow> \<not> closed (fst s') \<Longrightarrow> run open_step s es s'"
proof (induction rule: run.induct)
  case (run_snoc s es t e u)
  have "\<not> closed (fst t)"
    using run_snoc.hyps(2) run_snoc.prems moves_closed by (force elim: tstep.cases)
  then show ?case
    using run_snoc by (auto simp: open_step_def intro: run.run_snoc)
qed (rule run_nil)

lemma run_reachable: "run tstep s es s' \<Longrightarrow> tinit s \<Longrightarrow> reachable tinit any_step s'"
proof (induction rule: run.induct)
  case (run_snoc s es t e u)
  then have "any_step t u" by (auto simp: any_step_def)
  then show ?case using run_snoc reachable_step by metis
qed (rule reachable_init)

lemma replay_reachable: "replay s as = Some (es, s') \<Longrightarrow> tinit s \<Longrightarrow> reachable tinit any_step s'"
  using replay_run run_reachable by blast

text \<open>A waiter completes once the item is in the buffer.\<close>

lemma wait_completes:
  assumes i: "i < length ps" "ps ! i = InSelect ctx" and c: "items t = 1" "\<not> closed t"
  shows "\<exists>t' ps'. any_step\<^sup>*\<^sup>* (t, ps) (t', ps') \<and> ps' ! i = Done RNil"
proof -
  obtain ch where ch: "signal t = Some ch" "buf ch = 1" "\<not> chan_closed ch"
    using c by (auto simp: items_def closed_def split: option.splits)
  let ?t1 = "t\<lparr>signal := Some (ch\<lparr>buf := 0\<rparr>)\<rparr>"
  have "tstep (t, ps) EWait (?t1, ps[i := Returning])"
    using i ch by (intro move) (simp_all add: move_defs)
  moreover have "tstep (?t1, ps[i := Returning]) Tau (t, ps[i := Returning, i := Done RNil])"
    using i ch by (intro move) (simp_all add: move_defs)
  ultimately have "any_step\<^sup>*\<^sup>* (t, ps) (t, ps[i := Returning, i := Done RNil])"
    by (metis any_step_def r_into_rtranclp rtranclp.rtrancl_into_rtrancl)
  then show ?thesis using i by (intro exI conjI) auto
qed

text \<open>The goroutine that owes the item to the buffer can put it there.\<close>

lemma give_back:
  assumes j: "j < length ps" "ps ! j = Sending \<or> ps ! j = Returning"
    and c: "items t = 0" "signal t \<noteq> None" "\<not> closed t"
  shows "\<exists>t'. any_step (t, ps) (t', ps[j := Done RNil]) \<and> items t' = 1 \<and> \<not> closed t'"
proof -
  obtain ch where ch: "signal t = Some ch" "buf ch = 0" "\<not> chan_closed ch"
    using c by (auto simp: items_def closed_def split: option.splits)
  let ?t1 = "t\<lparr>signal := Some (ch\<lparr>buf := 1\<rparr>)\<rparr>"
  have "tstep (t, ps) (if ps ! j = Sending then ESet True else Tau)
      (if ps ! j = Sending then unlock ?t1 else ?t1, ps[j := Done RNil])"
    using j ch by (intro move) (auto simp: move_defs)
  moreover have "items (unlock ?t1) = 1" "items ?t1 = 1" "\<not> closed (unlock ?t1)" "\<not> closed ?t1"
    using ch by (simp_all add: items_def closed_def unlock_def)
  ultimately show ?thesis
    by (intro exI [of _ "if ps ! j = Sending then unlock ?t1 else ?t1"])
       (auto simp: any_step_def simp del: One_nat_def)
qed

section \<open>A call on its own\<close>

text \<open>
  What other packages use of a toggle: a call that runs with no other call under way. The
  moves of one goroutine are taken until it rests or blocks; no call has more than three.
\<close>

fun run_alone :: "nat \<Rightarrow> toggle \<Rightarrow> pc \<Rightarrow> toggle \<times> pc" where
  "run_alone 0 t p = (t, p)"
| "run_alone (Suc n) t p = (case moves t p of [] \<Rightarrow> (t, p) | (e, t', p') # _ \<Rightarrow> run_alone n t' p')"

definition call_alone :: "toggle \<Rightarrow> call \<Rightarrow> toggle \<times> pc" where
  "call_alone t c = run_alone 3 t (Begin c)"

definition settled :: "toggle \<Rightarrow> bool" where
  "settled t \<longleftrightarrow> \<not> mu t \<and> items t = of_bool (tstate t)"

definition quiet :: "toggle \<Rightarrow> bool" where
  "quiet t \<longleftrightarrow> settled t \<and> \<not> closed t"

text \<open>The interface: a condition that is set, and that a \<open>Wait\<close> finds true or not.\<close>

locale condition =
  fixes assign :: "bool \<Rightarrow> 't \<Rightarrow> 't"
    and ready :: "'t \<Rightarrow> bool"
    and valid :: "'t \<Rightarrow> bool"
  assumes valid_assign: "valid t \<Longrightarrow> valid (assign b t)"
    and ready_assign: "valid t \<Longrightarrow> ready (assign b t) = b"
begin

lemma valid_fold: "valid t \<Longrightarrow> valid (fold assign bs t)"
  by (induction bs arbitrary: t) (simp_all add: valid_assign)

lemma ready_fold: "valid t \<Longrightarrow> ready (fold assign (bs @ [b]) t) = b"
  by (simp add: ready_assign valid_fold)

end

lemma call_alone_Set:
  assumes "quiet t"
  shows "snd (call_alone t (CSet b)) = Done RNil \<and> quiet (fst (call_alone t (CSet b))) \<and>
         tstate (fst (call_alone t (CSet b))) = b"
  using assms
  by (auto simp: call_alone_def numeral_3_eq_3 quiet_def settled_def move_defs items_def closed_def
      split: option.splits)

text \<open>A \<open>Set\<close> on a closed toggle may panic; when it returns, it has had its effect.\<close>

lemma call_alone_Set_Ret:
  "settled t \<Longrightarrow> call_alone t (CSet b) = (t', Done RNil) \<Longrightarrow> settled t' \<and> tstate t' = b \<and> closed t' = closed t"
  by (auto simp: call_alone_def numeral_3_eq_3 settled_def move_defs items_def closed_def
      split: option.splits if_splits)

lemma call_alone_Set_closed:
  "settled t \<Longrightarrow> closed t \<Longrightarrow> \<not> tstate t \<Longrightarrow> snd (call_alone t (CSet True)) = Done RPanic"
  by (auto simp: call_alone_def numeral_3_eq_3 settled_def move_defs items_def closed_def
      split: option.splits if_splits)

lemma call_alone_Close:
  "settled t \<Longrightarrow> call_alone t CClose = (t', Done RNil) \<Longrightarrow> settled t' \<and> tstate t' = tstate t \<and> closed t'"
  by (auto simp: call_alone_def numeral_3_eq_3 settled_def move_defs items_def closed_def
      split: option.splits if_splits)

definition Set_quiet :: "bool \<Rightarrow> toggle \<Rightarrow> toggle" where
  "Set_quiet b t = fst (call_alone t (CSet b))"

definition wait_ready :: "toggle \<Rightarrow> bool" where
  "wait_ready t \<longleftrightarrow> snd (call_alone t (CWait False)) = Done RNil"

lemma wait_ready_quiet: "quiet t \<Longrightarrow> wait_ready t = tstate t"
  by (auto simp: wait_ready_def call_alone_def numeral_3_eq_3 quiet_def settled_def move_defs items_def closed_def
      split: option.splits)

interpretation tc: condition Set_quiet wait_ready quiet
proof
  fix t :: toggle and b
  assume q: "quiet t"
  then show "quiet (Set_quiet b t)" "wait_ready (Set_quiet b t) = b"
    using call_alone_Set [OF q, of b] by (simp_all add: wait_ready_quiet Set_quiet_def settled_def)
qed

lemma quiet_zero_toggle [simp]: "quiet zero_toggle"
  by (simp add: quiet_def settled_def zero_toggle_def items_def closed_def)

section \<open>Properties\<close>

text \<open>
  C2. The toggle is linearizable: in every interleaving of any number of goroutines calling
  \<open>Set\<close>, \<open>Wait\<close> and \<open>State\<close> on an open toggle, the sequence of events (the channel operation
  of \<open>Set\<close>, the receive of a successful \<open>Wait\<close>, the read of \<open>State\<close>) is one of a plain
  boolean variable: a \<open>Wait\<close> succeeds only while the last \<open>Set\<close> was true, and \<open>State\<close>
  returns the last value set.
\<close>

theorem toggle_linearizable:
  assumes "tinit s" and "run open_step s es s'"
  shows "spec_run flag_step False es = Some (tabs s')"
  using tf.trace_refines [OF assms] .

theorem toggle_linearizable_witness:
  "\<exists>s'. run open_step (zero_toggle, [Idle, Idle])
          [Tau, Tau, Tau, Tau, ESet True, EWait, Tau, Tau, EState True] s' \<and>
        spec_run flag_step False [Tau, Tau, Tau, Tau, ESet True, EWait, Tau, Tau, EState True] =
          Some (tabs s')"
proof -
  let ?s = "(zero_toggle, [Idle, Idle])"
  let ?as = "[Start 0 (CWait False), Move 0 0, Start 1 (CSet True), Move 1 0, Move 1 0, Move 0 0, Move 0 0]"
  let ?es = "[Tau, Tau, Tau, Tau, ESet True, EWait, Tau]"
  let ?s' = "(\<lparr>mu = False, tstate = True, signal = Some \<lparr>buf = 1, chan_closed = False\<rparr>\<rparr>, [Done RNil, Done RNil])"
  have "replay ?s ?as = Some (?es, ?s')" by code_simp
  then have "run tstep ?s ?es ?s'" by (rule replay_run)
  moreover have "tstep ?s' Tau (fst ?s', [Begin CState, Done RNil])"
    using start [of 0 "[Done RNil, Done RNil]" "fst ?s'" CState] by simp
  moreover have "tstep (fst ?s', [Begin CState, Done RNil]) (EState True) (fst ?s', [Done (RState True), Done RNil])"
    using move [of 0 "[Begin CState, Done RNil]" "EState True" "fst ?s'" "Done (RState True)" "fst ?s'"]
    by (simp add: move_defs)
  ultimately have "run tstep ?s ((?es @ [Tau]) @ [EState True]) (fst ?s', [Done (RState True), Done RNil])"
    by (blast intro: run_snoc)
  then have r: "run open_step ?s [Tau, Tau, Tau, Tau, ESet True, EWait, Tau, Tau, EState True]
      (fst ?s', [Done (RState True), Done RNil])"
    using run_open by (simp add: closed_def)
  moreover have "tinit ?s" by (simp add: tinit_def)
  ultimately show ?thesis using toggle_linearizable by blast
qed

text \<open>
  While the toggle is open, nothing goes wrong: no goroutine panics, at most one item
  exists, and neither \<open>Set(true)\<close> nor a waiter that gives its item back ever blocks on the
  full buffer.
\<close>

theorem toggle_open_safe:
  assumes "reachable tinit any_step (t, ps)" and "\<not> closed t"
  shows "Done RPanic \<notin> set ps \<and> items t + num ps Returning \<le> 1 \<and>
         (Sending \<in> set ps \<longrightarrow> moves t Sending \<noteq> []) \<and>
         (Returning \<in> set ps \<longrightarrow> moves t Returning \<noteq> [])"
proof -
  have inv: "tinv (t, ps)" using tg.reachable_inv [OF assms(1)] assms(2) by (simp add: tinv_open_def)
  have bal: "items t + num ps Returning + num ps Sending = of_bool (tstate t) + num ps Receiving"
    "num ps Sending + num ps Receiving \<le> 1" "0 < num ps Receiving \<Longrightarrow> \<not> tstate t"
    using inv by (auto simp: tinv_def)
  then have one: "items t + num ps Returning + num ps Sending \<le> 1"
    by (cases "tstate t") auto
  have "moves t p \<noteq> []" if "p \<in> set ps" "p = Sending \<or> p = Returning" for p
  proof -
    have "0 < num ps p" using that(1) by (simp add: num_def)
    then have "items t = 0" using one that(2) by auto
    moreover have "signal t \<noteq> None" using inv that by (auto simp: tinv_def needs_chan_def)
    ultimately show ?thesis
      using that(2) by (auto simp: move_defs items_def split: if_splits)
  qed
  moreover have "Done RPanic \<notin> set ps" using inv by (simp add: tinv_def)
  ultimately show ?thesis using one by (metis add_leD1)
qed

text \<open>A state in which one goroutine waits while another is inside \<open>Set(true)\<close>.\<close>

definition waiting_config :: config where
  "waiting_config =
     (\<lparr>mu = True, tstate = True, signal = Some \<lparr>buf = 0, chan_closed = False\<rparr>\<rparr>, [InSelect False, Sending])"

lemma waiting_config_reachable: "reachable tinit any_step waiting_config"
proof (rule replay_reachable)
  show "replay (zero_toggle, [Idle, Idle])
      [Start 0 (CWait False), Move 0 0, Start 1 (CSet True), Move 1 0] =
      Some ([Tau, Tau, Tau, Tau], waiting_config)"
    by code_simp
qed (simp add: tinit_def)

theorem toggle_open_safe_witness:
  "Done RPanic \<notin> set (snd waiting_config) \<and> moves (fst waiting_config) Sending \<noteq> []"
  using toggle_open_safe [of "fst waiting_config" "snd waiting_config"] waiting_config_reachable
  by (simp add: waiting_config_def closed_def)

text \<open>
  \<open>Set(true)\<close> wakes the waiters: from every reachable state of an open toggle whose state
  is true, each goroutine in \<open>Wait\<close> can be brought to a successful return by moves of
  goroutines already under way; in particular no schedule of the past has lost the item.
\<close>

theorem toggle_wakes:
  assumes "reachable tinit any_step (t, ps)" and "\<not> closed t" and "tstate t"
    and i: "i < length ps" "ps ! i = InSelect ctx"
  shows "\<exists>t' ps'. any_step\<^sup>*\<^sup>* (t, ps) (t', ps') \<and> ps' ! i = Done RNil"
proof -
  have inv: "tinv (t, ps)" using tg.reachable_inv [OF assms(1)] assms(2) by (simp add: tinv_open_def)
  then have bal: "items t + num ps Returning + num ps Sending = 1"
    using assms(3) by (simp add: tinv_def)
  have chan: "signal t \<noteq> None"
    using inv i nth_mem [OF i(1)] by (cases ctx) (auto simp: tinv_def needs_chan_def)
  show ?thesis
  proof (cases "items t = 0")
    case False
    then show ?thesis using bal wait_completes [OF i _ assms(2)] by simp
  next
    case True
    then have "0 < num ps Returning \<or> 0 < num ps Sending" using bal by auto
    then have "Sending \<in> set ps \<or> Returning \<in> set ps" by (auto simp: num_def)
    then obtain j where j: "j < length ps" "ps ! j = Sending \<or> ps ! j = Returning"
      by (metis in_set_conv_nth)
    obtain t' where t': "any_step (t, ps) (t', ps[j := Done RNil])" "items t' = 1" "\<not> closed t'"
      using give_back [OF j True chan assms(2)] by blast
    have "ps[j := Done RNil] ! i = InSelect ctx" using i j by (auto simp: nth_list_update)
    then obtain t'' ps'' where "any_step\<^sup>*\<^sup>* (t', ps[j := Done RNil]) (t'', ps'')" "ps'' ! i = Done RNil"
      using wait_completes [OF _ _ t'(2,3)] i(1) by (metis length_list_update)
    then show ?thesis using t'(1) converse_rtranclp_into_rtranclp by metis
  qed
qed

theorem toggle_wakes_witness:
  "\<exists>t' ps'. any_step\<^sup>*\<^sup>* waiting_config (t', ps') \<and> ps' ! 0 = Done RNil"
  using toggle_wakes [of "fst waiting_config" "snd waiting_config" 0 False] waiting_config_reachable
  by (simp add: waiting_config_def closed_def)

text \<open>
  Closing, against its documentation ("all waiters return \<open>ErrToggleClosed\<close>"): when no
  other call is under way, a waiter after \<open>Close\<close> returns \<open>ErrToggleClosed\<close> if the toggle was
  off; if the toggle was on, the waiter takes the buffered item and its only next move
  is the panic of a send on a closed channel.
\<close>

theorem Close_then_Wait:
  assumes "reachable tinit any_step (t, ps)" and "\<not> closed t" and "\<not> mu t"
    and "Returning \<notin> set ps" and "Closing \<in> set ps"
    and "(EClose, t', Done RNil) \<in> set (moves t Closing)"
  shows "if tstate t
         then \<exists>t''. moves t' (InSelect False) = [(EWait, t'', Returning)] \<and>
                    moves t'' Returning = [(Tau, t'', Done RPanic)]
         else moves t' (InSelect False) = [(Tau, t', Done RErrToggleClosed)]"
proof -
  have inv: "tinv (t, ps)" using tg.reachable_inv [OF assms(1)] assms(2) by (simp add: tinv_open_def)
  then have "items t = of_bool (tstate t)"
    using assms(3,4) num_zero [of Returning ps] by (simp add: tinv_def)
  moreover obtain c where c: "signal t = Some c" "\<not> chan_closed c"
    "t' = t\<lparr>signal := Some (c\<lparr>chan_closed := True\<rparr>)\<rparr>"
    using assms(2,6) by (auto simp: move_defs closed_def split: option.splits)
  ultimately show ?thesis by (simp add: items_def move_defs)
qed

theorem Close_then_Wait_witness:
  "\<exists>t t' t''. reachable tinit any_step (t, [Done RNil, Closing]) \<and>
     (EClose, t', Done RNil) \<in> set (moves t Closing) \<and>
     moves t' (InSelect False) = [(EWait, t'', Returning)] \<and>
     moves t'' Returning = [(Tau, t'', Done RPanic)]"
proof -
  let ?t = "\<lparr>mu = False, tstate = True, signal = Some \<lparr>buf = 1, chan_closed = False\<rparr>\<rparr>"
  let ?t' = "\<lparr>mu = False, tstate = True, signal = Some \<lparr>buf = 1, chan_closed = True\<rparr>\<rparr>"
  have "replay (zero_toggle, [Idle, Idle])
      [Start 0 (CSet True), Move 0 0, Move 0 0, Start 1 CClose, Move 1 0] =
      Some ([Tau, Tau, ESet True, Tau, Tau], ?t, [Done RNil, Closing])"
    by code_simp
  then have r: "reachable tinit any_step (?t, [Done RNil, Closing])"
    by (rule replay_reachable) (simp add: tinit_def)
  moreover have c: "(EClose, ?t', Done RNil) \<in> set (moves ?t Closing)" by (simp add: move_defs)
  ultimately show ?thesis
    using Close_then_Wait [OF r _ _ _ _ c] by (simp add: closed_def) blast
qed

end
