(* ===== verification/UsbWallet.thy ===== *)
theory UsbWallet
  imports Toggle "HOL-Library.AList"
begin

text \<open>
  The manager of hardware wallets (\<open>go/usbwallet\<close>): the event loop that keeps the table of
  connected devices and the toggle that callers wait on, and the derivation of accounts
  and signers from the table. The devices, the hub and go-ethereum's derivation are
  outside the repository: a call on a device is a field of the record \<open>device_api\<close>, which
  every step takes as an argument, so its answers may change from step to step. The code
  shares \<open>*walletAndStatus\<close> pointers between the table and the signers it hands out: they are
  indices into a store.
\<close>

section \<open>State\<close>

type_synonym url = string
type_synonym address = bytes
type_synonym path = "u32 list"
type_synonym tx = bytes

datatype wallet_type = UnknownWalletType | Ledger

text \<open>
  What the loop relies on of a device: \<open>Open\<close> and \<open>Close\<close> return an error or not, \<open>Status\<close> and
  \<open>Derive\<close> a value or an error, \<open>SignTx\<close> a signed transaction or an error.
\<close>

record 'w device_api =
  dev_URL :: "'w \<Rightarrow> url"
  dev_Open :: "'w \<Rightarrow> string option"
  dev_Status :: "'w \<Rightarrow> string + string"
  dev_Close :: "'w \<Rightarrow> string option"
  dev_Derive :: "'w \<Rightarrow> path \<Rightarrow> string + address"
  dev_SignTx :: "'w \<Rightarrow> address \<Rightarrow> tx \<Rightarrow> int \<Rightarrow> string + tx"

record 'w walletAndStatus =
  device :: 'w
  wurl :: url
  deviceOpen :: bool
  appOpen :: bool

definition is_open :: "'w walletAndStatus \<Rightarrow> bool" where
  "is_open w \<longleftrightarrow> deviceOpen w \<and> appOpen w"

datatype wallet_error =
    ErrQuit
  | SubErrClosed
  | SubErr string
  | EventsClosed
  | OpenError url string
  | StatusError string
  | UnrecognisedStatus string url
  | CloseError url string
  | UnrecognisedKind int
  | ErrNoWalletsOpen
  | ErrAmbiguousDerivation
  | DeriveError string
  | NoAccount u32 address
  | WrongAccount address address
  | ClosedSincePinned address
  | SignError string

record 'w wallet =
  basePath :: path
  wtyp :: wallet_type
  store :: "'w walletAndStatus list"
  wallets :: "(url \<times> nat) list"
  wallets_closed :: bool
  available :: toggle
  errs :: "wallet_error list"
  quit :: bool
  listening :: bool

definition errChanBuffer :: nat where
  "errChanBuffer = 16"

definition construct :: "wallet_type \<Rightarrow> path \<Rightarrow> 'w wallet" where
  "construct t p =
     \<lparr>basePath = p, wtyp = t, store = [], wallets = [], wallets_closed = False,
      available = zero_toggle, errs = [], quit = False, listening = True\<rparr>"

text \<open>A wallet on a hub of go-ethereum, and one on a hub of Ledger devices; the default path is go-ethereum's.\<close>

definition New_wallet :: "wallet_type \<Rightarrow> path \<Rightarrow> 'w wallet" where
  "New_wallet t p = construct t p"

definition NewLedger :: "string option \<Rightarrow> path \<Rightarrow> (string, 'w wallet) outcome" where
  "NewLedger hubErr DefaultBaseDerivationPath =
     (case hubErr of Some e \<Rightarrow> Fail e | None \<Rightarrow> Ret (New_wallet Ledger DefaultBaseDerivationPath))"

section \<open>The event loop\<close>

text \<open>
  \<open>ledgerAppOnlineRE\<close> is \<open>^Ethereum app v\d+\.\d+\.\d+ online$\<close>. The class \<open>\d\<close> is
  0-9; each group of digits is followed by a character that is no digit, so taking all of
  them is the only way to match.
\<close>

fun strip_prefix :: "'a list \<Rightarrow> 'a list \<Rightarrow> 'a list option" where
  "strip_prefix [] s = Some s"
| "strip_prefix (p # ps) [] = None"
| "strip_prefix (p # ps) (c # cs) = (if p = c then strip_prefix ps cs else None)"

definition is_digit :: "char \<Rightarrow> bool" where
  "is_digit c \<longleftrightarrow> 48 \<le> (of_char c :: nat) \<and> (of_char c :: nat) \<le> 57"

definition strip_digits :: "string \<Rightarrow> string option" where
  "strip_digits s = (if takeWhile is_digit s = [] then None else Some (dropWhile is_digit s))"

definition ledgerAppOnline :: "string \<Rightarrow> bool" where
  "ledgerAppOnline s =
     (Option.bind (strip_prefix ''Ethereum app v'' s) (\<lambda>s.
      Option.bind (strip_digits s) (\<lambda>s.
      Option.bind (strip_prefix ''.'' s) (\<lambda>s.
      Option.bind (strip_digits s) (\<lambda>s.
      Option.bind (strip_prefix ''.'' s) (\<lambda>s.
      Option.bind (strip_digits s) (strip_prefix '' online'')))))) = Some [])"

datatype event_kind = WalletArrived | WalletOpened | WalletDropped | OtherKind int

text \<open>
  What the \<open>select\<close> of one iteration receives; \<open>QuitWhileEvent\<close> is an event that was received
  while \<open>w.quit\<close> closed before the table was obtained.
\<close>

datatype 'w loop_input =
    QuitClosed
  | SubError "string option"
  | ChanClosed
  | Event event_kind 'w
  | QuitWhileEvent

definition any_open :: "'w wallet \<Rightarrow> bool" where
  "any_open w = list_ex (\<lambda>(u, r). is_open (store w ! r)) (wallets w)"

text \<open>The deferred function: the table goes back, and the toggle follows it.\<close>

definition finish_event ::
  "wallet_error option \<Rightarrow> 'w wallet \<Rightarrow> (wallet_error, wallet_error option \<times> 'w wallet) outcome" where
  "finish_event err w =
     (if wallets_closed w then Panic
      else case call_alone (available w) (CSet (any_open w)) of
             (t, Done RNil) \<Rightarrow> Ret (err, w\<lparr>available := t\<rparr>)
           | _ \<Rightarrow> Panic)"

text \<open>\<open>wallets[url] = &walletAndStatus{...}\<close>: a fresh struct, with both flags false.\<close>

definition add_wallet :: "url \<Rightarrow> 'w \<Rightarrow> 'w wallet \<Rightarrow> 'w wallet" where
  "add_wallet u d w =
     w\<lparr>store := store w @ [\<lparr>device = d, wurl = u, deviceOpen = False, appOpen = False\<rparr>],
       wallets := AList.update u (length (store w)) (wallets w)\<rparr>"

definition set_deviceOpen :: "nat \<Rightarrow> 'w wallet \<Rightarrow> 'w wallet" where
  "set_deviceOpen r w = w\<lparr>store := (store w)[r := (store w ! r)\<lparr>deviceOpen := True\<rparr>]\<rparr>"

definition set_appOpen :: "nat \<Rightarrow> 'w wallet \<Rightarrow> 'w wallet" where
  "set_appOpen r w = w\<lparr>store := (store w)[r := (store w ! r)\<lparr>appOpen := True\<rparr>]\<rparr>"

definition arrived ::
  "'w device_api \<Rightarrow> 'w \<Rightarrow> 'w wallet \<Rightarrow> wallet_error option \<times> 'w wallet" where
  "arrived api d w =
     (let u = dev_URL api d; w' = add_wallet u d w in
      case dev_Open api d of Some e \<Rightarrow> (Some (OpenError u e), w') | None \<Rightarrow> (None, w'))"

definition opened ::
  "'w device_api \<Rightarrow> 'w \<Rightarrow> 'w wallet \<Rightarrow> wallet_error option \<times> 'w wallet" where
  "opened api d w =
     (let u = dev_URL api d;
          w1 = (if map_of (wallets w) u = None then add_wallet u d w else w);
          r = the (map_of (wallets w1) u);
          w2 = set_deviceOpen r w1
      in case dev_Status api d of
           Inl e \<Rightarrow> (Some (StatusError e), w2)
         | Inr status \<Rightarrow>
             if status = ''Ethereum app offline'' then (None, w2)
             else if ledgerAppOnline status then (None, set_appOpen r w2)
             else (Some (UnrecognisedStatus status u), w2))"

definition dropped ::
  "'w device_api \<Rightarrow> 'w \<Rightarrow> 'w wallet \<Rightarrow> wallet_error option \<times> 'w wallet" where
  "dropped api d w =
     (let u = dev_URL api d in
      case map_of (wallets w) u of
        None \<Rightarrow> (None, w)
      | Some r \<Rightarrow>
          (case dev_Close api (device (store w ! r)) of
             Some e \<Rightarrow> (Some (CloseError u e), w)
           | None \<Rightarrow> (None, w\<lparr>wallets := AList.delete u (wallets w)\<rparr>)))"

definition handle_event ::
  "'w device_api \<Rightarrow> event_kind \<Rightarrow> 'w \<Rightarrow> 'w wallet \<Rightarrow> wallet_error option \<times> 'w wallet" where
  "handle_event api k d w =
     (case k of
        WalletArrived \<Rightarrow> arrived api d w
      | WalletOpened \<Rightarrow> opened api d w
      | WalletDropped \<Rightarrow> dropped api d w
      | OtherKind n \<Rightarrow> (Some (UnrecognisedKind n), w))"

definition eventLoop ::
  "'w device_api \<Rightarrow> 'w loop_input \<Rightarrow> 'w wallet \<Rightarrow>
   (wallet_error, wallet_error option \<times> 'w wallet) outcome" where
  "eventLoop api inp w =
     (case inp of
        QuitClosed \<Rightarrow> Ret (Some ErrQuit, w)
      | SubError None \<Rightarrow> Ret (Some SubErrClosed, w)
      | SubError (Some e) \<Rightarrow> Ret (Some (SubErr e), w)
      | ChanClosed \<Rightarrow> Ret (Some EventsClosed, w)
      | QuitWhileEvent \<Rightarrow> Ret (Some ErrQuit, w)
      | Event k d \<Rightarrow> (case handle_event api k d w of (err, w') \<Rightarrow> finish_event err w'))"

text \<open>One turn of the loop of \<open>listen\<close>: errors are dropped when the buffer is full.\<close>

definition listen_turn ::
  "'w device_api \<Rightarrow> 'w loop_input \<Rightarrow> 'w wallet \<Rightarrow> (wallet_error, 'w wallet) outcome" where
  "listen_turn api inp w =
     obind (eventLoop api inp w) (\<lambda>(err, w').
       case err of
         None \<Rightarrow> Ret w'
       | Some e \<Rightarrow>
           if e = ErrQuit then Ret (w'\<lparr>listening := False\<rparr>)
           else if length (errs w') < errChanBuffer then Ret (w'\<lparr>errs := errs w' @ [e]\<rparr>) else Ret w')"

text \<open>\<open>trackExistingWallets\<close> offers an arrival for each wallet of the hub, until \<open>w.quit\<close> closes.\<close>

definition trackExistingWallets :: "'w list \<Rightarrow> nat \<Rightarrow> 'w loop_input list" where
  "trackExistingWallets hub_wallets sent_before_quit =
     map (Event WalletArrived) (take sent_before_quit hub_wallets)"

section \<open>Accounts\<close>

definition zeroAddr :: address where
  "zeroAddr = replicate 20 0"

text \<open>\<open>path[i] += index\<close> on 32 bits; an index out of range panics.\<close>

definition derivationPath :: "'w wallet \<Rightarrow> u32 \<Rightarrow> (wallet_error, path) outcome" where
  "derivationPath w index =
     (let p = basePath w; i = (case wtyp w of Ledger \<Rightarrow> 2 | UnknownWalletType \<Rightarrow> length p - 1) in
      if i < length p then Ret (p[i := p ! i + index]) else Panic)"

text \<open>The loop of \<open>derive\<close>, over the table in an order that the runtime chooses.\<close>

fun derive_loop ::
  "'w device_api \<Rightarrow> 'w walletAndStatus list \<Rightarrow> path \<Rightarrow> u32 \<Rightarrow> address \<Rightarrow> (url \<times> nat) list \<Rightarrow>
   (wallet_error, nat \<times> address) outcome" where
  "derive_loop api st p index addr [] = Fail (NoAccount index addr)"
| "derive_loop api st p index addr ((u, r) # rs) =
     (if \<not> is_open (st ! r) then derive_loop api st p index addr rs
      else case dev_Derive api (device (st ! r)) p of
             Inl e \<Rightarrow> Fail (DeriveError e)
           | Inr acc \<Rightarrow>
               if addr \<noteq> zeroAddr \<and> acc \<noteq> addr then derive_loop api st p index addr rs
               else Ret (r, acc))"

text \<open>
  On a closed \<open>w.wallets\<close> the receive yields a nil table and the deferred send panics.
\<close>

definition derive ::
  "'w device_api \<Rightarrow> (url \<times> nat) list \<Rightarrow> 'w wallet \<Rightarrow> u32 \<Rightarrow> address option \<Rightarrow>
   (wallet_error, nat \<times> address) outcome" where
  "derive api order w index expectedAddr =
     (let addr = (case expectedAddr of Some a \<Rightarrow> a | None \<Rightarrow> zeroAddr) in
      obind (derivationPath w index) (\<lambda>p.
        if wallets_closed w then Panic
        else if length (wallets w) = 0 then Fail ErrNoWalletsOpen
        else if length (wallets w) \<noteq> 1 \<and> addr = zeroAddr then Fail ErrAmbiguousDerivation
        else derive_loop api (store w) p index addr order))"

text \<open>What a signer function captures.\<close>

record signer =
  pinned :: nat
  account :: address
  chain :: int

definition SignerFn ::
  "'w device_api \<Rightarrow> (url \<times> nat) list \<Rightarrow> 'w wallet \<Rightarrow> u32 \<Rightarrow> address option \<Rightarrow> int \<Rightarrow>
   (wallet_error, signer) outcome" where
  "SignerFn api order w index expectedAddr chainID =
     obind (derive api order w index expectedAddr) (\<lambda>(r, acc).
       Ret \<lparr>pinned = r, account = acc, chain = chainID\<rparr>)"

definition sign ::
  "'w device_api \<Rightarrow> 'w wallet \<Rightarrow> signer \<Rightarrow> address \<Rightarrow> tx \<Rightarrow> (wallet_error, tx) outcome" where
  "sign api w s signAddr tx =
     (if wallets_closed w then Panic
      else if signAddr \<noteq> account s then Fail (WrongAccount signAddr (account s))
      else if \<not> is_open (store w ! pinned s) then Fail (ClosedSincePinned (account s))
      else case dev_SignTx api (device (store w ! pinned s)) (account s) tx (chain s) of
             Inl e \<Rightarrow> Fail (SignError e)
           | Inr tx' \<Rightarrow> Ret tx')"

section \<open>Closing\<close>

text \<open>
  \<open>Close\<close> in the two parts between which the event loop may still handle an event: closing
  the channels, and, once the table is obtained and the loop has ended, closing the
  open devices.
\<close>

definition Close_signal :: "'w wallet \<Rightarrow> (wallet_error, 'w wallet) outcome" where
  "Close_signal w =
     (if quit w then Panic
      else case call_alone (available w) CClose of
             (t, Done RNil) \<Rightarrow> Ret (w\<lparr>quit := True, available := t\<rparr>)
           | _ \<Rightarrow> Panic)"

definition Close_finish ::
  "'w device_api \<Rightarrow> (url \<times> nat) list \<Rightarrow> 'w wallet \<Rightarrow> string list \<times> 'w wallet" where
  "Close_finish api order w =
     (List.map_filter (\<lambda>(u, r). if deviceOpen (store w ! r) then dev_Close api (device (store w ! r)) else None) order,
      w\<lparr>wallets_closed := True, listening := False\<rparr>)"

section \<open>Runs\<close>

inductive usb_step :: "'w wallet \<Rightarrow> 'w wallet \<Rightarrow> bool" where
  turn: "listening w \<Longrightarrow> (inp = QuitClosed \<or> inp = QuitWhileEvent \<longrightarrow> quit w) \<Longrightarrow>
    listen_turn api inp w = Ret w' \<Longrightarrow> usb_step w w'"
| take_err: "errs w = e # es \<Longrightarrow> usb_step w (w\<lparr>errs := es\<rparr>)"
| close_signal: "Close_signal w = Ret w' \<Longrightarrow> usb_step w w'"
| close_finish: "quit w \<Longrightarrow> \<not> wallets_closed w \<Longrightarrow> Close_finish api order w = (es, w') \<Longrightarrow> usb_step w w'"

definition usb_init :: "'w wallet \<Rightarrow> bool" where
  "usb_init w \<longleftrightarrow> (\<exists>t p. w = construct t p)"

text \<open>
  The invariant: the table has one entry per URL, each a live struct of that URL; the
  toggle says whether some device of the table is open; the error buffer is bounded.
\<close>

definition table_ok :: "'w wallet \<Rightarrow> bool" where
  "table_ok w \<longleftrightarrow> distinct (map fst (wallets w)) \<and>
     (\<forall>(u, r) \<in> set (wallets w). r < length (store w) \<and> wurl (store w ! r) = u)"

definition toggle_ok :: "'w wallet \<Rightarrow> bool" where
  "toggle_ok w \<longleftrightarrow> settled (available w) \<and> tstate (available w) = any_open w \<and>
     closed (available w) = quit w"

definition usb_inv :: "'w wallet \<Rightarrow> bool" where
  "usb_inv w \<longleftrightarrow> table_ok w \<and> toggle_ok w \<and> length (errs w) \<le> errChanBuffer \<and>
     (wallets_closed w \<longrightarrow> quit w \<and> \<not> listening w)"

section \<open>Every step keeps the invariant\<close>

lemmas handler_defs = handle_event_def arrived_def opened_def dropped_def Let_def

lemma table_ok_add: "table_ok w \<Longrightarrow> table_ok (add_wallet u d w)"
proof -
  assume ok: "table_ok w"
  have "r < Suc (length (store w)) \<and> wurl ((store w @ [\<lparr>device = d, wurl = u, deviceOpen = False, appOpen = False\<rparr>]) ! r) = v"
    if "(v, r) \<in> set (AList.update u (length (store w)) (wallets w))" for v r
    using that set_update_subset ok by (fastforce simp: table_ok_def nth_append)
  then show ?thesis
    using ok by (auto simp: table_ok_def add_wallet_def distinct_update)
qed

lemma table_ok_flags [simp]:
  "table_ok (set_deviceOpen r w) = table_ok w" "table_ok (set_appOpen r w) = table_ok w"
  by (cases "r < length (store w)";
      force simp: table_ok_def set_deviceOpen_def set_appOpen_def nth_list_update)+

lemma table_ok_delete: "table_ok w \<Longrightarrow> table_ok (w\<lparr>wallets := AList.delete u (wallets w)\<rparr>)"
  using set_delete_subset [of u "wallets w"] by (auto simp: table_ok_def distinct_delete)

lemma handler_table: "handle_event api k d w = (err, w') \<Longrightarrow> table_ok w \<Longrightarrow> table_ok w'"
  by (auto simp: handler_defs table_ok_add table_ok_delete
      split: event_kind.splits option.splits sum.splits if_splits)

lemma handler_frame:
  "handle_event api k d w = (err, w') \<Longrightarrow>
     available w' = available w \<and> errs w' = errs w \<and> quit w' = quit w \<and>
     wallets_closed w' = wallets_closed w \<and> listening w' = listening w"
  by (auto simp: handler_defs add_wallet_def set_deviceOpen_def set_appOpen_def
      split: event_kind.splits option.splits sum.splits if_splits)

lemma any_open_available [simp]: "any_open (w\<lparr>available := t\<rparr>) = any_open w"
  and any_open_quit [simp]: "any_open (w\<lparr>quit := b\<rparr>) = any_open w"
  and any_open_errs [simp]: "any_open (w\<lparr>errs := es\<rparr>) = any_open w"
  and any_open_listening [simp]: "any_open (w\<lparr>listening := b\<rparr>) = any_open w"
  and any_open_wallets_closed [simp]: "any_open (w\<lparr>wallets_closed := b\<rparr>) = any_open w"
  by (simp_all add: any_open_def)

lemma table_ok_available [simp]: "table_ok (w\<lparr>available := t\<rparr>) = table_ok w"
  and table_ok_quit [simp]: "table_ok (w\<lparr>quit := b\<rparr>) = table_ok w"
  and table_ok_errs [simp]: "table_ok (w\<lparr>errs := es\<rparr>) = table_ok w"
  and table_ok_listening [simp]: "table_ok (w\<lparr>listening := b\<rparr>) = table_ok w"
  and table_ok_wallets_closed [simp]: "table_ok (w\<lparr>wallets_closed := b\<rparr>) = table_ok w"
  by (simp_all add: table_ok_def)

lemma finish_event_Ret:
  "finish_event err w = Ret (e, w') \<Longrightarrow>
     e = err \<and> \<not> wallets_closed w \<and>
     (\<exists>t. call_alone (available w) (CSet (any_open w)) = (t, Done RNil) \<and> w' = w\<lparr>available := t\<rparr>)"
  by (auto simp: finish_event_def split: if_splits prod.splits pc.splits result.splits)

lemma eventLoop_inv:
  assumes run: "eventLoop api inp w = Ret (err, w')" and inv: "usb_inv w"
  shows "usb_inv w' \<and> errs w' = errs w \<and> wallets_closed w' = wallets_closed w \<and> quit w' = quit w"
proof (cases "\<exists>k d. inp = Event k d")
  case False
  then have "w' = w" using run by (auto simp: eventLoop_def split: loop_input.splits option.splits)
  then show ?thesis using inv by simp
next
  case True
  then obtain k d w1 t where h: "handle_event api k d w = (err, w1)"
    "call_alone (available w1) (CSet (any_open w1)) = (t, Done RNil)" "w' = w1\<lparr>available := t\<rparr>"
    using run finish_event_Ret by (fastforce simp: eventLoop_def split: prod.splits)
  note fr = handler_frame [OF h(1)]
  have "table_ok w1" using handler_table [OF h(1)] inv by (simp add: usb_inv_def)
  moreover have "toggle_ok w'"
    using call_alone_Set_Ret [OF _ h(2)] fr inv h(3) by (simp add: usb_inv_def toggle_ok_def)
  ultimately show ?thesis
    using inv fr h(3) by (simp add: usb_inv_def)
qed

lemma listen_turn_Ret:
  assumes "listen_turn api inp w = Ret w'"
  shows "\<exists>err w1. eventLoop api inp w = Ret (err, w1) \<and>
     (w' = w1 \<or> err = Some ErrQuit \<and> w' = w1\<lparr>listening := False\<rparr> \<or>
      (\<exists>e. length (errs w1) < errChanBuffer \<and> w' = w1\<lparr>errs := errs w1 @ [e]\<rparr>))"
proof -
  obtain err w1 where "eventLoop api inp w = Ret (err, w1)"
    using assms by (auto simp: listen_turn_def outcome_simps)
  then show ?thesis
    using assms by (intro exI [of _ err] exI [of _ w1])
      (cases err; auto simp: listen_turn_def split: if_splits)
qed

lemma usb_inv_step: "usb_step w w' \<Longrightarrow> usb_inv w \<Longrightarrow> usb_inv w'"
proof (induction rule: usb_step.induct)
  case (turn w inp api w')
  obtain err w1 where w1: "eventLoop api inp w = Ret (err, w1)"
    "w' = w1 \<or> err = Some ErrQuit \<and> w' = w1\<lparr>listening := False\<rparr> \<or>
      (\<exists>e. length (errs w1) < errChanBuffer \<and> w' = w1\<lparr>errs := errs w1 @ [e]\<rparr>)"
    using listen_turn_Ret [OF turn(3)] by blast
  have "usb_inv w1" using eventLoop_inv [OF w1(1) turn(4)] by simp
  then show ?case
    using w1(2) by (auto simp: usb_inv_def toggle_ok_def)
next
  case (take_err w e es)
  then show ?case by (auto simp: usb_inv_def toggle_ok_def)
next
  case (close_signal w w')
  then obtain t where "call_alone (available w) CClose = (t, Done RNil)"
    "w' = w\<lparr>quit := True, available := t\<rparr>"
    by (auto simp: Close_signal_def split: if_splits prod.splits pc.splits result.splits)
  moreover from this(1) have "settled t \<and> tstate t = tstate (available w) \<and> closed t"
    using close_signal(2) by (intro call_alone_Close) (simp_all add: usb_inv_def toggle_ok_def)
  ultimately show ?case
    using close_signal(2) by (simp add: usb_inv_def toggle_ok_def)
next
  case (close_finish w api order es w')
  then show ?case by (auto simp: Close_finish_def usb_inv_def toggle_ok_def)
qed

lemma usb_inv_init: "usb_init w \<Longrightarrow> usb_inv w"
  by (auto simp: usb_init_def construct_def usb_inv_def table_ok_def toggle_ok_def any_open_def
      zero_toggle_def settled_def items_def closed_def)

interpretation usb: invariant_system usb_init usb_step usb_inv
  by unfold_locales (auto intro: usb_inv_init usb_inv_step)

section \<open>Flags are never cleared\<close>

definition open_kept :: "'w wallet \<Rightarrow> 'w wallet \<Rightarrow> bool" where
  "open_kept w w' \<longleftrightarrow> (\<forall>r < length (store w). r < length (store w') \<and>
     (is_open (store w ! r) \<longrightarrow> is_open (store w' ! r)) \<and> device (store w' ! r) = device (store w ! r))"

lemma open_kept_trans: "open_kept w w1 \<Longrightarrow> open_kept w1 w2 \<Longrightarrow> open_kept w w2"
  by (simp add: open_kept_def)

lemma open_kept_store: "store w' = store w \<Longrightarrow> open_kept w w'"
  by (simp add: open_kept_def)

lemma open_kept_add: "open_kept w (add_wallet u d w)"
  by (simp add: open_kept_def add_wallet_def nth_append)

lemma open_kept_flags: "open_kept w (set_deviceOpen r w)" "open_kept w (set_appOpen r w)"
  by (cases "r < length (store w)"; force simp: open_kept_def set_deviceOpen_def set_appOpen_def is_open_def nth_list_update)+

lemma open_kept_opened:
  "open_kept w (set_deviceOpen r w)" "open_kept w (set_appOpen r' (set_deviceOpen r w))"
  "open_kept w (set_deviceOpen r (add_wallet u d w))"
  "open_kept w (set_appOpen r' (set_deviceOpen r (add_wallet u d w)))"
  by (meson open_kept_trans open_kept_flags open_kept_add)+

lemma handler_open_kept: "handle_event api k d w = (err, w') \<Longrightarrow> open_kept w w'"
  by (auto simp: handler_defs open_kept_add open_kept_opened open_kept_store
      split: event_kind.splits option.splits sum.splits if_splits)

lemma eventLoop_open_kept: "eventLoop api inp w = Ret (err, w') \<Longrightarrow> open_kept w w'"
proof (cases "\<exists>k d. inp = Event k d")
  case True
  assume run: "eventLoop api inp w = Ret (err, w')"
  with True obtain k d w1 t where "handle_event api k d w = (err, w1)" "w' = w1\<lparr>available := t\<rparr>"
    using finish_event_Ret by (fastforce simp: eventLoop_def split: prod.splits)
  then have "open_kept w w1" "open_kept w1 w'"
    by (auto intro: handler_open_kept open_kept_store)
  then show ?thesis by (rule open_kept_trans)
next
  case False
  assume "eventLoop api inp w = Ret (err, w')"
  then have "w' = w" using False by (auto simp: eventLoop_def split: loop_input.splits option.splits)
  then show ?thesis by (simp add: open_kept_store)
qed

lemma step_open_kept: "usb_step w w' \<Longrightarrow> open_kept w w'"
proof (induction rule: usb_step.induct)
  case (turn w inp api w')
  obtain err w1 where "eventLoop api inp w = Ret (err, w1)" "store w' = store w1"
    using listen_turn_Ret [OF turn(3)] by fastforce
  then show ?case using eventLoop_open_kept open_kept_trans open_kept_store by metis
next
  case (close_signal w w')
  then have "store w' = store w"
    by (auto simp: Close_signal_def split: if_splits prod.splits pc.splits result.splits)
  then show ?case by (rule open_kept_store)
next
  case (close_finish w api order es w')
  then show ?case by (intro open_kept_store) (auto simp: Close_finish_def)
qed (simp add: open_kept_store)

lemma steps_open_kept: "usb_step\<^sup>*\<^sup>* w w' \<Longrightarrow> open_kept w w'"
  by (induction rule: rtranclp_induct)
     (auto intro: open_kept_store open_kept_trans step_open_kept)

section \<open>Derivation\<close>

lemma derive_loop_Ret:
  "derive_loop api st p i addr rs = Ret (r, acc) \<Longrightarrow>
     (\<exists>u. (u, r) \<in> set rs) \<and> is_open (st ! r) \<and> dev_Derive api (device (st ! r)) p = Inr acc \<and>
     (addr \<noteq> zeroAddr \<longrightarrow> acc = addr)"
  by (induction api st p i addr rs rule: derive_loop.induct)
     (auto split: if_splits sum.splits)

lemma derive_loop_finds:
  assumes "(u, r) \<in> set rs" "is_open (st ! r)" "dev_Derive api (device (st ! r)) p = Inr addr" "addr \<noteq> zeroAddr"
    and "\<And>u' r'. (u', r') \<in> set rs \<Longrightarrow> is_open (st ! r') \<Longrightarrow>
           \<exists>a. dev_Derive api (device (st ! r')) p = Inr a \<and> (a = addr \<longrightarrow> r' = r)"
  shows "derive_loop api st p i addr rs = Ret (r, addr)"
  using assms
proof (induction rs)
  case (Cons e rs)
  obtain u' r' where e: "e = (u', r')" by (cases e)
  show ?case
  proof (cases "is_open (st ! r')")
    case False
    then have "(u, r) \<in> set rs" using Cons.prems(1,2) e by auto
    then show ?thesis using Cons e False by auto
  next
    case True
    then obtain a where a: "dev_Derive api (device (st ! r')) p = Inr a" "a = addr \<longrightarrow> r' = r"
      using Cons.prems(5) [of u' r'] e by auto
    show ?thesis
    proof (cases "a = addr")
      case True
      then show ?thesis using a e \<open>is_open (st ! r')\<close> by simp
    next
      case False
      then have "(u, r) \<in> set rs" using Cons.prems(1,3) e a(1) by auto
      then have "derive_loop api st p i addr rs = Ret (r, addr)" using Cons by auto
      then show ?thesis using False a e \<open>is_open (st ! r')\<close> assms(4) by simp
    qed
  qed
qed simp

section \<open>The status pattern\<close>

lemma strip_prefix_Some: "strip_prefix p s = Some r \<longleftrightarrow> s = p @ r"
  by (induction p s rule: strip_prefix.induct) auto

lemma strip_digits_Some:
  "strip_digits s = Some r \<longleftrightarrow>
     (\<exists>d. d \<noteq> [] \<and> list_all is_digit d \<and> s = d @ r \<and> (r = [] \<or> \<not> is_digit (hd r)))"
proof
  assume "strip_digits s = Some r"
  then have "takeWhile is_digit s \<noteq> []" "r = dropWhile is_digit s"
    by (auto simp: strip_digits_def split: if_splits)
  then show "\<exists>d. d \<noteq> [] \<and> list_all is_digit d \<and> s = d @ r \<and> (r = [] \<or> \<not> is_digit (hd r))"
    by (intro exI [of _ "takeWhile is_digit s"])
       (use hd_dropWhile [of is_digit s] in \<open>auto simp: list_all_iff dest: set_takeWhileD\<close>)
next
  assume "\<exists>d. d \<noteq> [] \<and> list_all is_digit d \<and> s = d @ r \<and> (r = [] \<or> \<not> is_digit (hd r))"
  then obtain d where d: "d \<noteq> []" "list_all is_digit d" "s = d @ r" "r = [] \<or> \<not> is_digit (hd r)"
    by blast
  then have "takeWhile is_digit s = d @ takeWhile is_digit r" "dropWhile is_digit s = dropWhile is_digit r"
    by (simp_all add: takeWhile_append2 dropWhile_append2 list_all_iff)
  moreover have "takeWhile is_digit r = []" "dropWhile is_digit r = r"
    using d(4) by (cases r; simp)+
  ultimately show "strip_digits s = Some r" using d(1) by (simp add: strip_digits_def)
qed

lemma strip_group:
  assumes "\<not> is_digit (hd p)" "p \<noteq> []"
  shows "Option.bind (strip_digits s) (strip_prefix p) = Some r \<longleftrightarrow>
     (\<exists>d. d \<noteq> [] \<and> list_all is_digit d \<and> s = d @ p @ r)"
  using assms by (auto simp: bind_eq_Some_conv strip_digits_Some strip_prefix_Some)

lemma strip_group_then:
  assumes "\<not> is_digit (hd p)" "p \<noteq> []"
  shows "Option.bind (strip_digits s) (\<lambda>t. Option.bind (strip_prefix p t) f) = Some r \<longleftrightarrow>
     (\<exists>d t. d \<noteq> [] \<and> list_all is_digit d \<and> s = d @ p @ t \<and> f t = Some r)"
  using assms by (fastforce simp: bind_eq_Some_conv strip_digits_Some strip_prefix_Some)

section \<open>Properties\<close>

text \<open>A device table for the examples: devices are numbers, and each has its own URL and account.\<close>

definition demo_api :: "nat device_api" where
  "demo_api =
     \<lparr>dev_URL = (\<lambda>d. replicate d CHR ''u''), dev_Open = (\<lambda>_. None),
      dev_Status = (\<lambda>_. Inr ''Ethereum app v1.10.3 online''), dev_Close = (\<lambda>_. None),
      dev_Derive = (\<lambda>d p. Inr (replicate 20 (of_nat d))), dev_SignTx = (\<lambda>_ _ t _. Inr t)\<rparr>"

definition demo_wallet :: "nat wallet" where
  "demo_wallet =
     \<lparr>basePath = [44, 60, 0, 0, 0], wtyp = Ledger,
      store = [\<lparr>device = 1, wurl = ''u'', deviceOpen = True, appOpen = True\<rparr>],
      wallets = [(''u'', 0)], wallets_closed = False,
      available = \<lparr>mu = False, tstate = True, signal = Some \<lparr>buf = 1, chan_closed = False\<rparr>\<rparr>,
      errs = [], quit = False, listening = True\<rparr>"

lemma demo_wallet_reachable: "reachable usb_init usb_step demo_wallet"
proof -
  have "usb_step (construct Ledger [44, 60, 0, 0, 0]) demo_wallet"
  proof (rule turn)
    show "listen_turn demo_api (Event WalletOpened 1) (construct Ledger [44, 60, 0, 0, 0]) = Ret demo_wallet"
      by code_simp
  qed (simp_all add: construct_def)
  then show ?thesis
    using reachable_step [OF reachable_init] by (metis usb_init_def)
qed

text \<open>
  C5. What \<open>Wallet.Wait\<close> relies on: after every iteration of the event loop, whatever the
  devices answered, the toggle is on exactly when some device of the table is open, and
  the error channel holds at most its 16 entries.
\<close>

theorem usb_available_iff_open:
  assumes "reachable usb_init usb_step w" and "\<not> quit w"
  shows "wait_ready (available w) = (\<exists>u r. map_of (wallets w) u = Some r \<and> is_open (store w ! r)) \<and>
         length (errs w) \<le> 16"
proof -
  have inv: "usb_inv w" using usb.reachable_inv [OF assms(1)] .
  then have "quiet (available w)" "tstate (available w) = any_open w"
    using assms(2) by (simp_all add: usb_inv_def toggle_ok_def quiet_def)
  then have "wait_ready (available w) = any_open w" by (simp add: wait_ready_quiet)
  moreover have "distinct (map fst (wallets w))" using inv by (simp add: usb_inv_def table_ok_def)
  ultimately show ?thesis
    using inv by (auto simp: any_open_def list_ex_iff usb_inv_def errChanBuffer_def)
qed

theorem usb_available_iff_open_witness: "wait_ready (available demo_wallet)"
  using usb_available_iff_open [OF demo_wallet_reachable]
  by (simp add: demo_wallet_def is_open_def)

text \<open>
  \<open>derive\<close> is sound: a result is an open device of the table and the account it derived at
  the account's path; it is the expected address when a non-zero one was given, and
  otherwise the only connected device.
\<close>

theorem derive_sound:
  assumes "set order = set (wallets w)" and "derive api order w index expected = Ret (r, acc)"
  shows "\<exists>u p. (u, r) \<in> set (wallets w) \<and> is_open (store w ! r) \<and>
     derivationPath w index = Ret p \<and> dev_Derive api (device (store w ! r)) p = Inr acc \<and>
     (if expected = None \<or> expected = Some zeroAddr then length (wallets w) = 1 else expected = Some acc)"
proof -
  let ?addr = "case expected of Some a \<Rightarrow> a | None \<Rightarrow> zeroAddr"
  obtain p where p: "derivationPath w index = Ret p" "derive_loop api (store w) p index ?addr order = Ret (r, acc)"
    "length (wallets w) = 1 \<or> ?addr \<noteq> zeroAddr"
    using assms(2) by (auto simp: derive_def Let_def outcome_simps split: if_splits)
  from derive_loop_Ret [OF p(2)] p(1,3) assms(1) show ?thesis
    by (auto split: option.splits)
qed

theorem derive_sound_witness:
  "\<exists>u p. (u, 0) \<in> set (wallets demo_wallet) \<and> is_open (store demo_wallet ! 0) \<and>
     derivationPath demo_wallet 3 = Ret p \<and>
     dev_Derive demo_api (device (store demo_wallet ! 0)) p = Inr (replicate 20 1)"
proof -
  have "derive demo_api (wallets demo_wallet) demo_wallet 3 None = Ret (0, replicate 20 1)" by code_simp
  from derive_sound [OF refl this] show ?thesis by blast
qed

text \<open>
  \<open>derive\<close> is complete and independent of the map's iteration order: when one open device
  derives the expected address and every open device answers, every order of the table
  leads to that device.
\<close>

theorem derive_finds:
  assumes "mset order = mset (wallets w)" and "\<not> wallets_closed w"
    and "derivationPath w index = Ret p" and "addr \<noteq> zeroAddr"
    and "(u, r) \<in> set (wallets w)" and "is_open (store w ! r)"
    and "dev_Derive api (device (store w ! r)) p = Inr addr"
    and "\<And>u' r'. (u', r') \<in> set (wallets w) \<Longrightarrow> is_open (store w ! r') \<Longrightarrow>
           \<exists>a. dev_Derive api (device (store w ! r')) p = Inr a \<and> (a = addr \<longrightarrow> r' = r)"
  shows "derive api order w index (Some addr) = Ret (r, addr)"
proof -
  have s: "set order = set (wallets w)" using assms(1) by (metis set_mset_mset)
  have "derive_loop api (store w) p index addr order = Ret (r, addr)"
    by (rule derive_loop_finds) (use assms s in auto)
  moreover have "length (wallets w) \<noteq> 0" using assms(5) by auto
  ultimately show ?thesis using assms(2,3,4) by (simp add: derive_def Let_def)
qed

theorem derive_finds_witness:
  "derive demo_api (wallets demo_wallet) demo_wallet 3 (Some (replicate 20 1)) = Ret (0, replicate 20 1)"
proof (rule derive_finds [OF refl])
  show "derivationPath demo_wallet 3 = Ret [44, 60, 3, 0, 0]" by code_simp
qed (auto simp: demo_wallet_def demo_api_def is_open_def zeroAddr_def numeral_eq_Suc)

text \<open>
  A signer never notices that its device has gone: the flags that \<open>open()\<close> reads are set and
  never cleared, so the error "closed since account pinned" cannot occur, in whatever
  state the events after the derivation have left the wallet (also after the device was
  dropped from the table).
\<close>

theorem signer_never_detects_close:
  assumes "reachable usb_init usb_step w" and "set order = set (wallets w)"
    and "SignerFn api order w index expected chainID = Ret s" and "usb_step\<^sup>*\<^sup>* w w'"
  shows "is_open (store w' ! pinned s) \<and> sign api' w' s signAddr tx \<noteq> Fail (ClosedSincePinned (account s))"
proof -
  have inv: "usb_inv w" using usb.reachable_inv [OF assms(1)] .
  obtain acc where d: "derive api order w index expected = Ret (pinned s, acc)"
    using assms(3) by (auto simp: SignerFn_def outcome_simps)
  then obtain p addr where "derive_loop api (store w) p index addr order = Ret (pinned s, acc)"
    by (auto simp: derive_def Let_def outcome_simps split: if_splits)
  from derive_loop_Ret [OF this] obtain u where u: "(u, pinned s) \<in> set (wallets w)" "is_open (store w ! pinned s)"
    using assms(2) by auto
  then have "pinned s < length (store w)" using inv by (auto simp: usb_inv_def table_ok_def)
  then have "is_open (store w' ! pinned s)"
    using steps_open_kept [OF assms(4)] u(2) by (simp add: open_kept_def)
  then show ?thesis by (simp add: sign_def split: sum.splits)
qed

theorem signer_never_detects_close_witness:
  "\<exists>w' s. usb_step\<^sup>*\<^sup>* demo_wallet w' \<and> wallets w' = [] \<and>
     SignerFn demo_api (wallets demo_wallet) demo_wallet 0 None 1 = Ret s \<and> is_open (store w' ! pinned s)"
proof -
  let ?s = "\<lparr>pinned = 0, account = replicate 20 1, chain = 1\<rparr>"
  have s: "SignerFn demo_api (wallets demo_wallet) demo_wallet 0 None 1 = Ret ?s" by code_simp
  let ?w = "demo_wallet\<lparr>wallets := [], available := \<lparr>mu = False, tstate = False, signal = Some \<lparr>buf = 0, chan_closed = False\<rparr>\<rparr>\<rparr>"
  have "usb_step demo_wallet ?w"
  proof (rule turn)
    show "listen_turn demo_api (Event WalletDropped 1) demo_wallet = Ret ?w" by code_simp
  qed (simp_all add: demo_wallet_def)
  then have "usb_step\<^sup>*\<^sup>* demo_wallet ?w" by blast
  moreover have "is_open (store ?w ! pinned ?s)"
    using signer_never_detects_close [OF demo_wallet_reachable refl s calculation] by simp
  ultimately show ?thesis using s by (intro exI conjI) auto
qed

text \<open>
  The account's path differs from the base path in one component, the third for a Ledger and
  the last otherwise, which is the sum modulo \<open>2^32\<close>; different indices give different paths; a
  base path that is too short panics.
\<close>

theorem derivationPath_spec:
  "derivationPath w index =
     (let i = (if wtyp w = Ledger then 2 else length (basePath w) - 1) in
      if i < length (basePath w)
      then Ret (take i (basePath w) @ [word_of_nat ((unat (basePath w ! i) + unat index) mod 2 ^ 32)] @
                drop (Suc i) (basePath w))
      else Panic)"
proof -
  have "(a :: u32) + b = word_of_nat ((unat a + unat b) mod 2 ^ 32)" for a b
  proof -
    have "a + b = word_of_nat (unat (a + b))" by simp
    also have "unat (a + b) = (unat a + unat b) mod 2 ^ 32" by (simp only: unat_word_ariths len_num1 len_bit0) simp
    finally show ?thesis .
  qed
  then show ?thesis
    by (cases "wtyp w") (simp_all add: derivationPath_def Let_def upd_conv_take_nth_drop)
qed

text \<open>
  A race on \<open>Close\<close>: between its closing of the toggle and its taking of the table, an event
  that makes the first device available panics the event loop with a send on a closed channel.
\<close>

theorem eventLoop_panics_after_close:
  assumes "reachable usb_init usb_step w" and "quit w" and "\<not> wallets_closed w"
    and "handle_event api k d w = (err, w')" and "\<not> any_open w" and "any_open w'"
  shows "eventLoop api (Event k d) w = Panic"
proof -
  have t: "settled (available w)" "\<not> tstate (available w)" "closed (available w)"
    using usb.reachable_inv [OF assms(1)] assms(2,5) by (simp_all add: usb_inv_def toggle_ok_def)
  then have "snd (call_alone (available w') (CSet True)) = Done RPanic"
    using call_alone_Set_closed handler_frame [OF assms(4)] by simp
  then show ?thesis
    using assms(4,6) by (cases "call_alone (available w') (CSet True)") (simp add: eventLoop_def finish_event_def)
qed

theorem eventLoop_panics_after_close_witness:
  "\<exists>w. reachable usb_init usb_step w \<and> quit w \<and> eventLoop demo_api (Event WalletOpened 1) w = Panic"
proof -
  let ?c = "construct Ledger [44, 60, 0, 0, 0] :: nat wallet"
  let ?w = "?c\<lparr>quit := True, available := \<lparr>mu = False, tstate = False, signal = Some \<lparr>buf = 0, chan_closed = True\<rparr>\<rparr>\<rparr>"
  let ?w' = "demo_wallet\<lparr>quit := True, available := available ?w\<rparr>"
  have "Close_signal ?c = Ret ?w" by code_simp
  then have st: "usb_step ?c ?w" by (rule close_signal)
  have "reachable usb_init usb_step ?c" by (rule reachable_init) (auto simp: usb_init_def)
  from this st have r: "reachable usb_init usb_step ?w" by (rule reachable_step)
  have h: "handle_event demo_api WalletOpened 1 ?w = (None, ?w')" by code_simp
  have "eventLoop demo_api (Event WalletOpened 1) ?w = Panic"
    by (rule eventLoop_panics_after_close [OF r _ _ h])
       (simp_all add: construct_def any_open_def demo_wallet_def is_open_def)
  then show ?thesis using r by (intro exI [of _ ?w]) simp
qed

text \<open>The status strings that the loop takes for an open app.\<close>

lemma ledgerAppOnline_iff:
  "ledgerAppOnline s \<longleftrightarrow>
     (\<exists>a b c. a \<noteq> [] \<and> b \<noteq> [] \<and> c \<noteq> [] \<and> list_all is_digit (a @ b @ c) \<and>
        s = ''Ethereum app v'' @ a @ ''.'' @ b @ ''.'' @ c @ '' online'')"
proof -
  have d: "\<not> is_digit (hd ''.'')" "\<not> is_digit (hd '' online'')" by (simp_all add: is_digit_def)
  show ?thesis
    unfolding ledgerAppOnline_def bind_eq_Some_conv [of "strip_prefix _ s"] strip_prefix_Some
      strip_group_then [OF d(1) list.distinct(2)] strip_group [OF d(2) list.distinct(2)]
    by (auto, blast)
qed

end
