(* ===== verification/HttpErr.thy ===== *)
theory HttpErr
  imports Prelude
begin

text \<open>
  Errors of HTTP handlers (\<open>go/httperr/httperr.go\<close>): which status and which text reach the
  client. A response writer of \<open>net/http\<close> is the record \<open>response\<close>; the hash function is an
  argument. The format string and its arguments are taken as the formatted text. The same
  pattern occurs in \<open>go/erc721/server.go\<close>, so the confidentiality it gives is stated for
  an interface.
\<close>

section \<open>Response writers of net/http\<close>

record response =
  status :: "int option"
  content_type :: "string option"
  body :: string

definition fresh :: response where
  "fresh = \<lparr>status = None, content_type = None, body = []\<rparr>"

text \<open>The first write of a body sends the header with code 200.\<close>

definition write_body :: "response \<Rightarrow> string \<Rightarrow> response" where
  "write_body w s =
     w\<lparr>status := (case status w of None \<Rightarrow> Some 200 | Some c \<Rightarrow> Some c), body := body w @ s\<rparr>"

text \<open>A second header is ignored; a code that is no three-digit number panics.\<close>

definition write_header :: "response \<Rightarrow> int \<Rightarrow> ('e, response) outcome" where
  "write_header w code =
     (case status w of
        Some c \<Rightarrow> Ret w
      | None \<Rightarrow> if code < 100 \<or> 999 < code then Panic else Ret (w\<lparr>status := Some code\<rparr>))"

definition http_Error :: "response \<Rightarrow> string \<Rightarrow> int \<Rightarrow> ('e, response) outcome" where
  "http_Error w msg code =
     obind (write_header (w\<lparr>content_type := Some ''text/plain; charset=utf-8''\<rparr>) code)
       (\<lambda>w'. Ret (write_body w' (msg @ [CHR 0x0A])))"

text \<open>\<open>%x\<close> of a byte slice.\<close>

definition hex_digit :: "nat \<Rightarrow> char" where
  "hex_digit n = ''0123456789abcdef'' ! n"

definition hex :: "bytes \<Rightarrow> string" where
  "hex bs = concat (map (\<lambda>b. [hex_digit (unat b div 16), hex_digit (unat b mod 16)]) bs)"

section \<open>Errors with a status\<close>

datatype go_error = HttpError (code: int) (msg: string) | OtherError string

definition Formatf :: "int \<Rightarrow> string \<Rightarrow> go_error option" where
  "Formatf c formatted = (if c = 200 then None else Some (HttpError c formatted))"

fun error_text :: "go_error \<Rightarrow> string" where
  "error_text (HttpError c m) = m"
| "error_text (OtherError m) = m"

text \<open>\<open>err.Error()\<close> of a nil error is a nil dereference.\<close>

definition WithStatus :: "int \<Rightarrow> go_error option \<Rightarrow> ('e, go_error option) outcome" where
  "WithStatus c err =
     (if c = 200 then Ret None
      else case err of None \<Rightarrow> Panic | Some e \<Rightarrow> Ret (Some (HttpError c (error_text e))))"

type_synonym hash = "string \<Rightarrow> bytes"

definition obfuscate :: "hash \<Rightarrow> string \<Rightarrow> bytes \<times> string" where
  "obfuscate h m = (let x = take 8 (h m) in (x, ''see log: '' @ hex x))"

text \<open>Go's integer division truncates; \<open>code/100 == 4\<close> holds from 400 to 499.\<close>

definition client_error :: "int \<Rightarrow> bool" where
  "client_error c \<longleftrightarrow> 0 \<le> c \<and> c div 100 = 4"

definition handleErr :: "hash \<Rightarrow> response \<Rightarrow> go_error option \<Rightarrow> ('e, response) outcome" where
  "handleErr h w err =
     (case err of
        None \<Rightarrow> Ret w
      | Some (HttpError c m) \<Rightarrow>
          if client_error c then http_Error w m c else http_Error w (snd (obfuscate h m)) c
      | Some (OtherError m) \<Rightarrow> http_Error w (snd (obfuscate h m)) 500)"

text \<open>\<open>HandlerFunc\<close> and \<open>RouterHandle\<close>: a function that writes to the response and may fail.\<close>

definition HandlerFunc ::
  "hash \<Rightarrow> (response \<Rightarrow> 'r \<Rightarrow> ('e, response \<times> go_error option) outcome) \<Rightarrow> response \<Rightarrow> 'r \<Rightarrow>
   ('e, response) outcome" where
  "HandlerFunc h fn w r = obind (fn w r) (\<lambda>(w', err). handleErr h w' err)"

definition RouterHandle ::
  "hash \<Rightarrow> (response \<Rightarrow> 'r \<Rightarrow> 'p \<Rightarrow> ('e, response \<times> go_error option) outcome) \<Rightarrow>
   response \<Rightarrow> 'r \<Rightarrow> 'p \<Rightarrow> ('e, response) outcome" where
  "RouterHandle h fn w r p = obind (fn w r p) (\<lambda>(w', err). handleErr h w' err)"

section \<open>The interface: which messages are public\<close>

locale error_writer =
  fixes hash :: "string \<Rightarrow> bytes"
    and handle :: "response \<Rightarrow> go_error option \<Rightarrow> (unit, response) outcome"
    and public :: "int \<Rightarrow> bool"
  assumes nil: "handle w None = Ret w"
    and shown: "public c \<Longrightarrow> handle w (Some (HttpError c m)) = http_Error w m c"
    and hidden: "\<not> public c \<Longrightarrow> handle w (Some (HttpError c m)) = http_Error w (''see log: '' @ hex (take 8 (hash m))) c"
    and other: "handle w (Some (OtherError m)) = http_Error w (''see log: '' @ hex (take 8 (hash m))) 500"
begin

definition secret :: "go_error \<Rightarrow> bool" where
  "secret e = (case e of HttpError c m \<Rightarrow> \<not> public c | OtherError m \<Rightarrow> True)"

definition same_public :: "go_error \<Rightarrow> go_error \<Rightarrow> bool" where
  "same_public e e' \<longleftrightarrow>
     secret e \<and> secret e' \<and> take 8 (hash (error_text e)) = take 8 (hash (error_text e')) \<and>
     (case e of HttpError c m \<Rightarrow> c | OtherError m \<Rightarrow> 500) =
     (case e' of HttpError c m \<Rightarrow> c | OtherError m \<Rightarrow> 500)"

lemma noninterference: "same_public e e' \<Longrightarrow> handle w (Some e) = handle w (Some e')"
  by (cases e; cases e') (auto simp: same_public_def secret_def hidden other)

lemma status_sent:
  assumes "handle fresh (Some e) = Ret w"
  shows "status w = Some (case e of HttpError c m \<Rightarrow> c | OtherError m \<Rightarrow> 500)"
  using assms
  by (cases e; cases "public (code e)")
     (auto simp: shown hidden other http_Error_def write_header_def write_body_def fresh_def
       outcome_simps split: if_splits)

end

lemma client_error_range: "client_error c \<longleftrightarrow> 400 \<le> c \<and> c < 500"
  unfolding client_error_def by presburger

interpretation he: error_writer h "handleErr h" client_error for h :: hash
  by unfold_locales (simp_all add: handleErr_def obfuscate_def Let_def)

section \<open>Properties\<close>

text \<open>
  Internal errors stay internal: two errors outside the 400 range whose messages agree in
  the first eight bytes of their hash produce the same response, whatever has been
  written before, so the client learns of the message at most those eight bytes; an error
  that is not one of this package is sent as a 500.
\<close>

theorem handleErr_confidential:
  fixes h :: hash
  assumes "take 8 (h m) = take 8 (h m')" and "c < 400 \<or> 500 \<le> c"
  shows "(handleErr h w (Some (HttpError c m)) :: (unit, response) outcome) = handleErr h w (Some (HttpError c m')) \<and>
         (handleErr h w (Some (OtherError m)) :: (unit, response) outcome) = handleErr h w (Some (HttpError 500 m'))"
  using he.noninterference [of h "HttpError c m" "HttpError c m'" w]
    he.noninterference [of h "OtherError m" "HttpError 500 m'" w] assms
  by (auto simp: he.same_public_def he.secret_def client_error_range)

theorem handleErr_confidential_witness:
  "(handleErr (\<lambda>_. []) fresh (Some (HttpError 503 ''pw'')) :: (unit, response) outcome) =
     handleErr (\<lambda>_. []) fresh (Some (HttpError 503 ''xy''))"
  using handleErr_confidential [of "\<lambda>_. []" "''pw''" "''xy''" 503 fresh] by simp

end
