(* ===== verification/GoText.thy ===== *)
theory GoText
  imports Prelude
begin

text \<open>
  What the repository uses of Go's standard library on text: \<open>big.Int.SetString\<close> and
  \<open>big.Int.Text\<close> in the bases 2 to 62, big-endian byte slices (\<open>big.Int.SetBytes\<close>,
  \<open>FillBytes\<close>) and \<open>strings.ReplaceAll\<close>, \<open>HasSuffix\<close> and \<open>Contains\<close>.
\<close>

section \<open>Numbers as text\<close>

text \<open>The digits are 0-9, then a-z, then A-Z.\<close>

definition digit :: "nat \<Rightarrow> char" where
  "digit n = char_of (if n < 10 then n + 48 else if n < 36 then n - 10 + 97 else n - 36 + 65)"

text \<open>Up to base 36 both cases of a letter mean the same digit.\<close>

definition digit_value :: "bool \<Rightarrow> char \<Rightarrow> nat option" where
  "digit_value fold_case c =
     (let n = (of_char c :: nat) in
      if 48 \<le> n \<and> n \<le> 57 then Some (n - 48)
      else if 97 \<le> n \<and> n \<le> 122 then Some (n - 97 + 10)
      else if 65 \<le> n \<and> n \<le> 90 then Some (n - 65 + (if fold_case then 10 else 36))
      else None)"

function text_nat :: "nat \<Rightarrow> nat \<Rightarrow> string" where
  "text_nat b n = (if n < b \<or> b < 2 then [digit n] else text_nat b (n div b) @ [digit (n mod b)])"
  by pat_completeness auto
termination
  by (relation "measure snd") auto

declare text_nat.simps [simp del]

fun scan_digits :: "nat \<Rightarrow> nat \<Rightarrow> string \<Rightarrow> nat option" where
  "scan_digits b acc [] = Some acc"
| "scan_digits b acc (c # cs) =
     (case digit_value (b \<le> 36) c of
        None \<Rightarrow> None
      | Some d \<Rightarrow> if d < b then scan_digits b (acc * b + d) cs else None)"

definition scan_nat :: "nat \<Rightarrow> string \<Rightarrow> nat option" where
  "scan_nat b s = (if s = [] then None else scan_digits b 0 s)"

text \<open>\<open>new(big.Int).SetString(s, base)\<close> for a base other than 0; an illegal base panics.\<close>

definition SetString :: "string \<Rightarrow> int \<Rightarrow> ('e, int option) outcome" where
  "SetString s base =
     (if base < 2 \<or> 62 < base then Panic
      else Ret (let b = nat base in
        case s of
          [] \<Rightarrow> None
        | c # cs \<Rightarrow>
            if c = CHR ''-'' then map_option (\<lambda>n. - int n) (scan_nat b cs)
            else if c = CHR ''+'' then map_option int (scan_nat b cs)
            else map_option int (scan_nat b s)))"

definition Text :: "int \<Rightarrow> int \<Rightarrow> string" where
  "Text n base = (if n < 0 then CHR ''-'' # text_nat (nat base) (nat (- n)) else text_nat (nat base) (nat n))"

lemma digit_roundtrip_fold: "n < 36 \<Longrightarrow> digit_value True (digit n) = Some n"
  by (auto simp: digit_value_def digit_def Let_def)

lemma digit_roundtrip: "n < 62 \<Longrightarrow> digit_value False (digit n) = Some n"
  by (auto simp: digit_value_def digit_def Let_def)

lemma digit_value_digit: "n < b \<Longrightarrow> b \<le> 62 \<Longrightarrow> digit_value (b \<le> 36) (digit n) = Some n"
  using digit_roundtrip digit_roundtrip_fold by (cases "b \<le> 36") simp_all

lemma scan_digits_append:
  "scan_digits b a (s @ t) = Option.bind (scan_digits b a s) (\<lambda>a'. scan_digits b a' t)"
  by (induction b a s rule: scan_digits.induct) (simp_all split: option.split)

lemma scan_text: "2 \<le> b \<Longrightarrow> b \<le> 62 \<Longrightarrow> scan_digits b 0 (text_nat b n) = Some n"
proof (induction b n rule: text_nat.induct)
  case (1 b n)
  show ?case
  proof (cases "n < b")
    case True
    then show ?thesis using "1.prems" by (simp add: text_nat.simps digit_value_digit)
  next
    case False
    then have "scan_digits b 0 (text_nat b (n div b)) = Some (n div b)" using 1 by simp
    moreover have "n mod b < b" using "1.prems" by simp
    ultimately show ?thesis
      using False "1.prems" digit_value_digit [of "n mod b" b]
      by (subst text_nat.simps) (simp add: scan_digits_append div_mult_mod_eq)
  qed
qed

lemma text_nat_hd: "2 \<le> b \<Longrightarrow> \<exists>d cs. text_nat b n = digit d # cs \<and> d < b"
proof (induction b n rule: text_nat.induct)
  case (1 b n)
  show ?case
  proof (cases "n < b")
    case False
    then obtain d cs where "text_nat b (n div b) = digit d # cs" "d < b" using 1 by auto
    then show ?thesis using False "1.prems" by (subst text_nat.simps) auto
  qed (auto simp: text_nat.simps)
qed

lemma digit_no_sign: "d < 62 \<Longrightarrow> digit d \<noteq> CHR ''-'' \<and> digit d \<noteq> CHR ''+''"
  using digit_roundtrip [of d] by (auto simp: digit_value_def Let_def)

text \<open>Printing and scanning in one base are inverse.\<close>

lemma SetString_Text:
  assumes "2 \<le> base" "base \<le> 62"
  shows "SetString (Text n base) base = Ret (Some n)"
proof -
  let ?b = "nat base"
  have b: "2 \<le> ?b" "?b \<le> 62" using assms by simp_all
  have scan: "scan_nat ?b (text_nat ?b m) = Some m" for m
    using scan_text [OF b] text_nat_hd [OF b(1), of m] by (auto simp: scan_nat_def)
  show ?thesis
  proof (cases "n < 0")
    case True
    then show ?thesis using assms scan by (simp add: SetString_def Text_def Let_def)
  next
    case False
    obtain d cs where d: "text_nat ?b (nat n) = digit d # cs" "d < ?b" using text_nat_hd [OF b(1)] by blast
    then have "digit d \<noteq> CHR ''-'' \<and> digit d \<noteq> CHR ''+''" using digit_no_sign b(2) by simp
    then show ?thesis
      using False assms scan [of "nat n"] d(1) by (simp add: SetString_def Text_def Let_def)
  qed
qed

lemma Text_inject: "2 \<le> base \<Longrightarrow> base \<le> 62 \<Longrightarrow> Text m base = Text n base \<longleftrightarrow> m = n"
  by (metis SetString_Text outcome.inject(1) option.inject)

lemma set_text_nat: "2 \<le> b \<Longrightarrow> c \<in> set (text_nat b n) \<Longrightarrow> \<exists>d < b. c = digit d"
proof (induction b n rule: text_nat.induct)
  case (1 b n)
  show ?case
  proof (cases "n < b")
    case False
    then have "c \<in> set (text_nat b (n div b)) \<or> c = digit (n mod b)" "n mod b < b"
      using 1(2,3) by (auto simp: text_nat.simps [of b n])
    then show ?thesis using 1(1) [OF _ 1(2)] 1(2) False by (metis leD)
  qed (use 1 in \<open>auto simp: text_nat.simps [of b n]\<close>)
qed

lemma text_nat_nonempty: "2 \<le> b \<Longrightarrow> text_nat b n \<noteq> []"
  using text_nat_hd [of b n] by auto

text \<open>Decimal text of a natural number consists of digits.\<close>

lemma set_decimal: "c \<in> set (Text (int n) 10) \<Longrightarrow> digit_value False c \<noteq> None"
  using set_text_nat [of 10 c n] digit_roundtrip by (fastforce simp: Text_def)

lemma decimal_nonempty [simp]: "Text (int n) 10 \<noteq> []" "[] \<noteq> Text (int n) 10"
  using text_nat_nonempty [of 10 n] by (auto simp: Text_def)

section \<open>Big-endian bytes\<close>

definition SetBytes :: "bytes \<Rightarrow> nat" where
  "SetBytes bs = foldl (\<lambda>a b. a * 256 + unat b) 0 bs"

text \<open>The low \<open>n\<close> bytes of a number, most significant first.\<close>

fun be_bytes :: "nat \<Rightarrow> nat \<Rightarrow> bytes" where
  "be_bytes 0 x = []"
| "be_bytes (Suc n) x = be_bytes n (x div 256) @ [of_nat x]"

lemma length_be_bytes [simp]: "length (be_bytes n x) = n"
  by (induction n arbitrary: x) simp_all

lemma SetBytes_append [simp]: "SetBytes (bs @ [b]) = SetBytes bs * 256 + unat b"
  by (simp add: SetBytes_def)

lemma unat_of_nat_8: "unat (of_nat x :: u8) = x mod 256"
  by (simp add: unat_of_nat)

lemma SetBytes_be_bytes: "SetBytes (be_bytes n x) = x mod 256 ^ n"
proof (induction n arbitrary: x)
  case 0
  then show ?case by (simp add: SetBytes_def)
next
  case (Suc n)
  have "x mod (256 * 256 ^ n) = 256 * (x div 256 mod 256 ^ n) + x mod 256"
    by (rule mod_mult2_eq)
  then show ?case by (simp add: Suc unat_of_nat_8)
qed

lemma SetBytes_bound: "SetBytes bs < 256 ^ length bs"
proof (induction bs rule: rev_induct)
  case (snoc b bs)
  have "unat b < 256" using unsigned_less [of b] by simp
  then have "SetBytes bs * 256 + unat b < (SetBytes bs + 1) * 256" by simp
  also have "\<dots> \<le> 256 ^ length bs * 256" using snoc by (intro mult_right_mono) simp_all
  finally show ?case by simp
qed (simp add: SetBytes_def)

lemma be_bytes_SetBytes: "be_bytes (length bs) (SetBytes bs) = bs"
proof (induction bs rule: rev_induct)
  case (snoc b bs)
  have "unat b < 256" using unsigned_less [of b] by simp
  then have "(SetBytes bs * 256 + unat b) div 256 = SetBytes bs" by simp
  moreover have "(of_nat (SetBytes bs * 256 + unat b) :: u8) = b"
  proof -
    have "unat (of_nat (SetBytes bs * 256 + unat b) :: u8) = unat b"
      using \<open>unat b < 256\<close> by (simp only: unat_of_nat_8) simp
    then show ?thesis by (rule unsigned_word_eqI)
  qed
  ultimately show ?case using snoc by simp
qed (simp add: SetBytes_def)

text \<open>\<open>hex.EncodeToString\<close> and the bytes of an ASCII string.\<close>

definition hex_encode :: "bytes \<Rightarrow> string" where
  "hex_encode bs = concat (map (\<lambda>b. [digit (unat b div 16), digit (unat b mod 16)]) bs)"

definition text_bytes :: "string \<Rightarrow> bytes" where
  "text_bytes s = map (\<lambda>c. of_nat (of_char c)) s"

definition bytes_text :: "bytes \<Rightarrow> string" where
  "bytes_text b = map (\<lambda>x. char_of (unat x)) b"

lemma bytes_text_text_bytes [simp]: "bytes_text (text_bytes s) = s"
proof -
  have "unat (of_nat (of_char c) :: u8) = of_char c" for c :: char
    by (simp add: unsigned_of_nat take_bit_nat_eq_self)
  then show ?thesis by (simp add: bytes_text_def text_bytes_def o_def)
qed

lemma length_text_bytes [simp]: "length (text_bytes s) = length s"
  by (simp add: text_bytes_def)

lemma length_text_nat_mono: "2 \<le> b \<Longrightarrow> m \<le> n \<Longrightarrow> length (text_nat b m) \<le> length (text_nat b n)"
proof (induction b n arbitrary: m rule: text_nat.induct)
  case (1 b n)
  show ?case
  proof (cases "m < b")
    case True
    then have "length (text_nat b m) = 1" by (simp add: text_nat.simps)
    then show ?thesis using text_nat_nonempty [OF 1(2), of n] by (simp add: Suc_leI)
  next
    case False
    then have "\<not> (n < b \<or> b < 2)" using 1(2,3) by simp
    moreover have "m div b \<le> n div b" using 1(3) by (rule div_le_mono)
    ultimately show ?thesis
      using 1(1) [OF _ 1(2)] False 1(2) by (simp add: text_nat.simps [of b m] text_nat.simps [of b n])
  qed
qed

section \<open>Strings\<close>

definition HasSuffix :: "string \<Rightarrow> string \<Rightarrow> bool" where
  "HasSuffix s t \<longleftrightarrow> length t \<le> length s \<and> drop (length s - length t) s = t"

definition HasPrefix :: "string \<Rightarrow> string \<Rightarrow> bool" where
  "HasPrefix s t \<longleftrightarrow> take (length t) s = t"

fun Contains :: "string \<Rightarrow> string \<Rightarrow> bool" where
  "Contains [] t \<longleftrightarrow> t = []"
| "Contains (c # s) t \<longleftrightarrow> HasPrefix (c # s) t \<or> Contains s t"

text \<open>\<open>strings.ReplaceAll\<close> for a non-empty \<open>old\<close>.\<close>

function ReplaceAll :: "string \<Rightarrow> string \<Rightarrow> string \<Rightarrow> string" where
  "ReplaceAll s old new =
     (if s = [] then []
      else if old \<noteq> [] \<and> HasPrefix s old then new @ ReplaceAll (drop (length old) s) old new
      else hd s # ReplaceAll (tl s) old new)"
  by pat_completeness auto
termination
  by (relation "measure (\<lambda>(s, old, new). length s)") auto

declare ReplaceAll.simps [simp del]

lemma Contains_iff: "Contains s t \<longleftrightarrow> (\<exists>a b. s = a @ t @ b)"
proof (induction s)
  case (Cons c s)
  have "HasPrefix (c # s) t \<longleftrightarrow> (\<exists>b. c # s = t @ b)"
    unfolding HasPrefix_def by (metis append_eq_conv_conj append_take_drop_id)
  then show ?case
    using Cons by (auto simp: Cons_eq_append_conv)
qed simp

definition TrimPrefix :: "string \<Rightarrow> string \<Rightarrow> string" where
  "TrimPrefix s p = (if HasPrefix s p then drop (length p) s else s)"

text \<open>\<open>strings.Split\<close> by a one-character separator, and \<open>strings.Join\<close>.\<close>

fun split_char :: "char \<Rightarrow> string \<Rightarrow> string list" where
  "split_char d [] = [[]]"
| "split_char d (c # cs) =
     (if c = d then [] # split_char d cs
      else case split_char d cs of [] \<Rightarrow> [[c]] | w # ws \<Rightarrow> (c # w) # ws)"

fun join :: "char \<Rightarrow> string list \<Rightarrow> string" where
  "join d [] = []"
| "join d [w] = w"
| "join d (w # v # ws) = w @ d # join d (v # ws)"

text \<open>\<open>strconv.Atoi\<close>: decimal, with an optional sign, in the range of a 64-bit \<open>int\<close>.\<close>

definition Atoi :: "string \<Rightarrow> int option" where
  "Atoi s =
     (case (SetString s 10 :: (unit, int option) outcome) of
        Ret (Some n) \<Rightarrow> if - (2 ^ 63) \<le> n \<and> n < 2 ^ 63 then Some n else None
      | _ \<Rightarrow> None)"

lemma split_char_none: "d \<notin> set w \<Longrightarrow> split_char d w = [w]"
  by (induction w) auto

lemma split_char_first: "d \<notin> set w \<Longrightarrow> split_char d (w @ d # s) = w # split_char d s"
  by (induction w) auto

lemma split_join: "ws \<noteq> [] \<Longrightarrow> list_all (\<lambda>w. d \<notin> set w) ws \<Longrightarrow> split_char d (join d ws) = ws"
  by (induction d ws rule: join.induct) (auto simp: split_char_none split_char_first)

lemma join_inject:
  assumes "join d ws = join d vs" "list_all (\<lambda>w. d \<notin> set w \<and> w \<noteq> []) ws" "list_all (\<lambda>w. d \<notin> set w \<and> w \<noteq> []) vs"
  shows "ws = vs"
proof -
  have nil: "join d us = [] \<longleftrightarrow> us = []" if "list_all (\<lambda>w. d \<notin> set w \<and> w \<noteq> []) us" for us
    using that by (cases "(d, us)" rule: join.cases) auto
  have "split_char d (join d us) = us" if "us \<noteq> []" "list_all (\<lambda>w. d \<notin> set w \<and> w \<noteq> []) us" for us
    using that by (auto intro!: split_join simp: list_all_iff)
  then show ?thesis using assms nil by metis
qed

section \<open>Minimal big-endian bytes\<close>

text \<open>\<open>big.Int.Bytes\<close>: the magnitude without leading zeroes.\<close>

function big_bytes :: "nat \<Rightarrow> bytes" where
  "big_bytes n = (if n = 0 then [] else big_bytes (n div 256) @ [of_nat n])"
  by pat_completeness auto
termination
  by (relation "measure id") auto

declare big_bytes.simps [simp del]

lemma big_bytes_0 [simp]: "big_bytes 0 = []"
  by (simp add: big_bytes.simps)

lemma SetBytes_big_bytes [simp]: "SetBytes (big_bytes n) = n"
proof (induction n rule: big_bytes.induct)
  case (1 n)
  show ?case
  proof (cases "n = 0")
    case True
    then show ?thesis by (simp add: SetBytes_def)
  next
    case False
    then show ?thesis using 1 by (subst big_bytes.simps) (simp add: unat_of_nat_8)
  qed
qed

lemma length_big_bytes: "length (big_bytes n) \<le> k \<longleftrightarrow> n < 256 ^ k"
proof (induction k arbitrary: n)
  case 0
  then show ?case by (cases "n = 0") (simp_all add: big_bytes.simps [of n])
next
  case (Suc k)
  have "n < 256 ^ Suc k \<longleftrightarrow> n div 256 < 256 ^ k"
    by (simp add: div_less_iff_less_mult mult.commute)
  then show ?case
    using Suc [of "n div 256"] by (cases "n = 0") (simp_all add: big_bytes.simps [of n])
qed

end
