(* ===== verification/TokenId.thy ===== *)
theory TokenId
  imports GoText
begin

text \<open>
  Token IDs (\<open>go/erc721/tokenid.go\<close>): 32-byte arrays in big-endian order. The package
  \<open>github.com/holiman/uint256\<close> is not part of the repository: its functions are the
  record \<open>uint256_api\<close>, an argument of every definition that calls them, and
  \<open>uint256_ok\<close> states what its documentation promises of them.
\<close>

section \<open>The package uint256\<close>

record 'u uint256_api =
  FromBig :: "int \<Rightarrow> 'u \<times> bool"
  Bytes32 :: "'u \<Rightarrow> bytes"
  FromHex :: "string \<Rightarrow> string + 'u"
  NewInt :: "u64 \<Rightarrow> 'u"

text \<open>
  \<open>FromBig\<close> reduces modulo \<open>2^256\<close> and reports whether the magnitude does not fit;
  \<open>Bytes32\<close> is the big-endian representation in 32 bytes.
\<close>

definition uint256_ok :: "'u uint256_api \<Rightarrow> bool" where
  "uint256_ok api \<longleftrightarrow>
     (\<forall>b. snd (FromBig api b) \<longleftrightarrow> 2 ^ 256 \<le> \<bar>b\<bar>) \<and>
     (\<forall>b. Bytes32 api (fst (FromBig api b)) = be_bytes 32 (nat (b mod 2 ^ 256))) \<and>
     (\<forall>u. Bytes32 api (NewInt api u) = be_bytes 32 (unat u))"

text \<open>An instance that satisfies the promises: 256-bit words.\<close>

definition word256_api :: "256 word uint256_api" where
  "word256_api =
     \<lparr>FromBig = (\<lambda>b. (word_of_int b, 2 ^ 256 \<le> \<bar>b\<bar>)), Bytes32 = (\<lambda>u. be_bytes 32 (unat u)),
      FromHex = (\<lambda>s. Inl ''unsupported''), NewInt = (\<lambda>u. ucast u)\<rparr>"

lemma word256_ok: "uint256_ok word256_api"
proof -
  have "unat (word_of_int b :: 256 word) = nat (b mod 2 ^ 256)" for b
    by (simp add: unsigned_of_int take_bit_eq_mod)
  moreover have "unat (ucast (u :: u64) :: 256 word) = unat u" for u
    by (simp add: unsigned_ucast_eq take_bit_nat_eq_self unsigned_less [THEN less_le_trans])
  ultimately show ?thesis
    by (simp add: uint256_ok_def word256_api_def)
qed

section \<open>Token IDs\<close>

type_synonym token_id = bytes

datatype token_error = OverflowsUint256 int | HexError string

definition Big :: "token_id \<Rightarrow> int" where
  "Big tid = int (SetBytes tid)"

definition Uint256 :: "'u uint256_api \<Rightarrow> token_id \<Rightarrow> 'u" where
  "Uint256 api tid = fst (FromBig api (Big tid))"

definition Cmp :: "token_id \<Rightarrow> token_id \<Rightarrow> int" where
  "Cmp tid oID = (if Big tid < Big oID then - 1 else if Big tid = Big oID then 0 else 1)"

definition TokenID_Text :: "token_id \<Rightarrow> int \<Rightarrow> string" where
  "TokenID_Text tid base = Text (Big tid) base"

definition TokenID_String :: "token_id \<Rightarrow> string" where
  "TokenID_String tid = TokenID_Text tid 10"

definition TokenIDFromUint256 :: "'u uint256_api \<Rightarrow> 'u \<Rightarrow> token_id" where
  "TokenIDFromUint256 api u = Bytes32 api u"

definition TokenIDFromBig :: "'u uint256_api \<Rightarrow> int \<Rightarrow> (token_error, token_id) outcome" where
  "TokenIDFromBig api b =
     (case FromBig api b of (u, overflow) \<Rightarrow>
        if overflow then Fail (OverflowsUint256 b) else Ret (TokenIDFromUint256 api u))"

definition TokenIDFromHex :: "'u uint256_api \<Rightarrow> string \<Rightarrow> (token_error, token_id) outcome" where
  "TokenIDFromHex api h =
     (case FromHex api h of Inl e \<Rightarrow> Fail (HexError e) | Inr u \<Rightarrow> Ret (TokenIDFromUint256 api u))"

definition TokenIDFromUint64 :: "'u uint256_api \<Rightarrow> u64 \<Rightarrow> token_id" where
  "TokenIDFromUint64 api u = TokenIDFromUint256 api (NewInt api u)"

text \<open>\<open>uint64(i)\<close> of a negative \<open>int\<close> wraps around.\<close>

definition TokenIDFromInt :: "'u uint256_api \<Rightarrow> int \<Rightarrow> token_id" where
  "TokenIDFromInt api i = TokenIDFromUint256 api (NewInt api (word_of_int i))"

section \<open>Facts\<close>

lemma pow_256: "(256::nat) ^ 32 = 2 ^ 256"
  by simp

lemma Big_bound: "length tid = 32 \<Longrightarrow> 0 \<le> Big tid \<and> Big tid < 2 ^ 256"
  using SetBytes_bound [of tid] by (simp add: Big_def)

lemma Big_be_bytes: "int x < 2 ^ 256 \<Longrightarrow> Big (be_bytes 32 x) = int x"
proof -
  assume "int x < 2 ^ 256"
  then have "x < 256 ^ 32" by (simp add: pow_256)
  then show ?thesis by (simp only: Big_def SetBytes_be_bytes mod_less)
qed

lemma Big_inj: "length a = 32 \<Longrightarrow> length b = 32 \<Longrightarrow> Big a = Big b \<Longrightarrow> a = b"
  using be_bytes_SetBytes [of a] be_bytes_SetBytes [of b] by (simp add: Big_def)

lemma TokenIDFromBig_eq:
  assumes "uint256_ok api"
  shows "TokenIDFromBig api b =
     (if 2 ^ 256 \<le> \<bar>b\<bar> then Fail (OverflowsUint256 b) else Ret (be_bytes 32 (nat (b mod 2 ^ 256))))"
  using assms unfolding uint256_ok_def TokenIDFromBig_def TokenIDFromUint256_def
  by (metis (mono_tags, lifting) prod.case_eq_if)

section \<open>Properties\<close>

text \<open>
  Token IDs and numbers correspond: every number that fits in 256 bits has a token ID with
  that number, and every token ID is the one of its number; a number of larger magnitude is
  refused; a negative one is not refused but becomes the ID of \<open>2^256 + b\<close>.
\<close>

theorem TokenID_roundtrip:
  assumes "uint256_ok api" and "length tid = 32"
  shows "TokenIDFromBig api (Big tid) = Ret tid \<and>
         (\<forall>b. 0 \<le> b \<and> b < 2 ^ 256 \<longrightarrow>
            (\<exists>t. TokenIDFromBig api b = Ret t \<and> length t = 32 \<and> Big t = b)) \<and>
         (\<forall>b. - (2 ^ 256) < b \<and> b < 0 \<longrightarrow>
            (\<exists>t. TokenIDFromBig api b = Ret t \<and> Big t = 2 ^ 256 + b)) \<and>
         (\<forall>b. 2 ^ 256 \<le> \<bar>b\<bar> \<longrightarrow> TokenIDFromBig api b = Fail (OverflowsUint256 b))"
proof -
  have "\<bar>Big tid\<bar> < 2 ^ 256" "Big tid mod 2 ^ 256 = Big tid"
    using Big_bound [OF assms(2)] by simp_all
  then have "TokenIDFromBig api (Big tid) = Ret (be_bytes 32 (SetBytes tid))"
    by (simp add: TokenIDFromBig_eq [OF assms(1)] Big_def)
  then have 1: "TokenIDFromBig api (Big tid) = Ret tid"
    using be_bytes_SetBytes [of tid] assms(2) by simp
  have val: "\<exists>t. TokenIDFromBig api b = Ret t \<and> length t = 32 \<and> Big t = b mod 2 ^ 256" if "\<bar>b\<bar> < 2 ^ 256" for b
  proof -
    have "b mod 2 ^ 256 < 2 ^ 256" "0 \<le> b mod 2 ^ 256" by simp_all
    then have "Big (be_bytes 32 (nat (b mod 2 ^ 256))) = b mod 2 ^ 256"
      by (subst Big_be_bytes) simp_all
    then show ?thesis using that by (simp add: TokenIDFromBig_eq [OF assms(1)])
  qed
  have neg: "b mod 2 ^ 256 = 2 ^ 256 + b" if "- (2 ^ 256) < b" "b < 0" for b :: int
  proof -
    have "b mod 2 ^ 256 = (b + 2 ^ 256) mod 2 ^ 256" by (rule mod_add_self2 [symmetric])
    also have "\<dots> = b + 2 ^ 256" using that by (intro mod_pos_pos_trivial) linarith+
    finally show ?thesis by simp
  qed
  have "\<exists>t. TokenIDFromBig api b = Ret t \<and> length t = 32 \<and> Big t = b" if "0 \<le> b" "b < 2 ^ 256" for b
    using val [of b] that by simp
  moreover have "\<exists>t. TokenIDFromBig api b = Ret t \<and> Big t = 2 ^ 256 + b" if "- (2 ^ 256) < b" "b < 0" for b
    using val [of b] neg [OF that] that by auto
  moreover have "TokenIDFromBig api b = Fail (OverflowsUint256 b)" if "2 ^ 256 \<le> \<bar>b\<bar>" for b
    using that by (simp only: TokenIDFromBig_eq [OF assms(1)] if_True)
  ultimately show ?thesis using 1 by blast
qed

theorem TokenID_roundtrip_witness:
  "TokenIDFromBig word256_api (Big (replicate 31 0 @ [7])) = Ret (replicate 31 0 @ [7])"
  using TokenID_roundtrip [OF word256_ok, of "replicate 31 0 @ [7]"] by simp

text \<open>\<open>Cmp\<close> is a linear order on token IDs.\<close>

lemma Cmp_order:
  assumes "length a = 32" "length b = 32"
  shows "Cmp a b = 0 \<longleftrightarrow> a = b" "Cmp a b = - Cmp b a"
    "Cmp a b = - 1 \<Longrightarrow> Cmp b c = - 1 \<Longrightarrow> Cmp a c = - 1"
  using Big_inj [OF assms] by (auto simp: Cmp_def split: if_splits)

end
