(* ===== verification/Erc721Server.thy ===== *)
theory Erc721Server
  imports TokenId HttpErr
begin

text \<open>
  The HTTP server for token metadata and images (\<open>go/erc721/server.go\<close>). The contract
  binding, the user's handlers, the JSON encoder, the printing of URLs, the text formatting
  of \<open>fmt\<close> and the hash function are arguments: the record \<open>env\<close> and the fields of the
  server. A call that dereferences nil panics.
\<close>

section \<open>Metadata\<close>

datatype attr_value = VString string | VOther string

record attribute =
  TraitType :: string
  Value :: attr_value
  DisplayType :: int

record metadata =
  Name :: string
  Description :: string
  Image :: string
  AnimationURL :: string
  ExternalURL :: string
  CollectionName :: string
  Attributes :: "attribute list"

section \<open>The server\<close>

text \<open>What the server calls outside the repository.\<close>

record 'u env =
  uint256 :: "'u uint256_api"
  sprintf :: "string \<Rightarrow> string list \<Rightarrow> string"
  json_marshal :: "metadata \<Rightarrow> string + string"
  url_string :: "string \<Rightarrow> string \<Rightarrow> string"
  keccak256 :: hash

text \<open>
  The parameters a route matched. A handler gets the token, the request and the
  parameters; it returns data (a nil pointer is \<open>None\<close>), a code and an error. A reader is the
  data it delivers and the error it ends with.
\<close>

type_synonym params = "(string \<times> string) list"
type_synonym reader = "string \<times> string option"
type_synonym 'q metadata_handler = "token_id \<Rightarrow> 'q \<Rightarrow> params \<Rightarrow> metadata option \<times> int \<times> string option"
type_synonym 'q token_data = "token_id \<Rightarrow> 'q \<Rightarrow> params \<Rightarrow> reader option \<times> string \<times> int \<times> string option"

text \<open>\<open>Contract\<close> is whether \<open>ownerOf\<close> succeeds for a token; nil when no contract is bound.\<close>

record 'q server =
  BaseURL :: string
  TokenIDBase :: int
  Contract :: "(int \<Rightarrow> bool) option"
  Metadata :: "(string \<times> 'q metadata_handler) list"
  Images :: "(string \<times> 'q token_data option) list"

definition TokenIDParam :: string where
  "TokenIDParam = ''tokenId''"

definition fullTokenIDParam :: string where
  "fullTokenIDParam = '':'' @ TokenIDParam"

definition tokenIDBase :: "'q server \<Rightarrow> int" where
  "tokenIDBase s = (if TokenIDBase s = 0 then 10 else TokenIDBase s)"

definition ByName :: "params \<Rightarrow> string \<Rightarrow> string" where
  "ByName ps n = (case map_of ps n of Some v \<Rightarrow> v | None \<Rightarrow> [])"

datatype id_error = NoParam | NotParsed string int | IDOverflows int

definition tokenID ::
  "'u env \<Rightarrow> 'q server \<Rightarrow> params \<Rightarrow> (id_error, token_id option) outcome" where
  "tokenID env s ps =
     (let rawID = ByName ps TokenIDParam; base = tokenIDBase s in
      if rawID = [] then Fail NoParam
      else obind (SetString rawID base) (\<lambda>i.
        case i of
          None \<Rightarrow> Fail (NotParsed rawID base)
        | Some n \<Rightarrow>
            (case Contract s of
               Some ownerOf \<Rightarrow> if ownerOf n then map_fail (\<lambda>_. IDOverflows n) (obind (TokenIDFromBig (uint256 env) n) (\<lambda>t. Ret (Some t)))
                               else Ret None
             | None \<Rightarrow> map_fail (\<lambda>_. IDOverflows n) (obind (TokenIDFromBig (uint256 env) n) (\<lambda>t. Ret (Some t))))))"

definition errorf :: "int \<Rightarrow> string \<Rightarrow> go_error option" where
  "errorf c formatted = (if c = 200 then None else Some (HttpError c formatted))"

definition httpErrHandler ::
  "hash \<Rightarrow> response \<Rightarrow> go_error option \<Rightarrow> (unit, response) outcome" where
  "httpErrHandler keccak w err =
     (let obf = (\<lambda>m. ''see log: '' @ hex (take 8 (keccak m))) in
      case err of
        None \<Rightarrow> Ret w
      | Some (HttpError c m) \<Rightarrow>
          if c = 400 \<or> c = 404 then http_Error w m c else http_Error w (obf m) c
      | Some (OtherError m) \<Rightarrow> http_Error w (obf m) 500)"

definition id_error_text :: "'u env \<Rightarrow> id_error \<Rightarrow> string" where
  "id_error_text env e =
     (case e of
        NoParam \<Rightarrow> sprintf env ''no %q param'' [TokenIDParam]
      | NotParsed raw b \<Rightarrow> sprintf env ''token ID %q not parsed in base %d'' [raw, Text b 10]
      | IDOverflows n \<Rightarrow> sprintf env ''%T %v overflows uint256'' [''*big.Int'', Text n 10])"

text \<open>\<open>io.Copy(w, body)\<close>: what was read is written before an error is returned.\<close>

definition tokenDataHandler ::
  "'u env \<Rightarrow> 'q server \<Rightarrow> string \<Rightarrow> 'q token_data option \<Rightarrow> response \<Rightarrow> 'q \<Rightarrow> params \<Rightarrow>
   (unit, response \<times> go_error option) outcome" where
  "tokenDataHandler env s fnName fn w r ps =
     (case fn of
        None \<Rightarrow> Ret (w, errorf 400 (sprintf env ''unsupported method %s'' [fnName]))
      | Some f \<Rightarrow>
          (case tokenID env s ps of
             Panic \<Rightarrow> Panic
           | Fail e \<Rightarrow> Ret (w, errorf 500 (sprintf env ''%T.tokenID(%+v): %v'' [id_error_text env e]))
           | Ret None \<Rightarrow> Ret (w, errorf 404 (sprintf env ''token %q not minted'' [ByName ps TokenIDParam]))
           | Ret (Some tid) \<Rightarrow>
               (case f tid r ps of (bod, contentType, c, err) \<Rightarrow>
                  case err of
                    Some e \<Rightarrow> Ret (w, errorf 500 (sprintf env ''%s(%s): %v'' [fnName, TokenID_String tid, e]))
                  | None \<Rightarrow>
                      if c = 400 \<or> c = 404 \<or> c = 500 then Ret (w, errorf c (sprintf env ''%s'' [''%!s(<nil>)'']))
                      else if c \<noteq> 200 then Ret (w, errorf 500 (sprintf env ''unsupported code %d returned by %s(%s)''
                             [Text c 10, fnName, TokenID_String tid]))
                      else let w' = w\<lparr>content_type := Some contentType\<rparr> in
                        case bod of
                          None \<Rightarrow> Panic
                        | Some (data, None) \<Rightarrow> Ret (write_body w' data, None)
                        | Some (data, Some e) \<Rightarrow>
                            Ret (if data = [] then w' else write_body w' data,
                                 errorf 500 (sprintf env ''io.Copy([http response], [%s data]): %v'' [fnName, e])))))"

text \<open>The data function of \<open>metadata\<close>, which fills in the address of the token's image.\<close>

definition image_url :: "'u env \<Rightarrow> 'q server \<Rightarrow> token_id \<Rightarrow> string" where
  "image_url env s tid =
     url_string env (BaseURL s)
       (ReplaceAll (fst (hd (Images s))) fullTokenIDParam (TokenID_Text tid (tokenIDBase s)))"

text \<open>
  The source dereferences the metadata as soon as the handler returned no error, whatever the
  code; a nil pointer there panics. The code is not looked at: the data goes out with 200.
\<close>

definition metadata_data ::
  "'u env \<Rightarrow> 'q server \<Rightarrow> 'q metadata_handler \<Rightarrow> token_id \<Rightarrow> 'q \<Rightarrow> params \<Rightarrow>
   (unit, reader option \<times> string \<times> int \<times> string option) outcome" where
  "metadata_data env s handler tid r ps =
     (case handler tid r ps of (md, c, err) \<Rightarrow>
        case err of
          Some e \<Rightarrow> Ret (None, [], c, Some e)
        | None \<Rightarrow>
            (case md of
               None \<Rightarrow> Panic
             | Some m \<Rightarrow>
                 let m' = (if Image m = [] \<and> Images s \<noteq> [] \<and> AnimationURL m = []
                           then m\<lparr>Image := image_url env s tid\<rparr> else m)
                 in case json_marshal env m' of
                      Inl e \<Rightarrow> Ret (None, [], 500, Some (sprintf env ''json.Marshal(%T = %+v): %v'' [e]))
                    | Inr buf \<Rightarrow> Ret (Some (buf, None), ''application/json'', 200, None)))"

text \<open>
  A panic of the data function is a panic of the handler that calls it: the result put in its
  place (code 200 with a nil body) panics there.
\<close>

definition metadata_handle ::
  "'u env \<Rightarrow> 'q server \<Rightarrow> 'q metadata_handler \<Rightarrow> response \<Rightarrow> 'q \<Rightarrow> params \<Rightarrow> (unit, response) outcome" where
  "metadata_handle env s handler w r ps =
     (let fn = (\<lambda>tid r ps. case metadata_data env s handler tid r ps of
                   Ret x \<Rightarrow> x | _ \<Rightarrow> (None, [], 200, None))
      in obind (tokenDataHandler env s ''Metadata'' (Some fn) w r ps) (\<lambda>(w', err).
           httpErrHandler (keccak256 env) w' err))"

definition images_handle ::
  "'u env \<Rightarrow> 'q server \<Rightarrow> 'q token_data option \<Rightarrow> response \<Rightarrow> 'q \<Rightarrow> params \<Rightarrow> (unit, response) outcome" where
  "images_handle env s handler w r ps =
     obind (tokenDataHandler env s ''Image'' handler w r ps) (\<lambda>(w', err).
       httpErrHandler (keccak256 env) w' err)"

text \<open>
  \<open>Handler\<close>: every path must contain the parameter; the checks run in an order of the map
  \<open>paths\<close>, so which offending path is named depends on it. The routes in the order they are
  added; \<open>True\<close> marks metadata.
\<close>

definition Handler ::
  "'u env \<Rightarrow> (string \<times> string) list \<Rightarrow> 'q server \<Rightarrow> (string, (bool \<times> string) list) outcome" where
  "Handler env order s =
     (case find (\<lambda>(n, p). \<not> Contains p fullTokenIDParam) order of
        Some (n, p) \<Rightarrow> Fail (sprintf env ''%s.Path %q must contain %q'' [n, p, fullTokenIDParam])
      | None \<Rightarrow> Ret (map (\<lambda>(p, _). (True, p)) (Metadata s) @ map (\<lambda>(p, _). (False, p)) (Images s)))"

definition handler_paths :: "'q server \<Rightarrow> (string \<times> string) list" where
  "handler_paths s =
     map (\<lambda>(i, p). (''Metadata['' @ Text (int i) 10 @ '']'', fst p)) (enumerate 0 (Metadata s)) @
     map (\<lambda>(i, p). (''Image['' @ Text (int i) 10 @ '']'', fst p)) (enumerate 0 (Images s))"

text \<open>\<open>ListenAndServe\<close>: the routes are checked before the listener is opened; \<open>listen\<close> is the error it ends with.\<close>

definition ListenAndServe ::
  "'u env \<Rightarrow> ((bool \<times> string) list \<Rightarrow> string \<Rightarrow> string option) \<Rightarrow> 'q server \<Rightarrow> string \<Rightarrow> (string, unit) outcome" where
  "ListenAndServe env listen s addr =
     obind (Handler env (handler_paths s) s) (\<lambda>routes. case listen routes addr of Some e \<Rightarrow> Fail e | None \<Rightarrow> Ret ())"

section \<open>Facts\<close>

interpretation es: error_writer keccak "httpErrHandler keccak" "\<lambda>c. c = 400 \<or> c = 404" for keccak :: hash
  by unfold_locales (simp_all add: httpErrHandler_def Let_def)

lemma http_Error_status:
  "http_Error w m c = Ret w' \<Longrightarrow> status w' = (case status w of None \<Rightarrow> Some c | Some d \<Rightarrow> Some d)"
  by (cases "status w") (auto simp: http_Error_def write_header_def write_body_def split: if_splits)

lemma httpErrHandler_status:
  assumes "httpErrHandler k w (Some (HttpError c m)) = Ret w'"
  shows "status w' = (case status w of None \<Rightarrow> Some c | Some d \<Rightarrow> Some d)"
  using assms by (cases "c = 400 \<or> c = 404") (auto simp: httpErrHandler_def Let_def dest: http_Error_status)

lemma tokenID_unminted:
  assumes "Contract s = Some ownerOf" "(SetString (ByName ps TokenIDParam) (tokenIDBase s) :: (id_error, int option) outcome) = Ret (Some n)" "\<not> ownerOf n"
  shows "tokenID env s ps = Ret None"
proof -
  have "ByName ps TokenIDParam \<noteq> []"
    using assms(2) by (auto simp: SetString_def split: if_splits)
  then show ?thesis using assms by (simp add: tokenID_def Let_def)
qed

lemma handler_unminted:
  assumes "Contract s = Some ownerOf" "(SetString (ByName ps TokenIDParam) (tokenIDBase s) :: (id_error, int option) outcome) = Ret (Some n)" "\<not> ownerOf n"
  shows "tokenDataHandler env s fnName (Some f) w r ps =
     Ret (w, Some (HttpError 404 (sprintf env ''token %q not minted'' [ByName ps TokenIDParam])))"
  using tokenID_unminted [OF assms, of env] by (simp add: tokenDataHandler_def errorf_def)

definition sent :: "int option \<Rightarrow> bool" where
  "sent c \<longleftrightarrow> c \<in> {Some 200, Some 400, Some 404, Some 500}"

lemma tokenDataHandler_result:
  assumes "tokenDataHandler env s fnName fn fresh r ps = Ret (w, err)"
  shows "(err = None \<and> status w = Some 200) \<or>
         (\<exists>c m. err = Some (HttpError c m) \<and> c \<in> {400, 404, 500} \<and> (status w = None \<or> status w = Some 200))"
  using assms
  by (auto simp: tokenDataHandler_def errorf_def write_body_def fresh_def Let_def
      split: option.splits outcome.splits prod.splits if_splits)

lemma handled_status:
  assumes "tokenDataHandler env s fnName fn fresh r ps = Ret (w, err)" "httpErrHandler k w err = Ret w'"
  shows "sent (status w')"
  using tokenDataHandler_result [OF assms(1)]
proof
  assume "err = None \<and> status w = Some 200"
  then show ?thesis using assms(2) by (auto simp: es.nil sent_def)
next
  assume "\<exists>c m. err = Some (HttpError c m) \<and> c \<in> {400, 404, 500} \<and> (status w = None \<or> status w = Some 200)"
  then show ?thesis using assms(2) httpErrHandler_status by (auto simp: sent_def)
qed

text \<open>A token's text in the server's base is parsed to the token.\<close>

lemma tokenID_link:
  assumes "uint256_ok (uint256 env)" and "length tid = 32"
    and "2 \<le> tokenIDBase s" and "tokenIDBase s \<le> 62"
    and "case Contract s of None \<Rightarrow> True | Some ownerOf \<Rightarrow> ownerOf (Big tid)"
  shows "tokenID env s [(TokenIDParam, TokenID_Text tid (tokenIDBase s))] = Ret (Some tid)"
proof -
  let ?t = "Text (Big tid) (tokenIDBase s)"
  have set: "(SetString ?t (tokenIDBase s) :: (id_error, int option) outcome) = Ret (Some (Big tid))"
    using assms(3,4) by (rule SetString_Text)
  then have "?t \<noteq> []" by (auto simp: SetString_def split: if_splits)
  have "\<bar>Big tid\<bar> < 2 ^ 256" "Big tid mod 2 ^ 256 = Big tid"
    using Big_bound [OF assms(2)] by simp_all
  then have from_big: "TokenIDFromBig (uint256 env) (Big tid) = Ret tid"
    using be_bytes_SetBytes [of tid] assms(2) by (simp add: TokenIDFromBig_eq [OF assms(1)]) (simp add: Big_def)
  show ?thesis
    using assms(5) set \<open>?t \<noteq> []\<close> from_big
    by (cases "Contract s") (simp_all add: tokenID_def Let_def ByName_def TokenID_Text_def)
qed

section \<open>Properties\<close>

text \<open>A server for the examples: tokens below 100 exist, and an error text is its format.\<close>

definition demo_env :: "256 word env" where
  "demo_env =
     \<lparr>uint256 = word256_api, sprintf = (\<lambda>f _. f), json_marshal = (\<lambda>m. Inr (Image m)),
      url_string = (\<lambda>b p. b @ p), keccak256 = (\<lambda>_. replicate 32 0)\<rparr>"

definition demo_server :: "unit server" where
  "demo_server =
     \<lparr>BaseURL = ''http://x'', TokenIDBase = 0, Contract = Some (\<lambda>n. n < 100),
      Metadata = [(''/md/:tokenId'', \<lambda>t r p. (None, 404, None))],
      Images = [(''/img/:tokenId'', Some (\<lambda>t r p. (Some (''png'', None), ''image/png'', 200, None)))]\<rparr>"

text \<open>
  C7. Nothing of an unminted token is served: when a contract is bound and \<open>ownerOf\<close> fails for the
  requested number, the response is a 404 that does not depend on the user's handler, for
  metadata and for images.
\<close>

theorem unminted_not_served:
  assumes "Contract s = Some ownerOf"
    and "(SetString (ByName ps TokenIDParam) (tokenIDBase s) :: (id_error, int option) outcome) = Ret (Some n)" and "\<not> ownerOf n"
  shows "images_handle env s (Some f) fresh r ps =
           http_Error fresh (sprintf env ''token %q not minted'' [ByName ps TokenIDParam]) 404 \<and>
         metadata_handle env s h fresh r ps =
           http_Error fresh (sprintf env ''token %q not minted'' [ByName ps TokenIDParam]) 404"
  by (simp add: images_handle_def metadata_handle_def Let_def handler_unminted [OF assms] es.shown)

theorem unminted_not_served_witness:
  "images_handle demo_env demo_server (Some (\<lambda>t r p. (Some (''secret'', None), ''image/png'', 200, None))) fresh ()
     [(''tokenId'', ''101'')] = http_Error fresh ''token %q not minted'' 404"
  using unminted_not_served [of demo_server "\<lambda>n. n < 100" "[(''tokenId'', ''101'')]" 101 demo_env]
  by (simp add: demo_server_def demo_env_def ByName_def TokenIDParam_def tokenIDBase_def
      SetString_def scan_nat_def digit_value_def Let_def)

text \<open>
  The codes a client sees. A response is 200, 400, 404 or 500. A code that a handler returns with
  an error is not propagated, as the documentation has it: it becomes 500. A metadata handler
  that returns a code with neither metadata nor an error panics the request.
\<close>

theorem handler_codes:
  "(images_handle env s fn fresh r ps = Ret w' \<longrightarrow> sent (status w')) \<and>
   (metadata_handle env s h fresh r ps = Ret w'' \<longrightarrow> sent (status w'')) \<and>
   (tokenID env s ps = Ret (Some tid) \<and> f tid r ps = (bod, ct, c, Some e) \<longrightarrow>
      images_handle env s (Some f) fresh r ps =
        httpErrHandler (keccak256 env) fresh
          (Some (HttpError 500 (sprintf env ''%s(%s): %v'' [''Image'', TokenID_String tid, e])))) \<and>
   (tokenID env s ps = Ret (Some tid) \<and> h tid r ps = (None, c, None) \<longrightarrow>
      metadata_handle env s h fresh r ps = Panic)"
proof (intro conjI impI)
  assume "images_handle env s fn fresh r ps = Ret w'"
  then show "sent (status w')"
    by (auto simp: images_handle_def outcome_simps dest: handled_status)
next
  assume "metadata_handle env s h fresh r ps = Ret w''"
  then show "sent (status w'')"
    by (auto simp: metadata_handle_def Let_def outcome_simps dest: handled_status)
next
  assume "tokenID env s ps = Ret (Some tid) \<and> f tid r ps = (bod, ct, c, Some e)"
  then show "images_handle env s (Some f) fresh r ps =
        httpErrHandler (keccak256 env) fresh
          (Some (HttpError 500 (sprintf env ''%s(%s): %v'' [''Image'', TokenID_String tid, e])))"
    by (simp add: images_handle_def tokenDataHandler_def errorf_def)
next
  assume "tokenID env s ps = Ret (Some tid) \<and> h tid r ps = (None, c, None)"
  then show "metadata_handle env s h fresh r ps = Panic"
    by (simp add: metadata_handle_def tokenDataHandler_def metadata_data_def Let_def)
qed

lemma demo_Big: "Big (replicate 31 0 @ [7]) = 7"
  by code_simp

lemma demo_tokenID: "tokenID demo_env demo_server [(''tokenId'', ''7'')] = Ret (Some (replicate 31 0 @ [7]))"
proof -
  have "digit 7 = CHR ''7''" by code_simp
  then have "TokenID_Text (replicate 31 0 @ [7]) 10 = ''7''"
    by (simp add: TokenID_Text_def demo_Big Text_def text_nat.simps)
  then show ?thesis
    using tokenID_link [of demo_env "replicate 31 0 @ [7]" demo_server] word256_ok
    by (simp add: demo_env_def demo_server_def tokenIDBase_def TokenIDParam_def demo_Big)
qed

theorem handler_codes_witness:
  "tokenID demo_env demo_server [(''tokenId'', ''7'')] = Ret (Some (replicate 31 0 @ [7])) \<and>
   metadata_handle demo_env demo_server (\<lambda>t r p. (None, 404, None)) fresh () [(''tokenId'', ''7'')] = Panic"
  using handler_codes [of demo_env demo_server None "()" "[(''tokenId'', ''7'')]" fresh
        "\<lambda>t r p. (None, 404, None)" fresh "replicate 31 0 @ [7]" "\<lambda>t r p. (None, [], 0, None)" None "[]" 404 "[]"]
    demo_tokenID
  by simp

text \<open>
  The image address that the server writes into metadata resolves: the token's text in the
  server's base, as a path parameter, is parsed to the same token.
\<close>

theorem image_link_resolves:
  assumes "uint256_ok (uint256 env)" and "length tid = 32"
    and "2 \<le> tokenIDBase s" and "tokenIDBase s \<le> 62"
    and "case Contract s of None \<Rightarrow> True | Some ownerOf \<Rightarrow> ownerOf (Big tid)"
  shows "tokenID env s [(TokenIDParam, TokenID_Text tid (tokenIDBase s))] = Ret (Some tid)"
  using assms by (rule tokenID_link)

theorem image_link_resolves_witness:
  "tokenID demo_env demo_server [(TokenIDParam, TokenID_Text (replicate 31 0 @ [7]) 10)] =
     Ret (Some (replicate 31 0 @ [7]))"
  using image_link_resolves [of demo_env "replicate 31 0 @ [7]" demo_server] word256_ok
  by (simp add: demo_env_def demo_server_def tokenIDBase_def demo_Big)

end
