(* ===== verification/Erc721.thy ===== *)
theory Erc721
  imports Erc721Server "HOL-Library.AList" "HOL-Library.List_Lexorder" "HOL-Library.Char_ord"
begin

text \<open>
  The rest of \<open>go/erc721/erc721.go\<close>: collections, the display types with their JSON form, the
  registry of servers and its attachment to a mux, and the wrapper that signs image
  addresses. Contract bindings (generated code), the client and the storage service are
  arguments.
\<close>

section \<open>Display types\<close>

definition endDisplayTypes :: int where
  "endDisplayTypes = 5"

definition display_String :: "int \<Rightarrow> string" where
  "display_String t =
     (if t = 0 then [] else if t = 1 then ''number'' else if t = 2 then ''boost_number''
      else if t = 3 then ''boost_percentage'' else if t = 4 then ''date''
      else ''erc721.OpenSeaDisplayType('' @ Text t 10 @ '')'')"

datatype display_error = UnsupportedType int | UnsupportedName string | JSONError string

text \<open>\<open>%q\<close> of a text without quotes, backslashes and control characters.\<close>

definition display_MarshalJSON :: "int \<Rightarrow> (display_error, string) outcome" where
  "display_MarshalJSON t =
     (if t = 0 then Ret []
      else if endDisplayTypes \<le> t then Fail (UnsupportedType t)
      else Ret (CHR 0x22 # display_String t @ [CHR 0x22]))"

text \<open>
  \<open>json.Unmarshal\<close> into a string: \<open>null\<close> leaves it empty, a literal without escapes is its
  contents; every other input is decoded by the argument \<open>decode\<close>.
\<close>

definition plain :: "char \<Rightarrow> bool" where
  "plain c \<longleftrightarrow> c \<noteq> CHR 0x22 \<and> c \<noteq> CHR 0x5C \<and> 32 \<le> (of_char c :: nat) \<and> (of_char c :: nat) < 127"

definition json_string :: "(string \<Rightarrow> string + string) \<Rightarrow> string \<Rightarrow> string + string" where
  "json_string decode b =
     (if b = ''null'' then Inr []
      else if 2 \<le> length b \<and> hd b = CHR 0x22 \<and> last b = CHR 0x22 \<and> list_all plain (butlast (tl b))
      then Inr (butlast (tl b))
      else decode b)"

definition display_UnmarshalJSON :: "(string \<Rightarrow> string + string) \<Rightarrow> string \<Rightarrow> (display_error, int) outcome" where
  "display_UnmarshalJSON decode b =
     (case json_string decode b of
        Inl e \<Rightarrow> Fail (JSONError e)
      | Inr s \<Rightarrow>
          if s = [] then Ret 0 else if s = ''number'' then Ret 1 else if s = ''boost_number'' then Ret 2
          else if s = ''boost_percentage'' then Ret 3 else if s = ''date'' then Ret 4
          else Fail (UnsupportedName s))"

definition attribute_String :: "('v \<Rightarrow> string) \<Rightarrow> string \<Rightarrow> 'v \<Rightarrow> string" where
  "attribute_String show_value trait v = trait @ '':'' @ show_value v"

section \<open>Collections\<close>

text \<open>The entries of the map, in the order they are stored.\<close>

definition CollectionFromMetadata :: "'u uint256_api \<Rightarrow> 'm list \<Rightarrow> (token_id \<times> 'm) list" where
  "CollectionFromMetadata api md =
     fold (\<lambda>(i, m) c. AList.update (TokenIDFromInt api (int i)) m c) (enumerate 0 md) []"

section \<open>The registry of servers\<close>

type_synonym address = bytes
type_synonym chain_address_func = "u64 \<Rightarrow> string + address"

definition AsChainAddressFunc :: "(u64 \<rightharpoonup> address) \<Rightarrow> chain_address_func" where
  "AsChainAddressFunc m = (\<lambda>chainID. case m chainID of
     None \<Rightarrow> Inl (''no address for chain '' @ Text (uint chainID) 10) | Some a \<Rightarrow> Inr a)"

text \<open>
  A bound contract: whether \<open>ownerOf\<close> succeeds, and its \<open>SupportsInterface\<close> when it has one.
\<close>

record contract =
  owner_ok :: "int \<Rightarrow> bool"
  supports :: "(bytes \<Rightarrow> bool \<times> string option) option"

type_synonym constructor = "address \<Rightarrow> string + contract"

record 'q registered =
  reg_server :: "'q server"
  chainAddrs :: "chain_address_func option"
  ctor :: constructor

datatype registry_error =
    AlreadyRegistered string
  | ContractNotNil
  | ChainIDError string
  | ChainIDTooLarge int
  | AddressError u64 string
  | ConstructorError string
  | NotERC721 bool "string option"
  | NotERC165
  | HandlerError string string

text \<open>\<open>path.Join\<close> of two elements: joined with a slash and cleaned.\<close>

fun split_on :: "char \<Rightarrow> string \<Rightarrow> string list" where
  "split_on d [] = [[]]"
| "split_on d (c # cs) =
     (if c = d then [] # split_on d cs
      else case split_on d cs of [] \<Rightarrow> [[c]] | w # ws \<Rightarrow> (c # w) # ws)"

fun clean_step :: "bool \<Rightarrow> string list \<Rightarrow> string \<Rightarrow> string list" where
  "clean_step rooted stack e =
     (if e = [] \<or> e = ''.'' then stack
      else if e = ''..'' then
        (case stack of
           [] \<Rightarrow> if rooted then [] else [e]
         | t # ts \<Rightarrow> if t = ''..'' then e # stack else ts)
      else e # stack)"

fun join_slash :: "string list \<Rightarrow> string" where
  "join_slash [] = []"
| "join_slash [w] = w"
| "join_slash (w # ws) = w @ ''/'' @ join_slash ws"

definition path_Clean :: "string \<Rightarrow> string" where
  "path_Clean p =
     (let rooted = HasPrefix p ''/'';
          stack = rev (foldl (clean_step rooted) [] (split_on CHR ''/'' p));
          out = (if rooted then ''/'' else []) @ join_slash stack
      in if out = [] then ''.'' else out)"

definition path_Join :: "string \<Rightarrow> string \<Rightarrow> string" where
  "path_Join a b =
     (if a = [] \<and> b = [] then [] else if a = [] then path_Clean b
      else if b = [] then path_Clean a else path_Clean (a @ ''/'' @ b))"

definition registerServer ::
  "constructor \<Rightarrow> (string \<times> 'q registered) list \<Rightarrow> string \<Rightarrow> 'q server \<Rightarrow> chain_address_func option \<Rightarrow>
   constructor option \<Rightarrow> (registry_error, (string \<times> 'q registered) list) outcome" where
  "registerServer newIERC721 servers prefix s addrs ct =
     (let p = (if HasSuffix prefix ''/'' then prefix else prefix @ ''/'') in
      if map_of servers p \<noteq> None then Fail (AlreadyRegistered p)
      else let s' = s\<lparr>Metadata := map (\<lambda>(q, h). (path_Join p q, h)) (Metadata s),
                      Images := map (\<lambda>(q, h). (path_Join p q, h)) (Images s)\<rparr>
           in if Contract s \<noteq> None then Fail ContractNotNil
              else Ret (AList.update p
                \<lparr>reg_server = s', chainAddrs = addrs,
                 ctor = (case ct of Some c \<Rightarrow> c | None \<Rightarrow> newIERC721)\<rparr> servers))"

text \<open>The registry at the start of the program; \<open>glog.Fatal\<close> ends it.\<close>

definition init_servers :: "(string \<times> 'q registered) list" where
  "init_servers = []"

definition MustRegisterServer ::
  "constructor \<Rightarrow> (string \<times> 'q registered) list \<Rightarrow> string \<Rightarrow> 'q server \<Rightarrow> chain_address_func option \<Rightarrow>
   constructor option \<Rightarrow> (registry_error, (string \<times> 'q registered) list) outcome" where
  "MustRegisterServer newIERC721 servers prefix s addrs ct =
     (case registerServer newIERC721 servers prefix s addrs ct of Ret servers' \<Rightarrow> Ret servers' | _ \<Rightarrow> Panic)"

text \<open>A constructor of a concrete binding, with its values seen as contracts.\<close>

definition FromConcreteConstructor :: "('t \<Rightarrow> contract) \<Rightarrow> (address \<Rightarrow> string + 't) \<Rightarrow> constructor" where
  "FromConcreteConstructor as_interface concrete = (\<lambda>addr. map_sum id as_interface (concrete addr))"

definition erc721_interface_id :: bytes where
  "erc721_interface_id = [0x80, 0xac, 0x58, 0xcd]"

text \<open>The returned address is the one that was bound; the contract is stored before it is checked.\<close>

definition bindToContract ::
  "u64 \<Rightarrow> 'q registered \<Rightarrow> (registry_error, address option \<times> 'q registered) outcome" where
  "bindToContract chainID r =
     (case chainAddrs r of
        None \<Rightarrow> Ret (None, r)
      | Some f \<Rightarrow>
          (case f chainID of
             Inl e \<Rightarrow> Fail (AddressError chainID e)
           | Inr addr \<Rightarrow>
               if addr = replicate 20 0 then Ret (None, r)
               else case ctor r addr of
                      Inl e \<Rightarrow> Fail (ConstructorError e)
                    | Inr c \<Rightarrow>
                        let r' = r\<lparr>reg_server := (reg_server r)\<lparr>Contract := Some (owner_ok c)\<rparr>\<rparr> in
                        (case supports c of
                           None \<Rightarrow> Fail NotERC165
                         | Some si \<Rightarrow>
                             (case si erc721_interface_id of (ok, err) \<Rightarrow>
                                if \<not> ok \<or> err \<noteq> None then Fail (NotERC721 ok err)
                                else Ret (Some addr, r')))))"

text \<open>A mux is the list of its patterns with their servers; a repeated pattern panics.\<close>

fun attach_loop ::
  "'u env \<Rightarrow> u64 \<Rightarrow> (string \<times> 'q registered) list \<Rightarrow> string list \<Rightarrow> (string \<times> 'q server) list \<Rightarrow>
   (registry_error, (string \<times> 'q server) list) outcome" where
  "attach_loop env chainID servers [] mux = Ret mux"
| "attach_loop env chainID servers (p # ps) mux =
     (case map_of servers p of
        None \<Rightarrow> Panic
      | Some r \<Rightarrow>
          obind (bindToContract chainID r) (\<lambda>(bound, r').
          obind (map_fail (HandlerError p) (Handler env (handler_paths (reg_server r')) (reg_server r'))) (\<lambda>_.
            if map_of mux p \<noteq> None then Panic
            else attach_loop env chainID servers ps (mux @ [(p, reg_server r')]))))"

definition AttachServers ::
  "'u env \<Rightarrow> (string \<times> 'q registered) list \<Rightarrow> string + int \<Rightarrow> (string \<times> 'q server) list \<Rightarrow>
   (registry_error, (string \<times> 'q server) list) outcome" where
  "AttachServers env servers chain mux =
     (case chain of
        Inl e \<Rightarrow> Fail (ChainIDError e)
      | Inr bigChain \<Rightarrow>
          if bigChain < 0 \<or> 2 ^ 64 \<le> bigChain then Fail (ChainIDTooLarge bigChain)
          else attach_loop env (word_of_int bigChain) servers (sort (map fst servers)) mux)"

section \<open>Signed image addresses\<close>

definition CloneShallow :: "metadata \<Rightarrow> metadata" where
  "CloneShallow md = md"

definition SignImageURL :: "(string \<Rightarrow> string + string) \<Rightarrow> metadata \<Rightarrow> string + metadata" where
  "SignImageURL sign_url md =
     (case sign_url (Image md) of Inl e \<Rightarrow> Inl e | Inr u \<Rightarrow> Inr (md\<lparr>Image := u\<rparr>))"

text \<open>A nil metadata of a source that reports success panics.\<close>

definition SignedURLImages ::
  "(string \<Rightarrow> string + string) \<Rightarrow> 'q metadata_handler \<Rightarrow> token_id \<Rightarrow> 'q \<Rightarrow> params \<Rightarrow>
   (unit, metadata option \<times> int \<times> string option) outcome" where
  "SignedURLImages sign_url src tid r ps =
     (case src tid r ps of (md, c, err) \<Rightarrow>
        if c \<noteq> 200 \<or> err \<noteq> None then Ret (None, c, err)
        else case md of
               None \<Rightarrow> Panic
             | Some m \<Rightarrow>
                 (case SignImageURL sign_url (CloneShallow m) of
                    Inl e \<Rightarrow> Ret (None, 500, Some e)
                  | Inr m' \<Rightarrow> Ret (Some m', 200, None)))"

section \<open>Facts\<close>

definition displayable :: "int \<Rightarrow> bool" where
  "displayable t \<longleftrightarrow> 0 < t \<and> t < endDisplayTypes"

definition encoded :: "int \<Rightarrow> string" where
  "encoded t = (case display_MarshalJSON t of Ret s \<Rightarrow> s | _ \<Rightarrow> [])"

lemma displayable_cases: "displayable t \<Longrightarrow> t = 1 \<or> t = 2 \<or> t = 3 \<or> t = 4"
  by (auto simp: displayable_def endDisplayTypes_def)

lemma display_plain: "displayable t \<Longrightarrow> list_all plain (display_String t)"
  by (drule displayable_cases) (auto simp: display_String_def plain_def)

lemma json_string_quoted:
  "list_all plain s \<Longrightarrow> json_string decode (CHR 0x22 # s @ [CHR 0x22]) = Inr s"
  by (simp add: json_string_def)

interpretation dt: codec encoded "display_UnmarshalJSON decode" displayable for decode
proof
  fix t
  assume t: "displayable t"
  then have "encoded t = CHR 0x22 # display_String t @ [CHR 0x22]"
    by (simp add: encoded_def display_MarshalJSON_def displayable_def)
  then show "display_UnmarshalJSON decode (encoded t) = Ret t"
    using displayable_cases [OF t] json_string_quoted [OF display_plain [OF t], of decode]
    by (auto simp: display_UnmarshalJSON_def display_String_def)
qed

lemma attach_loop_prefixes:
  "attach_loop env c servers ps mux = Ret mux' \<Longrightarrow> map fst mux' = map fst mux @ ps"
  by (induction env c servers ps mux rule: attach_loop.induct)
     (auto simp: outcome_simps split: option.splits if_splits)

text \<open>
  Attaching servers is complete and deterministic: when it succeeds, the mux has gained every
  registered prefix exactly once, in ascending order, whatever the order of the map.
\<close>

theorem AttachServers_complete:
  assumes "AttachServers env servers chain mux = Ret mux'" and "distinct (map fst servers)"
  shows "\<exists>ps. map fst mux' = map fst mux @ ps \<and> sorted ps \<and> distinct ps \<and> set ps = fst ` set servers"
  using assms attach_loop_prefixes
  by (intro exI [of _ "sort (map fst servers)"])
     (auto simp: AttachServers_def split: sum.splits if_splits)

definition demo_registered :: "unit registered" where
  "demo_registered =
     \<lparr>reg_server = demo_server\<lparr>Contract := None\<rparr>, chainAddrs = None, ctor = (\<lambda>_. Inl ''no contract'')\<rparr>"

theorem AttachServers_complete_witness:
  "\<exists>ps. map fst [(''/a/'', reg_server demo_registered), (''/b/'', reg_server demo_registered)] = ps \<and>
        sorted ps \<and> distinct ps \<and> set ps = {''/b/'', ''/a/''}"
proof -
  let ?servers = "[(''/b/'', demo_registered), (''/a/'', demo_registered)]"
  have srt: "sort (map fst ?servers) = [''/a/'', ''/b/'']" by (simp add: less_eq_char_def less_char_def)
  have ok: "find (\<lambda>(n, p). \<not> Contains p fullTokenIDParam) (handler_paths (reg_server demo_registered)) = None"
    by (simp add: handler_paths_def demo_registered_def demo_server_def fullTokenIDParam_def TokenIDParam_def
        HasPrefix_def)
  have "attach_loop demo_env 1 ?servers [''/a/'', ''/b/''] [] =
      Ret [(''/a/'', reg_server demo_registered), (''/b/'', reg_server demo_registered)]"
    using ok by (simp add: bindToContract_def Handler_def demo_registered_def)
  then have "AttachServers demo_env ?servers (Inr 1) [] =
      Ret [(''/a/'', reg_server demo_registered), (''/b/'', reg_server demo_registered)]"
    unfolding AttachServers_def srt by simp
  from AttachServers_complete [OF this] show ?thesis by simp
qed

text \<open>
  Display types survive JSON: every displayable type is decoded from its encoding, and two
  types with the same encoding are equal; the types past the last one are refused, the
  negative ones are not.
\<close>

theorem display_type_roundtrip:
  "(displayable t \<longrightarrow> obind (display_MarshalJSON t) (display_UnmarshalJSON decode) = Ret t) \<and>
   (display_MarshalJSON t = Fail (UnsupportedType t) \<longleftrightarrow> 5 \<le> t)"
proof -
  have "obind (display_MarshalJSON t) (display_UnmarshalJSON decode) = Ret t" if "displayable t"
    using dt.dec_enc [OF that] that
    by (simp add: encoded_def display_MarshalJSON_def displayable_def)
  then show ?thesis by (simp add: display_MarshalJSON_def endDisplayTypes_def)
qed

theorem display_type_roundtrip_witness:
  "obind (display_MarshalJSON 3) (display_UnmarshalJSON (\<lambda>_. Inl [])) = Ret 3"
  using display_type_roundtrip [of 3 "\<lambda>_. Inl []"] by (simp add: displayable_def endDisplayTypes_def)

end
