(* ===== verification/Float64.thy ===== *)
theory Float64
  imports Complex_Main
begin

text \<open>
  Floating-point numbers of 64 bits: a finite one is the real number that it stands for, and an operation is the exact one followed by a
  rounding to 53 significant bits, to nearest with ties to even. Exponents are not bounded: the numbers that the modelled code computes from counts stay far from
  the ends of the range. A relative error is a factor, so that errors multiply along a computation and sums of non-negative numbers keep them.
\<close>

section \<open>Rounding\<close>

text \<open>To the nearest integer, and to the even one of two.\<close>

definition round_even :: "real \<Rightarrow> int" where
  "round_even y =
     (let f = \<lfloor>y\<rfloor>; d = y - of_int f in
      if d < 1 / 2 then f else if 1 / 2 < d then f + 1 else if even f then f else f + 1)"

text \<open>To 53 significant bits.\<close>

definition rnd :: "real \<Rightarrow> real" where
  "rnd x =
     (if x = 0 then 0
      else let e = \<lfloor>log 2 \<bar>x\<bar>\<rfloor> in
        of_int (round_even (x * 2 powr of_int (52 - e))) * 2 powr of_int (e - 52))"

lemma round_even_error: "\<bar>of_int (round_even y) - y\<bar> \<le> 1 / 2"
proof -
  have "of_int \<lfloor>y\<rfloor> \<le> y" "y < of_int \<lfloor>y\<rfloor> + 1" by linarith+
  then show ?thesis by (auto simp: round_even_def Let_def)
qed

lemma round_even_int [simp]: "round_even (of_int k) = k"
  by (simp add: round_even_def)

lemma round_even_le: "y \<le> of_int k \<Longrightarrow> round_even y \<le> k"
proof (cases "y = of_int k")
  case False
  assume "y \<le> of_int k"
  with False have "\<lfloor>y\<rfloor> < k" by (simp add: floor_less_iff)
  moreover have "round_even y \<le> \<lfloor>y\<rfloor> + 1" by (simp add: round_even_def Let_def)
  ultimately show ?thesis by simp
qed simp

text \<open>The relative error of a rounding; integers up to 2^53 are exact.\<close>

lemma rnd_error: "\<bar>rnd x - x\<bar> \<le> \<bar>x\<bar> / 2 ^ 53"
proof (cases "x = 0")
  case False
  define e where "e = \<lfloor>log 2 \<bar>x\<bar>\<rfloor>"
  define s :: real where "s = 2 powr (52 - of_int e)"
  have s: "0 < s" by (simp add: s_def)
  have inv: "2 powr (of_int e - 52) = 1 / s"
    unfolding s_def by (simp add: powr_diff divide_simps)
  have "2 powr of_int e \<le> \<bar>x\<bar>"
    using False by (simp add: e_def powr_le_iff)
  then have big: "1 / s \<le> \<bar>x\<bar> / 2 ^ 52"
    unfolding s_def by (simp add: powr_diff powr_realpow [symmetric] divide_simps)
  have "rnd x - x = (of_int (round_even (x * s)) - x * s) / s"
    using False s by (simp add: rnd_def Let_def e_def [symmetric] s_def [symmetric] inv diff_divide_distrib)
  also have "\<bar>\<dots>\<bar> \<le> (1 / 2) / s"
    using divide_right_mono [OF round_even_error [of "x * s"], of s] s by (simp add: abs_divide)
  also have "\<dots> \<le> \<bar>x\<bar> / 2 ^ 53" using big by (simp add: field_simps)
  finally show ?thesis .
qed (simp add: rnd_def)

lemma rnd_nat: "n \<le> 2 ^ 53 \<Longrightarrow> rnd (real n) = real n"
proof (cases "n = 0")
  case False
  assume n: "n \<le> 2 ^ 53"
  define e where "e = \<lfloor>log 2 (real n)\<rfloor>"
  have "0 \<le> e" using False by (simp add: e_def)
  have "log 2 (real n) \<le> log 2 (2 ^ 53)" using n False by (subst log_le_cancel_iff) auto
  moreover have "log 2 (2 ^ 53 :: real) = 53" using log_pow_cancel [of 2 53] by simp
  ultimately have e: "e \<le> 53" unfolding e_def by linarith
  have "\<exists>k::int. real n * 2 powr of_int (52 - e) = of_int k"
  proof (cases "e \<le> 52")
    case True
    then have "2 powr of_int (52 - e) = (2 :: real) ^ nat (52 - e)"
      using powr_realpow [of 2 "nat (52 - e)"] by simp
    then show ?thesis by (intro exI [of _ "int n * 2 ^ nat (52 - e)"]) simp
  next
    case False
    then have e53: "e = 53" using e by simp
    then have "53 \<le> log 2 (real n)" unfolding e_def by (metis le_floor_iff of_int_numeral order_refl)
    then have "2 ^ 53 \<le> real n" using \<open>n \<noteq> 0\<close> by (simp add: le_log_iff powr_realpow [symmetric])
    then have "n = 2 ^ 53" using n by (metis le_antisym numeral_power_le_of_nat_cancel_iff of_nat_numeral)
    then show ?thesis by (intro exI [of _ "2 ^ 52"]) (simp add: e53 powr_minus divide_simps)
  qed
  then obtain k :: int where k: "real n * 2 powr of_int (52 - e) = of_int k" by blast
  then have "rnd (real n) = of_int k * 2 powr of_int (e - 52)"
    using False by (simp add: rnd_def Let_def e_def [symmetric])
  also have "\<dots> = real n" unfolding k [symmetric] by (simp add: powr_add [symmetric])
  finally show ?thesis .
qed (simp add: rnd_def)

lemma rnd_le_1: "0 < x \<Longrightarrow> x \<le> 1 \<Longrightarrow> rnd x \<le> 1"
proof (cases "x = 1")
  case True
  then show ?thesis using rnd_nat [of 1] by simp
next
  case False
  assume x: "0 < x" "x \<le> 1"
  define e where "e = \<lfloor>log 2 x\<rfloor>"
  have "log 2 x < 0" using x False by simp
  then have e: "e + 1 \<le> 0" unfolding e_def by linarith
  have "log 2 x < of_int (e + 1)" unfolding e_def by linarith
  then have "x < 2 powr of_int (e + 1)" using x by (simp add: log_less_iff)
  then have "x * 2 powr of_int (52 - e) \<le> 2 powr of_int (e + 1) * 2 powr of_int (52 - e)" by simp
  also have "\<dots> = of_int (2 ^ 53)" by (simp add: powr_add [symmetric])
  finally have "round_even (x * 2 powr of_int (52 - e)) \<le> 2 ^ 53" by (rule round_even_le)
  then have "real_of_int (round_even (x * 2 powr of_int (52 - e))) \<le> 2 ^ 53"
    by (metis of_int_le_iff of_int_numeral of_int_power)
  then have "rnd x \<le> 2 ^ 53 * 2 powr of_int (e - 52)"
    using x by (simp add: rnd_def Let_def e_def [symmetric])
  also have "\<dots> = 2 powr of_int (e + 1)" by (simp add: powr_diff powr_add divide_simps)
  also have "\<dots> \<le> 2 powr 0" using e by (intro powr_mono) simp_all
  finally show ?thesis by simp
qed

section \<open>Relative errors\<close>

text \<open>A computed number is near an exact one when they differ by a factor of at most \<open>c\<close>.\<close>

definition near :: "real \<Rightarrow> real \<Rightarrow> real \<Rightarrow> bool" where
  "near c a b \<longleftrightarrow> b / c \<le> a \<and> a \<le> c * b"

lemma near_refl: "1 \<le> c \<Longrightarrow> 0 \<le> b \<Longrightarrow> near c b b"
  by (simp add: near_def divide_le_eq mult_le_cancel_left1 mult_le_cancel_right1)

lemma near_nonneg: "near c a b \<Longrightarrow> 0 \<le> b \<Longrightarrow> 1 \<le> c \<Longrightarrow> 0 \<le> a"
  by (auto simp: near_def intro: order_trans [of 0 "b / c"])

lemma near_pos: "near c a b \<Longrightarrow> 0 < b \<Longrightarrow> 1 \<le> c \<Longrightarrow> 0 < a"
  by (auto simp: near_def intro: less_le_trans [of 0 "b / c"])

lemma near_0 [simp]: "near c a 0 \<longleftrightarrow> a = 0"
  by (auto simp: near_def)

lemma near_mono: "near c a b \<Longrightarrow> 1 \<le> c \<Longrightarrow> c \<le> d \<Longrightarrow> 0 \<le> b \<Longrightarrow> near d a b"
  unfolding near_def by (auto intro: order_trans [OF _ mult_right_mono] order_trans [OF divide_left_mono])

lemma near_trans:
  assumes "near c a b" "near d b e" "1 \<le> c" "1 \<le> d"
  shows "near (c * d) a e"
proof -
  have "e / (c * d) = (e / d) / c" by simp
  also have "\<dots> \<le> b / c" using assms by (intro divide_right_mono) (simp_all add: near_def)
  also have "\<dots> \<le> a" using assms by (simp add: near_def)
  finally have "e / (c * d) \<le> a" .
  moreover have "a \<le> c * (d * e)"
    using assms by (auto simp: near_def intro: order_trans [OF _ mult_left_mono])
  ultimately show ?thesis by (simp add: near_def mult.assoc)
qed

lemma near_add: "near c a b \<Longrightarrow> near c a' b' \<Longrightarrow> near c (a + a') (b + b')"
  by (simp add: near_def distrib_left add_divide_distrib add_mono)

lemma near_scale: "near c a b \<Longrightarrow> 0 < k \<Longrightarrow> near c (a / k) (b / k)"
  using divide_right_mono [of "b / c" a k] divide_right_mono [of a "c * b" k] by (simp add: near_def mult.commute)

lemma near_sum_list:
  "(\<And>x. x \<in> set xs \<Longrightarrow> near c (f x) (g x)) \<Longrightarrow> near c (sum_list (map f xs)) (sum_list (map g xs))"
  by (induction xs) (simp_all add: near_add)

lemma near_mult:
  assumes "near c a b" "near d a' b'" "1 \<le> c" "1 \<le> d" "0 \<le> b" "0 \<le> b'"
  shows "near (c * d) (a * a') (b * b')"
proof -
  have n: "0 \<le> a" "0 \<le> a'" "0 \<le> b / c" "0 \<le> b' / d"
    using near_nonneg [OF assms(1,5,3)] near_nonneg [OF assms(2,6,4)] assms(3-6) by simp_all
  have "b / c \<le> a" "b' / d \<le> a'" using assms(1,2) by (simp_all add: near_def)
  then have "(b / c) * (b' / d) \<le> a * a'" using n by (intro mult_mono)
  moreover have "a * a' \<le> (c * b) * (d * b')"
  proof (rule mult_mono)
    show "a \<le> c * b" "a' \<le> d * b'" using assms(1,2) by (simp_all add: near_def)
    show "0 \<le> c * b" using assms(3,5) by simp
    show "0 \<le> a'" by (rule n(2))
  qed
  ultimately show ?thesis by (simp add: near_def algebra_simps)
qed

lemma near_inverse:
  assumes "near c a b" "1 \<le> c" "0 < b"
  shows "near c (1 / a) (1 / b)"
proof -
  have a: "0 < a" by (rule near_pos [OF assms(1,3,2)])
  have "a \<le> c * b" "b \<le> a * c" using assms by (simp_all add: near_def divide_le_eq)
  then show ?thesis using a assms(2,3) by (simp add: near_def field_simps)
qed

lemma near_divide:
  assumes "near c a b" "near d a' b'" "1 \<le> c" "1 \<le> d" "0 \<le> b" "0 < b'"
  shows "near (c * d) (a / a') (b / b')"
  using near_mult [OF assms(1) near_inverse [OF assms(2,4,6)] assms(3,4,5)] assms(6) by simp

text \<open>From a bound on the difference.\<close>

lemma near_abs:
  assumes "\<bar>a - b\<bar> \<le> e * b" "0 \<le> e" "e < 1" "0 \<le> b"
  shows "near (1 / (1 - e)) a b"
proof -
  have "(1 + e) * (1 - e) \<le> 1" using assms by (simp add: algebra_simps)
  then have "1 + e \<le> 1 / (1 - e)" using assms(3) by (simp add: le_divide_eq)
  then have "(1 + e) * b \<le> 1 / (1 - e) * b" using assms(4) by (rule mult_right_mono)
  moreover have "b - e * b \<le> a" "a \<le> b + e * b" using assms(1) by linarith+
  ultimately show ?thesis by (simp add: near_def algebra_simps)
qed

text \<open>The factor of one rounding.\<close>

definition round_factor :: real where
  "round_factor = 1 / (1 - 1 / 2 ^ 53)"

lemma round_factor_ge_1: "1 \<le> round_factor" by (simp add: round_factor_def)

lemma rnd_near: "0 \<le> x \<Longrightarrow> near round_factor (rnd x) x"
  using near_abs [of "rnd x" x "1 / 2 ^ 53"] rnd_error [of x] by (simp add: round_factor_def)

text \<open>A sum that is rounded after every addition, in the order of a list.\<close>

lemma fold_rnd_near:
  assumes "\<And>x. x \<in> set xs \<Longrightarrow> near c (f x) (g x)" "\<And>x. x \<in> set xs \<Longrightarrow> 0 \<le> g x" "1 \<le> c"
    and "near (c * round_factor ^ k) s e" "0 \<le> e"
  shows "near (c * round_factor ^ (k + length xs)) (fold (\<lambda>x s. rnd (s + f x)) xs s) (e + sum_list (map g xs))"
  using assms
proof (induction xs arbitrary: k s e)
  case (Cons x xs)
  have c: "c \<le> c * round_factor ^ k" "1 \<le> c * round_factor ^ k"
    using Cons.prems(3) round_factor_ge_1 one_le_power [of round_factor k] by (auto simp: mult_le_cancel_left1 intro: mult_ge1_I)
  have g: "0 \<le> g x" using Cons.prems(2) by simp
  have "near c (f x) (g x)" using Cons.prems(1) by simp
  then have "near (c * round_factor ^ k) (f x) (g x)" by (rule near_mono [OF _ Cons.prems(3) c(1) g])
  note sum = near_add [OF Cons.prems(4) this]
  have nn: "0 \<le> s + f x" by (rule near_nonneg [OF sum _ c(2)]) (use g Cons.prems(5) in simp)
  have "near (round_factor * (c * round_factor ^ k)) (rnd (s + f x)) (e + g x)"
    by (rule near_trans [OF rnd_near [OF nn] sum round_factor_ge_1 c(2)])
  then have "near (c * round_factor ^ Suc k) (rnd (s + f x)) (e + g x)" by (simp add: mult.left_commute)
  then have "near (c * round_factor ^ (Suc k + length xs)) (fold (\<lambda>x s. rnd (s + f x)) xs (rnd (s + f x))) (e + g x + sum_list (map g xs))"
    using Cons.prems g by (intro Cons.IH) simp_all
  then show ?case by (simp add: add.assoc)
qed simp

section \<open>Logarithms\<close>

text \<open>\<open>math.Log2\<close> has some relative accuracy on probabilities.\<close>

definition accurate :: "real \<Rightarrow> (real \<Rightarrow> real) \<Rightarrow> bool" where
  "accurate \<epsilon> log2f \<longleftrightarrow> 0 \<le> \<epsilon> \<and> \<epsilon> < 1 \<and>
     (\<forall>x. 0 < x \<and> x \<le> 1 \<longrightarrow> \<bar>log2f x - log 2 x\<bar> \<le> \<epsilon> * \<bar>log 2 x\<bar>)"

text \<open>The factor of the logarithm of a rounded quotient of two counts, the greater of which is \<open>n\<close>.\<close>

definition log_factor :: "real \<Rightarrow> nat \<Rightarrow> real" where
  "log_factor \<epsilon> n = 1 / ((1 - \<epsilon>) * (1 - real n / 2 ^ 52))"

lemma ln_round_factor: "ln round_factor \<le> 1 / 2 ^ 52"
proof -
  have "round_factor \<le> 1 + 1 / 2 ^ 52" by (simp add: round_factor_def)
  then have "ln round_factor \<le> ln (1 + 1 / 2 ^ 52)" using round_factor_ge_1 by simp
  also have "\<dots> \<le> 1 / 2 ^ 52" by (rule ln_add_one_self_le_self) simp
  finally show ?thesis .
qed

lemma rnd_ln:
  assumes "0 < x"
  shows "0 < rnd x \<and> \<bar>ln (rnd x) - ln x\<bar> \<le> 1 / 2 ^ 52"
proof -
  have w: "near round_factor (rnd x) x" using assms by (simp add: rnd_near)
  then have pos: "0 < rnd x" using near_pos assms round_factor_ge_1 by blast
  have "ln (rnd x) \<le> ln (round_factor * x)" using w pos by (simp add: near_def)
  then have "ln (rnd x) - ln x \<le> ln round_factor" using assms round_factor_ge_1 by (simp add: ln_mult)
  moreover have "ln (x / round_factor) \<le> ln (rnd x)"
  proof -
    have "0 < x / round_factor" using assms round_factor_ge_1 by simp
    then show ?thesis using w pos by (simp only: ln_le_cancel_iff) (simp add: near_def)
  qed
  then have "ln x - ln (rnd x) \<le> ln round_factor" using assms round_factor_ge_1 by (simp add: ln_div)
  ultimately have "\<bar>ln (rnd x) - ln x\<bar> \<le> ln round_factor" by linarith
  then show ?thesis using pos ln_round_factor by linarith
qed

lemma log_near:
  assumes acc: "accurate \<epsilon> log2f" and k: "1 \<le> k" "k \<le> n" and n: "n \<le> 2 ^ 50"
  defines "q \<equiv> real k / real n"
  shows "near (log_factor \<epsilon> n) (- log2f (rnd q)) (- log 2 q) \<and> 0 \<le> - log 2 q"
proof (cases "k = n")
  case True
  then have "q = 1" using k by (simp add: q_def)
  moreover have "log2f 1 = 0" using acc unfolding accurate_def by (metis abs_0 abs_le_zero_iff diff_zero log_one mult_zero_right order_refl zero_less_one)
  ultimately show ?thesis using rnd_nat [of 1] by simp
next
  case False
  have np: "0 < real n" and q: "0 < q" using k by (simp_all add: q_def)
  have "q \<le> 1 - 1 / real n"
  proof -
    have "real k \<le> real n - 1" using False k by linarith
    then show ?thesis using np by (simp add: q_def field_simps)
  qed
  moreover have "ln (1 + (q - 1)) \<le> q - 1" using q by (intro ln_add_one_self_le_self2) simp
  ultimately have L: "1 / real n \<le> - ln q" by simp
  have lt: "real n / 2 ^ 52 < 1"
  proof -
    have "real n \<le> 2 ^ 50" using n by (metis of_nat_le_iff of_nat_numeral of_nat_power)
    then show ?thesis by (simp add: divide_less_eq)
  qed
  have r: "0 < rnd q" "\<bar>ln (rnd q) - ln q\<bar> \<le> 1 / 2 ^ 52" using rnd_ln [OF q] by simp_all
  have "1 / 2 ^ 52 = real n / 2 ^ 52 * (1 / real n)" using np by simp
  also have "\<dots> \<le> real n / 2 ^ 52 * - ln q" using L by (intro mult_left_mono) simp_all
  finally have "\<bar>- ln (rnd q) - - ln q\<bar> \<le> real n / 2 ^ 52 * - ln q" using r(2) by linarith
  moreover have Lp: "0 \<le> - ln q" using L np by (meson divide_nonneg_pos order_trans zero_le_one)
  ultimately have "near (1 / (1 - real n / 2 ^ 52)) (- ln (rnd q)) (- ln q)"
    using lt by (intro near_abs) simp_all
  then have "near (1 / (1 - real n / 2 ^ 52)) (- ln (rnd q) / ln 2) (- ln q / ln 2)" by (rule near_scale) simp
  then have w1: "near (1 / (1 - real n / 2 ^ 52)) (- log 2 (rnd q)) (- log 2 q)" by (simp add: log_def)
  have "rnd q \<le> 1" using q k by (intro rnd_le_1) (simp_all add: q_def)
  then have "\<bar>log2f (rnd q) - log 2 (rnd q)\<bar> \<le> \<epsilon> * - log 2 (rnd q)" and neg: "0 \<le> - log 2 (rnd q)"
    using acc r(1) by (auto simp: accurate_def)
  then have w2: "near (1 / (1 - \<epsilon>)) (- log2f (rnd q)) (- log 2 (rnd q))"
    using acc by (intro near_abs) (auto simp: accurate_def)
  have ge: "1 \<le> 1 / (1 - \<epsilon>)" "1 \<le> 1 / (1 - real n / 2 ^ 52)" using acc lt by (simp_all add: accurate_def)
  have "0 \<le> - log 2 q" using Lp q by (simp add: log_def divide_nonpos_nonneg)
  then show ?thesis using near_trans [OF w2 w1 ge] by (simp add: log_factor_def)
qed

end
