(* ===== verification/Rarity.thy ===== *)
theory Rarity
  imports Float64 Erc721Server "HOL-Library.AList" "HOL-Library.Multiset"
begin

text \<open>
  Rarity scores of a collection (\<open>go/erc721/rarity.go\<close>). Go maps are association lists. A loop that adds floating-point numbers while it ranges
  over a map takes the order of that range as an argument, since the sum depends on it; the collection is a list in the order of its two ranges.
  \<open>float64\<close> is as in Float64, with every operation rounded by itself; \<open>math.Log2\<close> is an argument, of which only an accuracy is assumed. Infinities and NaN are not modelled: the theorems are about
  collections in which no token repeats a trait, where every argument of the logarithm is positive.
\<close>

section \<open>The code\<close>

text \<open>A missing entry of a map of numbers reads as 0, of a map of maps as the empty map.\<close>

definition lk :: "('k \<times> real) list \<Rightarrow> 'k \<Rightarrow> real" where
  "lk al k = (case map_of al k of Some n \<Rightarrow> n | None \<Rightarrow> 0)"

definition lkd :: "('k \<times> 'v list) list \<Rightarrow> 'k \<Rightarrow> 'v list" where
  "lkd al k = (case map_of al k of Some m \<Rightarrow> m | None \<Rightarrow> [])"

definition inc :: "'k \<Rightarrow> ('k \<times> real) list \<Rightarrow> ('k \<times> real) list" where
  "inc k al = AList.update k (rnd (lk al k + 1)) al"

type_synonym distributions = "(string \<times> (string \<times> real) list) list"
type_synonym counts = "(string \<times> real) list"
type_synonym trait_values = "(string \<times> string) list"

definition attr_string :: "(string \<Rightarrow> string) \<Rightarrow> attribute \<Rightarrow> string" where
  "attr_string bucket a = (case Value a of VString s \<Rightarrow> s | VOther x \<Rightarrow> bucket x)"

definition note_attr ::
  "(string \<Rightarrow> string) \<Rightarrow> attribute \<Rightarrow> distributions \<times> counts \<times> trait_values \<Rightarrow> distributions \<times> counts \<times> trait_values" where
  "note_attr bucket a st =
     (case st of (dst, cnt, vals) \<Rightarrow>
        let t = TraitType a; v = attr_string bucket a in
        (AList.update t (inc v (lkd dst t)) dst, inc t cnt, AList.update t v vals))"

definition note_token ::
  "(string \<Rightarrow> string) \<Rightarrow> 'id \<times> metadata \<Rightarrow> distributions \<times> counts \<times> ('id \<times> trait_values) list \<Rightarrow>
   distributions \<times> counts \<times> ('id \<times> trait_values) list" where
  "note_token bucket tok st =
     (case (tok, st) of ((tid, md), (dst, cnt, atts)) \<Rightarrow>
        (case fold (note_attr bucket) (Attributes md) (dst, cnt, []) of (dst', cnt', vals) \<Rightarrow>
           (dst', cnt', AList.update tid vals atts)))"

definition tally ::
  "(string \<Rightarrow> string) \<Rightarrow> ('id \<times> metadata) list \<Rightarrow> distributions \<times> counts \<times> ('id \<times> trait_values) list" where
  "tally bucket coll = fold (note_token bucket) coll ([], [], [])"

text \<open>The orders in which maps are ranged over: the traits, the values of a trait, and the traits again for each token.\<close>

record 'id map_ranges =
  range_dists :: "distributions \<Rightarrow> distributions"
  range_values :: "string \<Rightarrow> (string \<times> real) list \<Rightarrow> (string \<times> real) list"
  range_counts :: "'id \<Rightarrow> counts \<Rightarrow> counts"

definition add_information :: "(real \<Rightarrow> real) \<Rightarrow> real \<Rightarrow> real \<Rightarrow> real" where
  "add_information log2f p entropy = rnd (entropy + rnd (- p * log2f p))"

definition collection_entropy :: "(real \<Rightarrow> real) \<Rightarrow> 'id map_ranges \<Rightarrow> real \<Rightarrow> distributions \<Rightarrow> counts \<Rightarrow> real" where
  "collection_entropy log2f ord n dst cnt =
     fold (\<lambda>(t, d) entropy.
       let e = fold (\<lambda>(v, k). add_information log2f (rnd (k / n))) (range_values ord t d) entropy;
           p = rnd (rnd (n - lk cnt t) / n)
       in if p \<noteq> 0 then add_information log2f p e else e) (range_dists ord dst) 0"

definition token_score ::
  "(real \<Rightarrow> real) \<Rightarrow> 'id map_ranges \<Rightarrow> real \<Rightarrow> distributions \<Rightarrow> counts \<Rightarrow> 'id \<Rightarrow> trait_values \<Rightarrow> real" where
  "token_score log2f ord n dst cnt tid vals =
     fold (\<lambda>(t, have_attr) score.
       rnd (score + - log2f (rnd ((case map_of vals t of Some v \<Rightarrow> lk (lkd dst t) v | None \<Rightarrow> rnd (n - have_attr)) / n))))
       (range_counts ord tid cnt) 0"

record 'id rarity =
  Entropy :: real
  Scores :: "('id \<times> real) list"

text \<open>An entry of \<open>Scores\<close> is only created by its first addition, so without traits there is none.\<close>

definition Rarity :: "(real \<Rightarrow> real) \<Rightarrow> 'id map_ranges \<Rightarrow> (string \<Rightarrow> string) \<Rightarrow> ('id \<times> metadata) list \<Rightarrow> 'id rarity" where
  "Rarity log2f ord bucket coll =
     (case tally bucket coll of (dst, cnt, atts) \<Rightarrow>
        let n = rnd (real (length coll));
            e = collection_entropy log2f ord n dst cnt;
            scores = (if cnt = [] then []
                      else map (\<lambda>(tid, md). (tid, token_score log2f ord n dst cnt tid (lkd atts tid))) coll)
        in \<lparr>Entropy = e, Scores = (if e > 0 then map (\<lambda>(tid, s). (tid, rnd (s / e))) scores else scores)\<rparr>)"

section \<open>What the tallies hold\<close>

lemma lk_inc: "rnd (lk al k + 1) = lk al k + 1 \<Longrightarrow> lk (inc k al) k' = lk al k' + of_bool (k = k')"
  by (simp add: lk_def inc_def update_conv')

lemma keys_inc [simp]: "fst ` set (inc k al) = insert k (fst ` set al)"
  by (simp add: inc_def keys_update)

lemma distinct_inc: "distinct (map fst al) \<Longrightarrow> distinct (map fst (inc k al))"
  by (simp add: inc_def distinct_update)

lemma lkd_update: "lkd (AList.update k v al) k' = (if k = k' then v else lkd al k')"
  by (simp add: lkd_def update_conv')

definition pairs :: "(string \<Rightarrow> string) \<Rightarrow> metadata \<Rightarrow> (string \<times> string) list" where
  "pairs bucket md = map (\<lambda>a. (TraitType a, attr_string bucket a)) (Attributes md)"

text \<open>The tallies after the attributes \<open>ps\<close> of all tokens seen so far.\<close>

definition tallied :: "(string \<times> string) list \<Rightarrow> distributions \<Rightarrow> counts \<Rightarrow> bool" where
  "tallied ps dst cnt \<longleftrightarrow>
     distinct (map fst dst) \<and> distinct (map fst cnt) \<and>
     fst ` set dst = fst ` set ps \<and> fst ` set cnt = fst ` set ps \<and>
     (\<forall>t. distinct (map fst (lkd dst t))) \<and>
     (\<forall>t. fst ` set (lkd dst t) = {v. (t, v) \<in> set ps}) \<and>
     (\<forall>t. lk cnt t = real (length (filter (\<lambda>p. fst p = t) ps))) \<and>
     (\<forall>t v. lk (lkd dst t) v = real (length (filter (\<lambda>p. p = (t, v)) ps)))"

lemma tallied_snoc:
  assumes tl: "tallied ps dst cnt" and len: "length ps < 2 ^ 53"
  shows "tallied (ps @ [(t, v)]) (AList.update t (inc v (lkd dst t)) dst) (inc t cnt)"
proof -
  have "rnd (real (length (filter P ps)) + 1) = real (length (filter P ps)) + 1" for P
  proof -
    have "Suc (length (filter P ps)) \<le> 2 ^ 53" using len length_filter_le [of P ps] by linarith
    from rnd_nat [OF this] show ?thesis by (simp add: add.commute)
  qed
  then have "rnd (lk cnt t + 1) = lk cnt t + 1" "rnd (lk (lkd dst t) v + 1) = lk (lkd dst t) v + 1"
    using tl by (simp_all add: tallied_def)
  then show ?thesis
    using tl unfolding tallied_def
    by (auto simp: keys_update lkd_update lk_inc distinct_update distinct_inc)
qed

lemma fold_note_attr:
  assumes "tallied ps dst cnt" and "fold (note_attr bucket) as (dst, cnt, vals) = (dst', cnt', vals')"
    and "length ps + length as \<le> 2 ^ 53"
  shows "tallied (ps @ map (\<lambda>a. (TraitType a, attr_string bucket a)) as) dst' cnt' \<and>
         map_of vals' = (map_of vals ++ map_of (rev (map (\<lambda>a. (TraitType a, attr_string bucket a)) as)))"
  using assms
proof (induction as arbitrary: ps dst cnt vals)
  case (Cons a as)
  let ?t = "TraitType a" and ?v = "attr_string bucket a"
  have "fold (note_attr bucket) as
      (AList.update ?t (inc ?v (lkd dst ?t)) dst, inc ?t cnt, AList.update ?t ?v vals) = (dst', cnt', vals')"
    using Cons.prems(2) by (simp add: note_attr_def [of bucket a "(dst, cnt, vals)"] Let_def)
  moreover have "length ps < 2 ^ 53" using Cons.prems(3) by simp
  ultimately show ?case
    using Cons.IH [OF tallied_snoc [OF Cons.prems(1)]] Cons.prems(3)
    by (auto simp: update_conv' fun_eq_iff map_add_def split: option.splits)
qed simp

lemma tally_fold:
  assumes "tallied ps dst cnt" and "fold (note_token bucket) coll (dst, cnt, atts) = (dst', cnt', atts')"
    and "distinct (map fst coll)" "\<And>tid md. (tid, md) \<in> set coll \<Longrightarrow> distinct (map fst (pairs bucket md))"
    and "length ps + length (concat (map (\<lambda>(tid, md). pairs bucket md) coll)) \<le> 2 ^ 53"
  shows "tallied (ps @ concat (map (\<lambda>(tid, md). pairs bucket md) coll)) dst' cnt' \<and>
         (\<forall>(tid, md) \<in> set coll. map_of (lkd atts' tid) = map_of (pairs bucket md)) \<and>
         (\<forall>tid. tid \<notin> fst ` set coll \<longrightarrow> lkd atts' tid = lkd atts tid)"
  using assms
proof (induction coll arbitrary: ps dst cnt atts)
  case (Cons tok coll)
  obtain tid md where tok: "tok = (tid, md)" by (cases tok)
  obtain d c v where s: "fold (note_attr bucket) (Attributes md) (dst, cnt, []) = (d, c, v)"
    using prod_cases3 by blast
  have t: "tallied (ps @ pairs bucket md) d c" "map_of v = map_of (rev (pairs bucket md))"
    using fold_note_attr [OF Cons.prems(1) s] Cons.prems(5) tok by (simp_all add: pairs_def)
  have v: "map_of v = map_of (pairs bucket md)"
  proof -
    have "distinct (map fst (pairs bucket md))" using Cons.prems(4) tok by auto
    then show ?thesis using t(2) map_of_inject_set [of "rev (pairs bucket md)" "pairs bucket md"]
      by (simp add: rev_map [symmetric])
  qed
  have run: "fold (note_token bucket) coll (d, c, AList.update tid v atts) = (dst', cnt', atts')"
    using Cons.prems(2) s tok by (simp add: note_token_def [of bucket "(tid, md)" "(dst, cnt, atts)"])
  have notin: "tid \<notin> fst ` set coll" using Cons.prems(3) tok by auto
  have IH: "tallied ((ps @ pairs bucket md) @ concat (map (\<lambda>(tid, md). pairs bucket md) coll)) dst' cnt' \<and>
         (\<forall>(tid, md) \<in> set coll. map_of (lkd atts' tid) = map_of (pairs bucket md)) \<and>
         (\<forall>tid'. tid' \<notin> fst ` set coll \<longrightarrow> lkd atts' tid' = lkd (AList.update tid v atts) tid')"
    using Cons.prems(3-5) tok by (intro Cons.IH [OF t(1) run]) auto
  then show ?case
    using notin v tok by (auto simp: lkd_update)
qed simp

section \<open>Grouping tokens by their value of a trait\<close>

lemma sum_list_group:
  fixes g :: "'v option \<Rightarrow> real"
  assumes "finite V" and "\<And>x v. x \<in> set xs \<Longrightarrow> f x = Some v \<Longrightarrow> v \<in> V"
  shows "sum_list (map (\<lambda>x. g (f x)) xs) =
     (\<Sum>v\<in>V. real (length (filter (\<lambda>x. f x = Some v) xs)) * g (Some v)) +
     real (length (filter (\<lambda>x. f x = None) xs)) * g None"
  using assms(2)
proof (induction xs)
  case (Cons x xs)
  then have IH: "sum_list (map (\<lambda>x. g (f x)) xs) =
     (\<Sum>v\<in>V. real (length (filter (\<lambda>x. f x = Some v) xs)) * g (Some v)) +
     real (length (filter (\<lambda>x. f x = None) xs)) * g None"
    by (metis (no_types, lifting) list.set_intros(2))
  show ?case
  proof (cases "f x")
    case None
    then show ?thesis using IH by (simp add: algebra_simps)
  next
    case (Some w)
    then have w: "w \<in> V" by (intro Cons.prems [of x]) simp_all
    have "(\<Sum>v\<in>V. real (length (filter (\<lambda>x. f x = Some v) (x # xs))) * g (Some v)) =
        (\<Sum>v\<in>V. (if v = w then g (Some w) else 0) + real (length (filter (\<lambda>x. f x = Some v) xs)) * g (Some v))"
      using Some by (intro sum.cong) (auto simp: algebra_simps)
    also have "\<dots> = g (Some w) + (\<Sum>v\<in>V. real (length (filter (\<lambda>x. f x = Some v) xs)) * g (Some v))"
      using w assms(1) by (simp add: sum.distrib)
    finally show ?thesis using IH Some by simp
  qed
qed simp

lemma length_filter_concat_pairs:
  assumes "\<And>ps. ps \<in> set pss \<Longrightarrow> distinct (map fst ps)"
  shows "length (filter (\<lambda>p. fst p = t) (concat pss)) = length (filter (\<lambda>ps. map_of ps t \<noteq> None) pss)"
    and "length (filter (\<lambda>p. p = (t, v)) (concat pss)) = length (filter (\<lambda>ps. map_of ps t = Some v) pss)"
proof -
  have one: "length (filter (\<lambda>p. fst p = t) ps) = of_bool (map_of ps t \<noteq> None)"
    "length (filter (\<lambda>p. p = (t, v)) ps) = of_bool (map_of ps t = Some v)"
    if "distinct (map fst ps)" for ps
    using that by (induction ps) (auto simp: filter_empty_conv map_of_eq_None_iff weak_map_of_SomeI
        image_iff dest: map_of_SomeD)
  show "length (filter (\<lambda>p. fst p = t) (concat pss)) = length (filter (\<lambda>ps. map_of ps t \<noteq> None) pss)"
    using assms by (induction pss) (simp_all add: one(1))
  show "length (filter (\<lambda>p. p = (t, v)) (concat pss)) = length (filter (\<lambda>ps. map_of ps t = Some v) pss)"
    using assms by (induction pss) (simp_all add: one(2))
qed

section \<open>The exact scores\<close>

text \<open>
  The information that the documentation defines, in real numbers: a trait is a distribution over its values and its absence, the entropy of the
  collection is the sum of those of its traits, and the information of a token that of its values.
\<close>

definition information :: "real \<Rightarrow> real" where
  "information p = - p * log 2 p"

definition exact_entropy :: "real \<Rightarrow> distributions \<Rightarrow> counts \<Rightarrow> real" where
  "exact_entropy n dst cnt =
     sum_list (map (\<lambda>(t, d).
       sum_list (map (\<lambda>(v, k). information (k / n)) d) +
       (let p = (n - lk cnt t) / n in if p \<noteq> 0 then information p else 0)) dst)"

text \<open>The tokens with a given value of a trait, or without it.\<close>

definition share :: "trait_values list \<Rightarrow> string \<Rightarrow> string option \<Rightarrow> nat" where
  "share pss t x = length (filter (\<lambda>ps. map_of ps t = x) pss)"

definition exact_score :: "trait_values list \<Rightarrow> counts \<Rightarrow> trait_values \<Rightarrow> real" where
  "exact_score pss cnt ps = sum_list (map (\<lambda>(t, c). - log 2 (share pss t (map_of ps t) / length pss)) cnt)"

lemma share_le: "share pss t x \<le> length pss"
  by (simp add: share_def)

lemma share_member: "ps \<in> set pss \<Longrightarrow> 1 \<le> share pss t (map_of ps t)"
  by (auto simp: share_def Suc_le_eq filter_empty_conv)

text \<open>The tallies of a collection in which no token repeats a trait.\<close>

lemma tallied_share:
  assumes tl: "tallied (concat pss) dst cnt" and d: "\<And>ps. ps \<in> set pss \<Longrightarrow> distinct (map fst ps)"
  shows "lk (lkd dst t) v = share pss t (Some v)" and "real (length pss) - lk cnt t = share pss t None"
proof -
  show "lk (lkd dst t) v = share pss t (Some v)"
    using tl length_filter_concat_pairs(2) [OF d] by (simp add: tallied_def share_def)
  have "lk cnt t = real (length (filter (\<lambda>ps. map_of ps t \<noteq> None) pss))"
    using tl length_filter_concat_pairs(1) [OF d] by (simp add: tallied_def)
  then show "real (length pss) - lk cnt t = share pss t None"
    using sum_length_filter_compl [of "\<lambda>ps. map_of ps t = None" pss] by (simp add: share_def)
qed

lemma tallied_lookup:
  assumes "tallied ps dst cnt"
  shows "(t, c) \<in> set cnt \<Longrightarrow> lk cnt t = c" and "(t, m) \<in> set dst \<Longrightarrow> lkd dst t = m"
    and "(v, k) \<in> set (lkd dst t) \<Longrightarrow> lk (lkd dst t) v = k"
  using assms by (auto simp: tallied_def lk_def lkd_def)

text \<open>One trait: the information of all tokens is the size times the trait's entropy.\<close>

lemma trait_information:
  assumes tl: "tallied (concat pss) dst cnt" and d: "\<And>ps. ps \<in> set pss \<Longrightarrow> distinct (map fst ps)"
    and ne: "pss \<noteq> []"
  defines "n \<equiv> real (length pss)"
  shows "sum_list (map (\<lambda>ps. - log 2 (share pss t (map_of ps t) / n)) pss) =
     n * (sum_list (map (\<lambda>(v, k). information (k / n)) (lkd dst t)) +
          (let p = (n - lk cnt t) / n in if p \<noteq> 0 then information p else 0))"
proof -
  let ?g = "\<lambda>x. - log 2 (share pss t x / n)" and ?V = "fst ` set (lkd dst t)"
  have n: "n \<noteq> 0" using ne by (simp add: n_def)
  have V: "v \<in> ?V" if "ps \<in> set pss" "map_of ps t = Some v" for ps v
    using tl that map_of_SomeD [OF that(2)] by (auto simp: tallied_def)
  note sh = tallied_share [OF tl d, folded n_def]
  have "sum_list (map (\<lambda>ps. ?g (map_of ps t)) pss) =
      (\<Sum>v\<in>?V. share pss t (Some v) * ?g (Some v)) + share pss t None * ?g None"
    using sum_list_group [of ?V pss "\<lambda>ps. map_of ps t" ?g] V by (simp add: share_def)
  also have "(\<Sum>v\<in>?V. share pss t (Some v) * ?g (Some v)) = n * (\<Sum>v\<in>?V. information (lk (lkd dst t) v / n))"
    using n by (simp add: sum_distrib_left information_def sh(1))
  also have "(\<Sum>v\<in>?V. information (lk (lkd dst t) v / n)) = sum_list (map (\<lambda>(v, k). information (k / n)) (lkd dst t))"
  proof -
    have dk: "distinct (map fst (lkd dst t))" using tl by (simp add: tallied_def)
    have "(\<Sum>v\<in>?V. information (lk (lkd dst t) v / n)) = sum_list (map (\<lambda>v. information (lk (lkd dst t) v / n)) (map fst (lkd dst t)))"
      using sum_list_distinct_conv_sum_set [OF dk, of "\<lambda>v. information (lk (lkd dst t) v / n)"] by simp
    also have "\<dots> = sum_list (map (\<lambda>(v, k). information (k / n)) (lkd dst t))"
      using tallied_lookup(3) [OF tl] by (auto intro!: arg_cong [of _ _ sum_list])
    finally show ?thesis .
  qed
  also have "share pss t None * ?g None = n * (let p = (n - lk cnt t) / n in if p \<noteq> 0 then information p else 0)"
    using n by (simp add: Let_def information_def sh(2))
  finally show ?thesis by (simp add: distrib_left)
qed

lemma sum_list_swap:
  fixes f :: "'a \<Rightarrow> 'b \<Rightarrow> real"
  shows "sum_list (map (\<lambda>x. sum_list (map (f x) ys)) xs) = sum_list (map (\<lambda>y. sum_list (map (\<lambda>x. f x y) xs)) ys)"
  by (induction xs) (simp_all add: sum_list_addf)

lemma sum_list_div: "sum_list (map (\<lambda>x. f x / (e :: real)) xs) = sum_list (map f xs) / e"
  by (induction xs) (simp_all add: add_divide_distrib)

text \<open>A sum over a table with distinct keys depends on the keys and the looked-up values only.\<close>

lemma sum_list_keys:
  assumes "distinct (map fst al)" "distinct (map fst bl)" "fst ` set al = fst ` set bl"
    and "\<And>k v. (k, v) \<in> set al \<Longrightarrow> f (k, v) = (h k :: real)" "\<And>k v. (k, v) \<in> set bl \<Longrightarrow> g (k, v) = h k"
  shows "sum_list (map f al) = sum_list (map g bl)"
proof -
  have "sum_list (map f al) = sum_list (map h (map fst al))"
    using assms(4) by (auto intro!: arg_cong [of _ _ sum_list])
  also have "\<dots> = sum h (fst ` set al)"
    using sum_list_distinct_conv_sum_set [OF assms(1), of h] by simp
  also have "\<dots> = sum_list (map h (map fst bl))"
    using sum_list_distinct_conv_sum_set [OF assms(2), of h] assms(3) by simp
  also have "\<dots> = sum_list (map g bl)"
    using assms(5) by (auto intro!: arg_cong [of _ _ sum_list])
  finally show ?thesis .
qed

lemma total_information:
  assumes tl: "tallied (concat pss) dst cnt" and d: "\<And>ps. ps \<in> set pss \<Longrightarrow> distinct (map fst ps)"
    and ne: "pss \<noteq> []"
  defines "n \<equiv> real (length pss)"
  shows "sum_list (map (exact_score pss cnt) pss) = n * exact_entropy n dst cnt"
proof -
  let ?s = "\<lambda>t ps. - log 2 (share pss t (map_of ps t) / n)"
  let ?e = "\<lambda>t. sum_list (map (\<lambda>(v, k). information (k / n)) (lkd dst t)) +
      (let p = (n - lk cnt t) / n in if p \<noteq> 0 then information p else 0)"
  have keys: "distinct (map fst dst)" "distinct (map fst cnt)" "fst ` set cnt = fst ` set dst"
    using tl by (simp_all add: tallied_def)
  have "sum_list (map (exact_score pss cnt) pss) = sum_list (map (\<lambda>(t, c). sum_list (map (?s t) pss)) cnt)"
    unfolding exact_score_def n_def [symmetric]
    using sum_list_swap [of "\<lambda>ps tc. ?s (fst tc) ps" cnt pss] by (simp add: case_prod_beta')
  also have "\<dots> = sum_list (map (\<lambda>(t, m). n * ?e t) dst)"
    using trait_information [OF tl d ne, folded n_def] keys
    by (intro sum_list_keys [where h = "\<lambda>t. n * ?e t"]) simp_all
  also have "\<dots> = n * exact_entropy n dst cnt"
    unfolding exact_entropy_def sum_list_const_mult [symmetric]
    using tallied_lookup(2) [OF tl] by (auto intro!: arg_cong [of _ _ sum_list])
  finally show ?thesis .
qed

text \<open>There is no information exactly when all tokens have the same values.\<close>

lemma neg_log_share:
  assumes "ps \<in> set pss"
  shows "0 \<le> - log 2 (share pss t (map_of ps t) / length pss)"
    and "- log 2 (share pss t (map_of ps t) / length pss) = 0 \<longleftrightarrow> (\<forall>qs \<in> set pss. map_of qs t = map_of ps t)"
proof -
  let ?q = "real (share pss t (map_of ps t)) / real (length pss)"
  have np: "0 < length pss" using assms by (cases pss) auto
  have q: "0 < ?q" "?q \<le> 1" using share_member [OF assms, of t] share_le [of pss t] np by simp_all
  then show "0 \<le> - log 2 ?q" by simp
  have "log 2 ?q = 0 \<longleftrightarrow> ?q = 1" unfolding log_def using q(1) by (simp only: divide_eq_0_iff ln_eq_zero_iff) simp
  also have "\<dots> \<longleftrightarrow> share pss t (map_of ps t) = length pss" using np by auto
  also have "\<dots> \<longleftrightarrow> (\<forall>qs \<in> set pss. map_of qs t = map_of ps t)"
    unfolding share_def by (metis (mono_tags, lifting) filter_True length_filter_less less_irrefl)
  finally show "- log 2 ?q = 0 \<longleftrightarrow> (\<forall>qs \<in> set pss. map_of qs t = map_of ps t)" by simp
qed

lemma exact_score_nonneg: "ps \<in> set pss \<Longrightarrow> 0 \<le> exact_score pss cnt ps"
  unfolding exact_score_def using neg_log_share(1) [of ps pss] by (intro sum_list_nonneg) auto

lemma exact_score_zero:
  assumes "ps \<in> set pss"
  shows "exact_score pss cnt ps = 0 \<longleftrightarrow> (\<forall>t \<in> fst ` set cnt. \<forall>qs \<in> set pss. map_of qs t = map_of ps t)"
proof -
  have "exact_score pss cnt ps = 0 \<longleftrightarrow> (\<forall>(t, c) \<in> set cnt. - log 2 (share pss t (map_of ps t) / length pss) = 0)"
    unfolding exact_score_def using neg_log_share(1) [OF assms]
    by (subst sum_list_nonneg_eq_0_iff) auto
  then show ?thesis using neg_log_share(2) [OF assms] by auto
qed

definition alike :: "trait_values list \<Rightarrow> bool" where
  "alike pss \<longleftrightarrow> (\<forall>ps \<in> set pss. \<forall>qs \<in> set pss. map_of ps = map_of qs)"

lemma exact_entropy_zero:
  assumes tl: "tallied (concat pss) dst cnt" and d: "\<And>ps. ps \<in> set pss \<Longrightarrow> distinct (map fst ps)"
    and ne: "pss \<noteq> []"
  shows "0 \<le> exact_entropy (length pss) dst cnt"
    and "exact_entropy (length pss) dst cnt = 0 \<longleftrightarrow> alike pss"
    and "alike pss \<Longrightarrow> ps \<in> set pss \<Longrightarrow> exact_score pss cnt ps = 0"
proof -
  let ?e = "exact_entropy (length pss) dst cnt"
  have total: "sum_list (map (exact_score pss cnt) pss) = length pss * ?e"
    by (rule total_information [OF tl d ne])
  have nn: "0 \<le> x" if "x \<in> set (map (exact_score pss cnt) pss)" for x using that exact_score_nonneg by auto
  have "0 \<le> length pss * ?e" unfolding total [symmetric] by (rule sum_list_nonneg) (rule nn)
  then show "0 \<le> ?e" using ne by (simp add: zero_le_mult_iff)
  have key: "t \<in> fst ` set cnt" if ps: "ps \<in> set pss" and some: "map_of ps t \<noteq> None" for ps t
  proof -
    obtain v where "map_of ps t = Some v" using some by blast
    then have "(t, v) \<in> set (concat pss)" using map_of_SomeD ps by fastforce
    then have "t \<in> fst ` set (concat pss)" by (metis fst_conv image_eqI)
    then show ?thesis using tl unfolding tallied_def by (simp only:)
  qed
  have score: "exact_score pss cnt ps = 0 \<longleftrightarrow> (\<forall>qs \<in> set pss. map_of qs = map_of ps)" if ps: "ps \<in> set pss" for ps
  proof -
    have "map_of qs t = map_of ps t" if "t \<notin> fst ` set cnt" "qs \<in> set pss" for qs t
      using key that ps by (metis not_None_eq)
    then show ?thesis unfolding exact_score_zero [OF ps] fun_eq_iff by blast
  qed
  show "exact_score pss cnt ps = 0" if "alike pss" "ps \<in> set pss"
    unfolding score [OF that(2)] using that unfolding alike_def by blast
  have "?e = 0 \<longleftrightarrow> length pss * ?e = 0" using ne by simp
  also have "\<dots> \<longleftrightarrow> (\<forall>x \<in> set (map (exact_score pss cnt) pss). x = 0)"
    unfolding total [symmetric] by (rule sum_list_nonneg_eq_0_iff) (rule nn)
  also have "\<dots> \<longleftrightarrow> (\<forall>ps \<in> set pss. \<forall>qs \<in> set pss. map_of qs = map_of ps)" using score by simp
  also have "\<dots> \<longleftrightarrow> alike pss" unfolding alike_def by metis
  finally show "?e = 0 \<longleftrightarrow> alike pss" .
qed

section \<open>The computed scores\<close>

text \<open>A range visits every entry once.\<close>

definition ranges_ok :: "'id map_ranges \<Rightarrow> bool" where
  "ranges_ok ord \<longleftrightarrow> (\<forall>m. mset (range_dists ord m) = mset m) \<and> (\<forall>t m. mset (range_values ord t m) = mset m) \<and>
     (\<forall>i m. mset (range_counts ord i m) = mset m)"

lemma sum_list_perm: "mset xs = mset ys \<Longrightarrow> sum_list (map f xs) = sum_list (map f ys)"
  for f :: "'a \<Rightarrow> 'b :: comm_monoid_add"
  by (metis mset_map sum_mset_sum_list)

lemma log_factor_ge_1:
  assumes "accurate \<epsilon> log2f" "n \<le> 2 ^ 50"
  shows "1 \<le> log_factor \<epsilon> n"
proof -
  have "real n \<le> 2 ^ 50" using assms(2) by (metis of_nat_le_iff of_nat_numeral of_nat_power)
  then have "0 < 1 - real n / 2 ^ 52" "1 - real n / 2 ^ 52 \<le> 1" by simp_all
  moreover have "0 < 1 - \<epsilon>" "1 - \<epsilon> \<le> 1" using assms(1) by (simp_all add: accurate_def)
  ultimately have "0 < (1 - \<epsilon>) * (1 - real n / 2 ^ 52)" "(1 - \<epsilon>) * (1 - real n / 2 ^ 52) \<le> 1"
    by (simp, intro mult_le_one) simp_all
  then show ?thesis by (simp add: log_factor_def)
qed

text \<open>A sum of at most \<open>m\<close> terms that starts with 0.\<close>

lemma fold_rnd_near_0:
  assumes "\<And>x. x \<in> set xs \<Longrightarrow> near c (f x) (g x) \<and> 0 \<le> g x" "1 \<le> c" "length xs \<le> m"
  shows "near (c * round_factor ^ m) (fold (\<lambda>x s. rnd (s + f x)) xs 0) (sum_list (map g xs))"
proof -
  have "near (c * round_factor ^ (0 + length xs)) (fold (\<lambda>x s. rnd (s + f x)) xs 0) (0 + sum_list (map g xs))"
    using assms by (intro fold_rnd_near) simp_all
  moreover have "1 \<le> c * round_factor ^ length xs"
    using assms(2) one_le_power [OF round_factor_ge_1] by (intro mult_ge1_I)
  moreover have "c * round_factor ^ length xs \<le> c * round_factor ^ m"
    using assms(2,3) power_increasing [OF assms(3) round_factor_ge_1] by simp
  moreover have "0 \<le> sum_list (map g xs)" using assms(1) by (intro sum_list_nonneg) auto
  ultimately show ?thesis by (auto intro: near_mono)
qed

lemma token_score_near:
  assumes tl: "tallied (concat pss) dst cnt" and d: "\<And>ps. ps \<in> set pss \<Longrightarrow> distinct (map fst ps)"
    and n: "length pss \<le> 2 ^ 50" and acc: "accurate \<epsilon> log2f" and ord: "ranges_ok ord" and m: "length cnt \<le> m"
    and ps: "ps \<in> set pss" "map_of vals = map_of ps"
  shows "near (log_factor \<epsilon> (length pss) * round_factor ^ m)
     (token_score log2f ord (length pss) dst cnt tid vals) (exact_score pss cnt ps)"
proof -
  let ?n = "real (length pss)" and ?cs = "range_counts ord tid cnt"
  let ?q = "\<lambda>t. share pss t (map_of ps t) / ?n"
  have cs: "mset ?cs = mset cnt" using ord by (simp add: ranges_ok_def)
  have count: "(case map_of vals t of Some v \<Rightarrow> lk (lkd dst t) v | None \<Rightarrow> rnd (?n - c)) = share pss t (map_of ps t)"
    if "(t, c) \<in> set ?cs" for t c
  proof (cases "map_of ps t")
    case None
    have "(t, c) \<in> set cnt" using that mset_eq_setD [OF cs] by simp
    then have "?n - c = share pss t None" using tallied_share(2) [OF tl d, of t] tallied_lookup(1) [OF tl] by simp
    moreover have "share pss t None \<le> 2 ^ 53" by (rule order_trans [OF share_le order_trans [OF n]]) simp
    ultimately show ?thesis using None ps(2) rnd_nat by simp
  qed (simp add: ps(2) tallied_share(1) [OF tl d])
  have "token_score log2f ord ?n dst cnt tid vals = fold (\<lambda>tc s. rnd (s + - log2f (rnd (?q (fst tc))))) ?cs 0"
    unfolding token_score_def using count by (intro fold_cong) (auto simp: fun_eq_iff)
  moreover have "near (log_factor \<epsilon> (length pss) * round_factor ^ m)
      (fold (\<lambda>tc s. rnd (s + - log2f (rnd (?q (fst tc))))) ?cs 0) (sum_list (map (\<lambda>tc. - log 2 (?q (fst tc))) ?cs))"
  proof (rule fold_rnd_near_0)
    show "near (log_factor \<epsilon> (length pss)) (- log2f (rnd (?q (fst x)))) (- log 2 (?q (fst x))) \<and> 0 \<le> - log 2 (?q (fst x))" for x
      by (rule log_near [OF acc share_member [OF ps(1)] share_le n])
    show "length ?cs \<le> m" using m mset_eq_length [OF cs] by simp
  qed (rule log_factor_ge_1 [OF acc n])
  moreover have "sum_list (map (\<lambda>tc. - log 2 (?q (fst tc))) ?cs) = exact_score pss cnt ps"
    unfolding exact_score_def sum_list_perm [OF cs] by (simp add: case_prod_beta')
  ultimately show ?thesis by simp
qed

text \<open>The probabilities of which the entropy is the sum, in the order of the ranges.\<close>

definition entropy_probs :: "'id map_ranges \<Rightarrow> real \<Rightarrow> distributions \<Rightarrow> counts \<Rightarrow> real list" where
  "entropy_probs ord n dst cnt =
     concat (map (\<lambda>(t, d). map (\<lambda>(v, k). k / n) (range_values ord t d) @
                           (if n - lk cnt t \<noteq> 0 then [(n - lk cnt t) / n] else [])) (range_dists ord dst))"

lemma fold_concat: "fold (\<lambda>x. fold g (h x)) xs e = fold g (concat (map h xs)) e"
  by (induction xs arbitrary: e) simp_all

lemma collection_entropy_probs:
  assumes "\<And>t. \<exists>k. n - lk cnt t = real k \<and> k \<le> 2 ^ 53" and "0 < n"
  shows "collection_entropy log2f ord n dst cnt =
     fold (\<lambda>q e. rnd (e + rnd (- rnd q * log2f (rnd q)))) (entropy_probs ord n dst cnt) 0"
proof -
  have "rnd (rnd (n - lk cnt t) / n) = rnd ((n - lk cnt t) / n)"
    and "rnd ((n - lk cnt t) / n) \<noteq> 0 \<longleftrightarrow> n - lk cnt t \<noteq> 0" for t
  proof -
    obtain k where k: "n - lk cnt t = real k" "k \<le> 2 ^ 53" using assms(1) by blast
    show "rnd (rnd (n - lk cnt t) / n) = rnd ((n - lk cnt t) / n)" using k rnd_nat by simp
    have "near round_factor (rnd ((n - lk cnt t) / n)) ((n - lk cnt t) / n)" using k assms(2) by (intro rnd_near) simp
    moreover have "0 < (n - lk cnt t) / n" if "n - lk cnt t \<noteq> 0" using k(1) assms(2) that by simp
    ultimately have "0 < rnd ((n - lk cnt t) / n)" if "n - lk cnt t \<noteq> 0" using near_pos [OF _ _ round_factor_ge_1] that by blast
    then show "rnd ((n - lk cnt t) / n) \<noteq> 0 \<longleftrightarrow> n - lk cnt t \<noteq> 0"
      using assms(2) by (cases "n - lk cnt t = 0") (simp_all add: rnd_def [of 0])
  qed
  note null = this
  let ?g = "\<lambda>q e. rnd (e + rnd (- rnd q * log2f (rnd q)))"
  have vals: "fold (\<lambda>(v, k). add_information log2f (rnd (k / n))) vs e = fold ?g (map (\<lambda>(v, k). k / n) vs) e"
    for vs :: "(string \<times> real) list" and e
    by (induction vs arbitrary: e) (auto simp: add_information_def)
  have step: "(\<lambda>(t, d) entropy.
       let e = fold (\<lambda>(v, k). add_information log2f (rnd (k / n))) (range_values ord t d) entropy;
           p = rnd (rnd (n - lk cnt t) / n)
       in if p \<noteq> 0 then add_information log2f p e else e) =
     (\<lambda>x. fold ?g (case x of (t, d) \<Rightarrow> map (\<lambda>(v, k). k / n) (range_values ord t d) @
                           (if n - lk cnt t \<noteq> 0 then [(n - lk cnt t) / n] else [])))"
    unfolding vals null(1) Let_def by (rule ext)+ (simp split: prod.split add: null(2) add_information_def)
  show ?thesis unfolding collection_entropy_def entropy_probs_def step fold_concat ..
qed

lemma sum_list_concat_map: "sum_list (map f (concat (map h xs))) = sum_list (map (\<lambda>x. sum_list (map f (h x))) xs)"
  for f :: "'b \<Rightarrow> real"
  by (induction xs) simp_all

lemma sum_entropy_probs:
  assumes "ranges_ok ord" "0 < n"
  shows "sum_list (map information (entropy_probs ord n dst cnt)) = exact_entropy n dst cnt"
proof -
  have perm: "mset (range_dists ord dst) = mset dst" "\<And>t d. mset (range_values ord t d) = mset d"
    using assms(1) by (simp_all add: ranges_ok_def)
  have "sum_list (map information (entropy_probs ord n dst cnt)) =
      sum_list (map (\<lambda>(t, d). sum_list (map (\<lambda>(v, k). information (k / n)) (range_values ord t d)) +
        (let p = (n - lk cnt t) / n in if p \<noteq> 0 then information p else 0)) (range_dists ord dst))"
    unfolding entropy_probs_def sum_list_concat_map using assms(2)
    by (intro arg_cong [of _ _ sum_list] map_cong refl) (auto simp: comp_def Let_def case_prod_beta')
  also have "\<dots> = exact_entropy n dst cnt"
    unfolding sum_list_perm [OF perm(1)] sum_list_perm [OF perm(2)] exact_entropy_def ..
  finally show ?thesis .
qed

text \<open>There are at most twice as many of them as attributes, and as many traits as attributes.\<close>

lemma length_tallies:
  assumes tl: "tallied ps dst cnt"
  shows "length cnt \<le> length ps" and "sum_list (map (\<lambda>(t, d). length d) dst) \<le> length ps" and "length dst \<le> length ps"
proof -
  have card: "card (fst ` set ps) \<le> length ps"
    using card_image_le [OF finite_set, of fst ps] card_length [of ps] by linarith
  have d: "distinct (map fst dst)" "fst ` set dst = fst ` set ps" "distinct (map fst cnt)" "fst ` set cnt = fst ` set ps"
    using tl by (simp_all add: tallied_def)
  show "length cnt \<le> length ps" using card distinct_card [OF d(3)] d(4) by simp
  show "length dst \<le> length ps" using card distinct_card [OF d(1)] d(2) by simp
  have len: "length m = card {v. (t, v) \<in> set ps}" if "(t, m) \<in> set dst" for t m
  proof -
    have "distinct (map fst m)" "fst ` set m = {v. (t, v) \<in> set ps}"
      using tl unfolding tallied_lookup(2) [OF tl that, symmetric] tallied_def by blast+
    then show ?thesis using distinct_card [of "map fst m"] by simp
  qed
  have "sum_list (map (\<lambda>(t, d). length d) dst) = sum_list (map (\<lambda>t. card {v. (t, v) \<in> set ps}) (map fst dst))"
    using len by (auto intro!: arg_cong [of _ _ sum_list])
  also have "\<dots> = (\<Sum>t \<in> fst ` set ps. card {v. (t, v) \<in> set ps})"
    using sum_list_distinct_conv_sum_set [OF d(1)] d(2) by simp
  also have "\<dots> = card (Sigma (fst ` set ps) (\<lambda>t. {v. (t, v) \<in> set ps}))"
  proof (rule card_SigmaI [symmetric])
    show "\<forall>t \<in> fst ` set ps. finite {v. (t, v) \<in> set ps}"
    proof
      fix t
      have "{v. (t, v) \<in> set ps} \<subseteq> snd ` set ps" by force
      then show "finite {v. (t, v) \<in> set ps}" by (rule finite_subset) simp
    qed
  qed simp
  also have "Sigma (fst ` set ps) (\<lambda>t. {v. (t, v) \<in> set ps}) = set ps" by force
  finally show "sum_list (map (\<lambda>(t, d). length d) dst) \<le> length ps" using card_length [of ps] by simp
qed

lemma length_entropy_probs:
  assumes tl: "tallied ps dst cnt" and "ranges_ok ord"
  shows "length (entropy_probs ord n dst cnt) \<le> 2 * length ps"
proof -
  have perm: "mset (range_dists ord dst) = mset dst" and "mset (range_values ord t d) = mset d" for t d
    using assms(2) unfolding ranges_ok_def by blast+
  then have sizes: "length (range_values ord t d) = length d" for t d using mset_eq_length by blast
  have "length (entropy_probs ord n dst cnt) \<le> sum_list (map (\<lambda>(t, d). length d + 1) (range_dists ord dst))"
  proof -
    have "length (concat (map h xs)) \<le> sum_list (map b xs)" if "\<And>x. length (h x) \<le> b x"
      for h :: "string \<times> (string \<times> real) list \<Rightarrow> real list" and b xs
      using that by (induction xs) (simp_all add: add_mono)
    then show ?thesis unfolding entropy_probs_def by (simp add: case_prod_beta' sizes)
  qed
  also have "\<dots> = sum_list (map (\<lambda>(t, d). length d) dst) + length dst"
    unfolding sum_list_perm [OF perm] by (simp add: case_prod_beta' sum_list_Suc)
  also have "\<dots> \<le> 2 * length ps" using length_tallies [OF tl] by simp
  finally show ?thesis .
qed

lemma entropy_probs_counts:
  assumes tl: "tallied (concat pss) dst cnt" and d: "\<And>ps. ps \<in> set pss \<Longrightarrow> distinct (map fst ps)" and ord: "ranges_ok ord"
    and q: "q \<in> set (entropy_probs ord (length pss) dst cnt)"
  shows "\<exists>k. 1 \<le> k \<and> k \<le> length pss \<and> q = real k / real (length pss)"
proof -
  let ?n = "real (length pss)"
  have "mset (range_dists ord dst) = mset dst" "mset (range_values ord t m) = mset m" for t m
    using ord unfolding ranges_ok_def by blast+
  then have sets: "set (range_dists ord dst) = set dst" "set (range_values ord t m) = set m" for t m
    using mset_eq_setD by blast+
  obtain t m where t: "(t, m) \<in> set dst" and
    cases: "(\<exists>v k. (v, k) \<in> set m \<and> q = k / ?n) \<or> ?n - lk cnt t \<noteq> 0 \<and> q = (?n - lk cnt t) / ?n"
    using q unfolding entropy_probs_def by (auto simp: sets split: if_splits)
  from cases show ?thesis
  proof (elim disjE exE conjE)
    fix v k assume vk: "(v, k) \<in> set m" "q = k / ?n"
    have m: "lkd dst t = m" by (rule tallied_lookup(2) [OF tl t])
    then have k: "k = share pss t (Some v)"
      using tallied_lookup(3) [OF tl, of v k t] tallied_share(1) [OF tl d, of t v] vk(1) by simp
    have "v \<in> {v. (t, v) \<in> set (concat pss)}" using tl vk(1) m unfolding tallied_def by (metis fst_conv image_eqI)
    then obtain ps where "ps \<in> set pss" "(t, v) \<in> set ps" by auto
    then have "ps \<in> set pss" "map_of ps t = Some v" using d by simp_all
    then have "1 \<le> share pss t (Some v)" using share_member [of ps pss t] by simp
    then show ?thesis using vk(2) k share_le by blast
  next
    assume "?n - lk cnt t \<noteq> 0" "q = (?n - lk cnt t) / ?n"
    then have "1 \<le> share pss t None" "q = share pss t None / ?n" using tallied_share(2) [OF tl d, of t] by simp_all
    then show ?thesis using share_le by blast
  qed
qed

lemma collection_entropy_near:
  assumes tl: "tallied (concat pss) dst cnt" and d: "\<And>ps. ps \<in> set pss \<Longrightarrow> distinct (map fst ps)" and ne: "pss \<noteq> []"
    and n: "length pss \<le> 2 ^ 50" and acc: "accurate \<epsilon> log2f" and ord: "ranges_ok ord"
  shows "near (round_factor ^ 2 * log_factor \<epsilon> (length pss) * round_factor ^ (2 * length (concat pss)))
     (collection_entropy log2f ord (length pss) dst cnt) (exact_entropy (length pss) dst cnt)"
proof -
  let ?n = "real (length pss)" and ?qs = "entropy_probs ord (length pss) dst cnt" and ?l = "log_factor \<epsilon> (length pss)"
  have np: "0 < ?n" using ne by simp
  note l = log_factor_ge_1 [OF acc n] and r = round_factor_ge_1
  have "\<exists>k. ?n - lk cnt t = real k \<and> k \<le> 2 ^ 53" for t
    using tallied_share(2) [OF tl d, of t] order_trans [OF share_le order_trans [OF n], of "2 ^ 53" t None] by auto
  note probs = collection_entropy_probs [OF this np]
  have "near (round_factor ^ 2 * ?l) (rnd (- rnd q * log2f (rnd q))) (information q) \<and> 0 \<le> information q" if "q \<in> set ?qs" for q
  proof -
    obtain k where k: "1 \<le> k" "k \<le> length pss" "q = real k / ?n" using entropy_probs_counts [OF tl d ord \<open>q \<in> set ?qs\<close>] by blast
    then have q: "0 \<le> q" by simp
    note log = log_near [OF acc k(1,2) n, folded k(3)]
    have info: "0 \<le> information q" using mult_nonneg_nonneg [OF q log [THEN conjunct2]] by (simp add: information_def)
    have prod: "near (round_factor * ?l) (rnd q * - log2f (rnd q)) (q * - log 2 q)"
      by (rule near_mult [OF rnd_near [OF q] log [THEN conjunct1] r l q log [THEN conjunct2]])
    have rl: "1 \<le> round_factor * ?l" by (rule mult_ge1_I [OF r l])
    have "0 \<le> rnd q * - log2f (rnd q)" using near_nonneg [OF prod _ rl] info by (simp add: information_def)
    from near_trans [OF rnd_near [OF this] prod r rl] info show ?thesis
      by (simp add: information_def power2_eq_square mult.assoc)
  qed
  moreover have "1 \<le> round_factor ^ 2 * ?l" by (rule mult_ge1_I [OF one_le_power [OF r] l])
  ultimately have "near (round_factor ^ 2 * ?l * round_factor ^ (2 * length (concat pss)))
      (fold (\<lambda>q e. rnd (e + rnd (- rnd q * log2f (rnd q)))) ?qs 0) (sum_list (map information ?qs))"
    using length_entropy_probs [OF tl ord] by (intro fold_rnd_near_0) simp_all
  then show ?thesis unfolding probs sum_entropy_probs [OF ord np] .
qed

section \<open>Property\<close>

definition traits :: "(string \<Rightarrow> string) \<Rightarrow> ('id \<times> metadata) list \<Rightarrow> trait_values list" where
  "traits bucket coll = map (\<lambda>(tid, md). pairs bucket md) coll"

text \<open>All errors together, for a number of tokens and a number of attributes.\<close>

definition error_factor :: "real \<Rightarrow> nat \<Rightarrow> nat \<Rightarrow> real" where
  "error_factor \<epsilon> n a = log_factor \<epsilon> n ^ 2 * round_factor ^ (3 * a + 3)"

text \<open>The tallies of a collection.\<close>

lemma tally_collection:
  assumes "distinct (map fst coll)" and "\<forall>(tid, md) \<in> set coll. distinct (map TraitType (Attributes md))"
    and "length (concat (traits bucket coll)) \<le> 2 ^ 53" and "tally bucket coll = (dst, cnt, atts)"
  shows "tallied (concat (traits bucket coll)) dst cnt"
    and "\<And>ps. ps \<in> set (traits bucket coll) \<Longrightarrow> distinct (map fst ps)"
    and "\<And>tid md. (tid, md) \<in> set coll \<Longrightarrow> map_of (lkd atts tid) = map_of (pairs bucket md)"
proof -
  have d: "distinct (map fst (pairs bucket md))" if "(tid, md) \<in> set coll" for tid md
    using assms(2) that by (auto simp: pairs_def comp_def)
  then show "distinct (map fst ps)" if "ps \<in> set (traits bucket coll)" for ps using that by (auto simp: traits_def)
  have "tallied [] [] []" by (simp add: tallied_def lk_def lkd_def)
  then have "tallied ([] @ concat (map (\<lambda>(tid, md). pairs bucket md) coll)) dst cnt \<and>
      (\<forall>(tid, md) \<in> set coll. map_of (lkd atts tid) = map_of (pairs bucket md)) \<and>
      (\<forall>tid. tid \<notin> fst ` set coll \<longrightarrow> lkd atts tid = lkd [] tid)"
    by (rule tally_fold [OF _ assms(4) [unfolded tally_def] assms(1)]) (use d assms(3) in \<open>simp_all add: traits_def\<close>)
  note all = this
  then show "tallied (concat (traits bucket coll)) dst cnt" by (simp add: traits_def)
  show "map_of (lkd atts tid) = map_of (pairs bucket md)" if "(tid, md) \<in> set coll" for tid md
    using all that by blast
qed

lemma length_traits:
  "length (traits bucket coll) = length coll"
  "length (concat (traits bucket coll)) = sum_list (map (\<lambda>(tid, md). length (Attributes md)) coll)"
  by (simp_all add: traits_def length_concat comp_def pairs_def case_prod_beta')

text \<open>One score, divided by the entropy.\<close>

lemma scaled_score_near:
  assumes s: "near (l * r ^ a) s' s" and e: "near (r ^ 2 * l * r ^ (2 * a)) e' e" and "0 \<le> s" "0 < e"
    and "1 \<le> l" and r: "r = round_factor"
  shows "near (l ^ 2 * r ^ (3 * a + 3)) (rnd (s' / e')) (s / e)"
proof -
  have ge: "1 \<le> r" "1 \<le> l * r ^ a" "1 \<le> r ^ 2 * l * r ^ (2 * a)"
    using round_factor_ge_1 assms(5) one_le_power [of r] by (simp_all add: r mult_ge1_I)
  note quot = near_divide [OF s e ge(2,3) assms(3,4)]
  have "0 \<le> s' / e'" using near_nonneg [OF s assms(3) ge(2)] near_pos [OF e assms(4) ge(3)] by simp
  from near_trans [OF rnd_near [OF this] quot] ge
  have "near (r * ((l * r ^ a) * (r ^ 2 * l * r ^ (2 * a)))) (rnd (s' / e')) (s / e)" by (simp add: r mult_ge1_I)
  moreover have "r * ((l * r ^ a) * (r ^ 2 * l * r ^ (2 * a))) = l ^ 2 * r ^ (3 * a + 3)"
  proof -
    have "r ^ (3 * a + 3) = r ^ a * r ^ (2 * a) * r ^ 2 * r" by (simp add: power_add [symmetric] power_Suc2 [symmetric] del: power_Suc) (simp add: power_add eval_nat_numeral)
    then show ?thesis by (simp add: power2_eq_square)
  qed
  ultimately show ?thesis by simp
qed

lemma Rarity_fields:
  fixes ord :: "'id map_ranges" and log2f :: "real \<Rightarrow> real"
  assumes "tally bucket coll = (dst, cnt, atts)" and "rnd (length coll) = length coll"
  defines "e \<equiv> collection_entropy log2f ord (length coll) dst cnt"
  shows "Entropy (Rarity log2f ord bucket coll) = e"
    and "Scores (Rarity log2f ord bucket coll) =
       (if cnt = [] then []
        else map (\<lambda>x. (fst x, let s = token_score log2f ord (length coll) dst cnt (fst x) (lkd atts (fst x)) in
                           if 0 < e then rnd (s / e) else s)) coll)"
  by (simp_all add: Rarity_def assms Let_def case_prod_beta')

lemma exact_total:
  assumes "tallied (concat (traits bucket coll)) dst cnt" "\<And>ps. ps \<in> set (traits bucket coll) \<Longrightarrow> distinct (map fst ps)"
    "traits bucket coll \<noteq> []"
  shows "sum_list (map (\<lambda>x. exact_score (traits bucket coll) cnt (pairs bucket (snd x))) coll) =
     real (length coll) * exact_entropy (length coll) dst cnt"
proof -
  have "sum_list (map (\<lambda>x. exact_score (traits bucket coll) cnt (pairs bucket (snd x))) coll) =
      sum_list (map (exact_score (traits bucket coll) cnt) (traits bucket coll))"
    by (simp add: traits_def comp_def case_prod_beta')
  then show ?thesis using total_information [OF assms] by (simp add: length_traits)
qed

text \<open>
  C8. Scores are relative to the collection, in \<open>float64\<close> arithmetic and whatever the order of the ranges over maps. Take a collection in which no token repeats a trait, of at most 2^50 tokens and 2^53
  attributes, and a \<open>math.Log2\<close> of relative accuracy \<open>\<epsilon>\<close>. When all tokens have the same values of all traits, the entropy and every score are exactly 0. Otherwise the entropy is positive and the scores, one for each token, add up to the number
  of tokens, so that their mean is 1, up to a factor: the square of 1 / ((1 - \<open>\<epsilon>\<close>) (1 - tokens / 2^52)) times one relative rounding error for each of three operations per attribute and three more.
\<close>

theorem mean_rarity_near_one:
  assumes "distinct (map fst coll)" and "\<forall>(tid, md) \<in> set coll. distinct (map TraitType (Attributes md))"
    and n: "length coll \<le> 2 ^ 50" and a: "a = sum_list (map (\<lambda>(tid, md). length (Attributes md)) coll)" "a \<le> 2 ^ 53"
    and ord: "ranges_ok ord" and acc: "accurate \<epsilon> log2f"
  shows "if alike (traits bucket coll)
    then Entropy (Rarity log2f ord bucket coll) = 0 \<and> (\<forall>(tid, s) \<in> set (Scores (Rarity log2f ord bucket coll)). s = 0)
    else 0 < Entropy (Rarity log2f ord bucket coll) \<and>
      map fst (Scores (Rarity log2f ord bucket coll)) = map fst coll \<and>
      near (error_factor \<epsilon> (length coll) a) (sum_list (map snd (Scores (Rarity log2f ord bucket coll)))) (length coll)"
proof (cases "coll = []")
  case True
  have "range_dists ord [] = []" using ord unfolding ranges_ok_def by (metis mset_zero_iff)
  then show ?thesis
    using True by (simp add: alike_def traits_def Rarity_def tally_def Let_def collection_entropy_def)
next
  case False
  let ?pss = "traits bucket coll" and ?l = "log_factor \<epsilon> (length coll)" and ?n = "real (length coll)"
  obtain dst cnt atts where run: "tally bucket coll = (dst, cnt, atts)" using prod_cases3 by blast
  note len = length_traits [of bucket coll, folded a(1)]
  note tl = tally_collection [OF assms(1,2) _ run, unfolded len, OF a(2)]
  have ne: "?pss \<noteq> []" using False by (simp add: traits_def)
  have "length coll \<le> 2 ^ 53" using n by simp
  then have size: "rnd ?n = ?n" by (rule rnd_nat)
  let ?e = "exact_entropy ?n dst cnt" and ?e' = "collection_entropy log2f ord ?n dst cnt"
  let ?s = "\<lambda>x. exact_score ?pss cnt (pairs bucket (snd x))"
    and ?s' = "\<lambda>x. token_score log2f ord ?n dst cnt (fst x) (lkd atts (fst x))"
  have e: "near (round_factor ^ 2 * ?l * round_factor ^ (2 * a)) ?e' ?e"
    using collection_entropy_near [OF tl(1,2) ne _ acc ord, unfolded len, OF _ n] by simp
  have member: "pairs bucket (snd x) \<in> set ?pss" if "x \<in> set coll" for x using that by (simp add: traits_def case_prod_beta')
  have s: "near (?l * round_factor ^ a) (?s' x) (?s x)" if "x \<in> set coll" for x
    using token_score_near [OF tl(1,2) _ acc ord _ member [OF that] tl(3), unfolded len, OF _ n] length_tallies(1) [OF tl(1)] that
    by (cases x) (simp add: len)
  note scores = Rarity_fields [OF run size]
  note zero = exact_entropy_zero [OF tl(1,2) ne, unfolded len]
  show ?thesis
  proof (cases "alike ?pss")
    case True
    then have "?e' = 0" using e zero(2) by simp
    moreover have "?s' x = 0" if "x \<in> set coll" for x using s [OF that] zero(3) [OF _ True member [OF that]] by simp
    ultimately show ?thesis using True by (auto simp: scores Let_def)
  next
    case diff: False
    then have pos: "0 < ?e" using zero(1,2) by (simp add: less_le)
    have l: "1 \<le> ?l" by (rule log_factor_ge_1 [OF acc n])
    have "0 < ?e'" using near_pos [OF e pos] l round_factor_ge_1 by (simp add: mult_ge1_I)
    have "dst \<noteq> []" using pos by (auto simp: exact_entropy_def)
    moreover have "fst ` set cnt = fst ` set dst" using tl(1) by (simp only: tallied_def)
    ultimately have "cnt \<noteq> []" by auto
    have "near (?l ^ 2 * round_factor ^ (3 * a + 3)) (rnd (?s' x / ?e')) (?s x / ?e)" if "x \<in> set coll" for x
      using exact_score_nonneg [OF member [OF that]] by (intro scaled_score_near [OF s [OF that] e _ pos l refl])
    then have "near (error_factor \<epsilon> (length coll) a) (sum_list (map (\<lambda>x. rnd (?s' x / ?e')) coll)) (sum_list (map (\<lambda>x. ?s x / ?e) coll))"
      unfolding error_factor_def by (rule near_sum_list)
    moreover have "sum_list (map (\<lambda>x. ?s x / ?e) coll) = ?n"
      using exact_total [OF tl(1,2) ne] pos by (simp add: sum_list_div)
    ultimately show ?thesis
      using diff \<open>0 < ?e'\<close> \<open>cnt \<noteq> []\<close> by (simp add: scores comp_def Let_def)
  qed
qed

text \<open>Two tokens that differ in one trait, with an exact logarithm and the traits ranged over backwards.\<close>

definition demo_metadata :: "string \<Rightarrow> metadata" where
  "demo_metadata hat =
     \<lparr>Name = [], Description = [], Image = [], AnimationURL = [], ExternalURL = [], CollectionName = [],
      Attributes = [\<lparr>TraitType = ''hat'', Value = VString hat, DisplayType = 0\<rparr>]\<rparr>"

definition demo_ranges :: "nat map_ranges" where
  "demo_ranges = \<lparr>range_dists = rev, range_values = (\<lambda>t. rev), range_counts = (\<lambda>i. rev)\<rparr>"

theorem mean_rarity_near_one_witness:
  "near (error_factor 0 2 2) (sum_list (map snd (Scores (Rarity (log 2) demo_ranges id
     [(0, demo_metadata ''red''), (1, demo_metadata ''blue'')])))) 2"
proof -
  let ?c = "[(0 :: nat, demo_metadata ''red''), (1, demo_metadata ''blue'')]"
  have "\<not> alike (traits id ?c)"
    by (simp add: alike_def traits_def pairs_def attr_string_def demo_metadata_def fun_eq_iff)
  moreover have "if alike (traits id ?c) then Entropy (Rarity (log 2) demo_ranges id ?c) = 0 \<and>
        (\<forall>(tid, s) \<in> set (Scores (Rarity (log 2) demo_ranges id ?c)). s = 0)
      else 0 < Entropy (Rarity (log 2) demo_ranges id ?c) \<and> map fst (Scores (Rarity (log 2) demo_ranges id ?c)) = map fst ?c \<and>
        near (error_factor 0 (length ?c) 2) (sum_list (map snd (Scores (Rarity (log 2) demo_ranges id ?c)))) (length ?c)"
    by (rule mean_rarity_near_one) (simp_all add: demo_metadata_def ranges_ok_def demo_ranges_def accurate_def)
  ultimately show ?thesis by (simp add: numeral_2_eq_2)
qed

end
