(* ===== verification/MetadataJson.thy ===== *)
theory MetadataJson
  imports Erc721
begin

text \<open>
  Metadata as JSON (\<open>go/erc721/erc721.go\<close>): the encoding of the structs by \<open>encoding/json\<close>, writing it,
  hashing it, and the expiry of signed addresses. Values of attributes other than strings are
  encoded by an argument; Keccak-256, the clock and the storage service are arguments as well.
\<close>

section \<open>JSON text\<close>

text \<open>
  The escapes of \<open>encoding/json\<close> of Go 1.20 with HTML escaping, the default: bytes of invalid UTF-8 are replaced, the line separators
  U+2028 and U+2029 are escaped, other multi-byte characters are copied.
\<close>

definition byte_of :: "char \<Rightarrow> nat" where
  "byte_of c = of_char c"

definition html_safe :: "char \<Rightarrow> bool" where
  "html_safe c \<longleftrightarrow> 32 \<le> byte_of c \<and> c \<noteq> CHR 0x22 \<and> c \<noteq> CHR 0x5C \<and> c \<noteq> CHR ''<'' \<and> c \<noteq> CHR ''>'' \<and> c \<noteq> CHR ''&''"

definition esc_ascii :: "char \<Rightarrow> string" where
  "esc_ascii c =
     (if html_safe c then [c]
      else if c = CHR 0x22 \<or> c = CHR 0x5C then [CHR 0x5C, c]
      else if c = CHR 0x0A then [CHR 0x5C, CHR ''n'']
      else if c = CHR 0x0D then [CHR 0x5C, CHR ''r'']
      else if c = CHR 0x09 then [CHR 0x5C, CHR ''t'']
      else CHR 0x5C # ''u00'' @ [digit (byte_of c div 16), digit (byte_of c mod 16)])"

definition between :: "nat \<Rightarrow> nat \<Rightarrow> char \<Rightarrow> bool" where
  "between lo hi c \<longleftrightarrow> lo \<le> byte_of c \<and> byte_of c \<le> hi"

text \<open>\<open>utf8.DecodeRuneInString\<close>: the length of a valid multi-byte character at the start, or zero.\<close>

fun rune_len :: "string \<Rightarrow> nat" where
  "rune_len (a # b # r) =
     (if between 0xC2 0xDF a \<and> between 0x80 0xBF b then 2
      else case r of
        [] \<Rightarrow> 0
      | c # r' \<Rightarrow>
          if (if byte_of a = 0xE0 then between 0xA0 0xBF b else if byte_of a = 0xED then between 0x80 0x9F b
              else between 0xE1 0xEF a \<and> between 0x80 0xBF b) \<and> between 0x80 0xBF c then 3
          else case r' of
            [] \<Rightarrow> 0
          | d # _ \<Rightarrow>
              if (if byte_of a = 0xF0 then between 0x90 0xBF b else if byte_of a = 0xF4 then between 0x80 0x8F b
                  else between 0xF1 0xF3 a \<and> between 0x80 0xBF b) \<and> between 0x80 0xBF c \<and> between 0x80 0xBF d then 4
              else 0)"
| "rune_len _ = 0"

function (sequential) json_escape :: "string \<Rightarrow> string" where
  "json_escape [] = []"
| "json_escape (c # cs) =
     (if byte_of c < 128 then esc_ascii c @ json_escape cs
      else if rune_len (c # cs) = 0 then CHR 0x5C # ''ufffd'' @ json_escape cs
      else if take 2 (c # cs) = [CHR 0xE2, CHR 0x80] \<and> (cs ! 1 = CHR 0xA8 \<or> cs ! 1 = CHR 0xA9)
      then CHR 0x5C # ''u202'' @ [digit (byte_of (cs ! 1) mod 16)] @ json_escape (drop 2 cs)
      else take (rune_len (c # cs)) (c # cs) @ json_escape (drop (rune_len (c # cs)) (c # cs)))"
  by pat_completeness auto
termination by (relation "measure length") auto

definition json_quote :: "string \<Rightarrow> string" where
  "json_quote s = CHR 0x22 # json_escape s @ [CHR 0x22]"

datatype json = JStr string | JRaw string | JArr "json list" | JObj "(string \<times> json) list"

fun commas :: "string list \<Rightarrow> string" where
  "commas [] = []"
| "commas [x] = x"
| "commas (x # xs) = x @ '','' @ commas xs"

fun render :: "json \<Rightarrow> string" where
  "render (JStr s) = json_quote s"
| "render (JRaw s) = s"
| "render (JArr vs) = ''['' @ commas (map render vs) @ '']''"
| "render (JObj ms) = ''{'' @ commas (map (\<lambda>(k, v). json_quote k @ '':'' @ render v) ms) @ ''}''"

section \<open>Metadata\<close>

datatype marshal_error = MarshalDisplay display_error | MarshalValue string | WriteFailed string

text \<open>A field with \<open>omitempty\<close> is left out when it is empty.\<close>

definition opt_field :: "string \<Rightarrow> string \<Rightarrow> (string \<times> json) list" where
  "opt_field k s = (if s = [] then [] else [(k, JStr s)])"

fun value_json :: "(string \<Rightarrow> string + string) \<Rightarrow> attr_value \<Rightarrow> (marshal_error, json) outcome" where
  "value_json other (VString s) = Ret (JStr s)"
| "value_json other (VOther s) = attempt MarshalValue (map_sum id JRaw (other s))"

definition display_json :: "int \<Rightarrow> (marshal_error, (string \<times> json) list) outcome" where
  "display_json t =
     (if t = 0 then Ret []
      else obind (map_fail MarshalDisplay (display_MarshalJSON t)) (\<lambda>_. Ret [(''display_type'', JStr (display_String t))]))"

definition attribute_json :: "(string \<Rightarrow> string + string) \<Rightarrow> attribute \<Rightarrow> (marshal_error, json) outcome" where
  "attribute_json other a =
     obind (value_json other (Value a)) (\<lambda>v.
     obind (display_json (DisplayType a)) (\<lambda>d.
       Ret (JObj (opt_field ''trait_type'' (TraitType a) @ [(''value'', v)] @ d))))"

fun attributes_json :: "(string \<Rightarrow> string + string) \<Rightarrow> attribute list \<Rightarrow> (marshal_error, json list) outcome" where
  "attributes_json other [] = Ret []"
| "attributes_json other (a # as) =
     obind (attribute_json other a) (\<lambda>j. obind (attributes_json other as) (\<lambda>js. Ret (j # js)))"

definition metadata_json :: "(string \<Rightarrow> string + string) \<Rightarrow> metadata \<Rightarrow> (marshal_error, json) outcome" where
  "metadata_json other md =
     obind (attributes_json other (Attributes md)) (\<lambda>as.
       Ret (JObj (opt_field ''name'' (Name md) @ opt_field ''description'' (Description md) @
         opt_field ''image'' (Image md) @ opt_field ''animation_url'' (AnimationURL md) @
         opt_field ''external_url'' (ExternalURL md) @ opt_field ''collection_name'' (CollectionName md) @
         (if as = [] then [] else [(''attributes'', JArr as)]))))"

definition metadata_marshal :: "(string \<Rightarrow> string + string) \<Rightarrow> metadata \<Rightarrow> (marshal_error, string) outcome" where
  "metadata_marshal other md = obind (metadata_json other md) (\<lambda>j. Ret (render j))"

text \<open>What was written, and the error of encoding or writing; the writer reports how many bytes it took.\<close>

definition MarshalJSONTo ::
  "(string \<Rightarrow> string + string) \<Rightarrow> (string \<Rightarrow> nat \<times> string option) \<Rightarrow> metadata \<Rightarrow> nat \<times> marshal_error option" where
  "MarshalJSONTo other w md =
     (case metadata_marshal other md of
        Ret buf \<Rightarrow> (case w buf of (n, e) \<Rightarrow> (n, map_option WriteFailed e))
      | Fail e \<Rightarrow> (0, Some e)
      | Panic \<Rightarrow> (0, None))"

text \<open>The encoder ends its output with a newline. The error is dropped, and with it the output.\<close>

definition Metadata_Hash :: "(string \<Rightarrow> string + string) \<Rightarrow> (bytes \<Rightarrow> 'h) \<Rightarrow> metadata \<Rightarrow> 'h" where
  "Metadata_Hash other keccak md =
     keccak (case metadata_marshal other md of Ret buf \<Rightarrow> text_bytes (buf @ [CHR 0x0A]) | _ \<Rightarrow> [])"

section \<open>Signed addresses\<close>

text \<open>Durations in nanoseconds, and times since the zero time.\<close>

definition year :: int where
  "year = 365 * 24 * 3600000000000"

definition time_Truncate :: "int \<Rightarrow> int \<Rightarrow> int" where
  "time_Truncate t d = (if d \<le> 0 then t else t - t mod d)"

record signed_url_options =
  opt_method :: string
  Expires :: int
  Scheme :: string

definition signed_url_opts :: "int \<Rightarrow> signed_url_options" where
  "signed_url_opts now = \<lparr>opt_method = ''GET'', Expires = time_Truncate now year + year, Scheme = ''SigningSchemeV2''\<rparr>"

definition SignedURL :: "(string \<Rightarrow> signed_url_options \<Rightarrow> string + string) \<Rightarrow> int \<Rightarrow> string \<Rightarrow> string + string" where
  "SignedURL bucket now url = bucket url (signed_url_opts now)"

section \<open>Unique readability\<close>

text \<open>The text of a character, read back.\<close>

definition ascii :: "char \<Rightarrow> bool" where
  "ascii c \<longleftrightarrow> byte_of c < 128"

fun unesc :: "string \<Rightarrow> (char \<times> string) option" where
  "unesc [] = None"
| "unesc (c # r) =
     (if c \<noteq> CHR 0x5C then Some (c, r)
      else case r of
        [] \<Rightarrow> None
      | d # r' \<Rightarrow>
          if d = CHR ''n'' then Some (CHR 0x0A, r')
          else if d = CHR ''r'' then Some (CHR 0x0D, r')
          else if d = CHR ''t'' then Some (CHR 0x09, r')
          else if d = CHR ''u'' then
            (case drop 2 r' of
               h # l # r'' \<Rightarrow>
                 (case (digit_value True h, digit_value True l) of
                    (Some a, Some b) \<Rightarrow> Some (char_of (16 * a + b), r'')
                  | _ \<Rightarrow> None)
             | _ \<Rightarrow> None)
          else Some (d, r'))"

lemma unesc_esc: "ascii c \<Longrightarrow> unesc (esc_ascii c @ r) = Some (c, r)"
proof -
  assume "ascii c"
  then have "byte_of c div 16 < 36" "byte_of c mod 16 < 36" by (simp_all add: ascii_def)
  then show ?thesis
    by (auto simp: esc_ascii_def html_safe_def digit_roundtrip_fold mult_div_mod_eq byte_of_def)
qed

lemma esc_ascii_not_quote: "esc_ascii c @ r \<noteq> CHR 0x22 # r'" "CHR 0x22 # r' \<noteq> esc_ascii c @ r"
  by (auto simp: esc_ascii_def html_safe_def)

lemma escape_unique:
  assumes "list_all ascii s" and "list_all ascii t" and "json_escape s @ CHR 0x22 # r = json_escape t @ CHR 0x22 # r'"
  shows "s = t \<and> r = r'"
  using assms
proof (induction s arbitrary: t)
  case Nil
  then show ?case by (cases t) (auto simp: ascii_def esc_ascii_not_quote)
next
  case (Cons c cs)
  then have c: "byte_of c < 128" by (simp add: ascii_def)
  show ?case
  proof (cases t)
    case Nil
    then show ?thesis using Cons.prems c by (simp add: esc_ascii_not_quote)
  next
    case (Cons d ds)
    then have "byte_of d < 128" using \<open>list_all ascii t\<close> by (simp add: ascii_def)
    then have eq: "esc_ascii c @ json_escape cs @ CHR 0x22 # r = esc_ascii d @ json_escape ds @ CHR 0x22 # r'"
      using Cons.prems(3) Cons c by simp
    have "ascii c" "ascii d" using Cons.prems(1,2) Cons by simp_all
    then have "Some (c, json_escape cs @ CHR 0x22 # r) = Some (d, json_escape ds @ CHR 0x22 # r')"
      using unesc_esc eq by metis
    then show ?thesis using Cons.IH [of ds] Cons.prems(1,2) Cons by simp
  qed
qed

lemma quote_unique:
  "list_all ascii s \<Longrightarrow> list_all ascii t \<Longrightarrow> json_quote s @ r = json_quote t @ r' \<longleftrightarrow> s = t \<and> r = r'"
  using escape_unique [of s t r r'] by (auto simp: json_quote_def)

text \<open>Values without raw parts are determined by their text, wherever it stands.\<close>

fun readable :: "json \<Rightarrow> bool" where
  "readable (JStr s) = list_all ascii s"
| "readable (JRaw s) = False"
| "readable (JArr vs) = list_all readable vs"
| "readable (JObj ms) = list_all (\<lambda>(k, v). list_all ascii k \<and> readable v) ms"

text \<open>A list of items, each with the comma before it, or the closing bracket.\<close>

definition items :: "('a \<Rightarrow> string) \<Rightarrow> 'a list \<Rightarrow> string" where
  "items f xs = concat (map (\<lambda>x. CHR '','' # f x) xs)"

lemma commas_items: "commas (map f (x # xs)) = f x @ items f xs"
  by (induction xs arbitrary: x) (simp_all add: items_def)

lemma items_unique:
  assumes "\<And>x y r r'. \<lbrakk>x \<in> set xs; P y; f x @ r = f y @ r'\<rbrakk> \<Longrightarrow> x = y \<and> r = r'" and "list_all P ys"
    and "items f xs @ d # r = items f ys @ d # r'" and "d \<noteq> CHR '',''"
  shows "xs = ys \<and> r = r'"
  using assms
proof (induction xs arbitrary: ys)
  case Nil
  then show ?case by (cases ys) (auto simp: items_def)
next
  case (Cons x xs)
  then obtain y ys' where ys: "ys = y # ys'" by (cases ys) (auto simp: items_def)
  have "f x @ items f xs @ d # r = f y @ items f ys' @ d # r'"
    using Cons.prems(3) ys by (simp add: items_def)
  then have eq: "x = y \<and> items f xs @ d # r = items f ys' @ d # r'"
    using Cons.prems(1) [of x y] Cons.prems(2) ys by simp
  then show ?case using Cons.IH [of ys'] Cons.prems ys by auto
qed

lemma commas_unique:
  assumes unique: "\<And>x y r r'. \<lbrakk>x \<in> set xs; P y; f x @ r = f y @ r'\<rbrakk> \<Longrightarrow> x = y \<and> r = r'" and ys: "list_all P ys"
    and heads: "\<And>x. x \<in> set xs \<or> P x \<Longrightarrow> f x \<noteq> [] \<and> hd (f x) \<noteq> d"
    and eq: "commas (map f xs) @ d # r = commas (map f ys) @ d # r'" and d: "d \<noteq> CHR '',''"
  shows "xs = ys \<and> r = r'"
proof (cases xs)
  case Nil
  then show ?thesis using eq heads ys by (cases ys) (auto simp: commas_items simp del: list.map(2), metis append_Cons list.collapse list.inject)
next
  case xs: (Cons x xs')
  show ?thesis
  proof (cases ys)
    case Nil
    then show ?thesis using eq heads xs by (auto simp: commas_items simp del: list.map(2)) (metis append_Cons list.collapse list.inject)
  next
    case (Cons y ys')
    then have "f x @ items f xs' @ d # r = f y @ items f ys' @ d # r'"
      using eq xs by (simp add: commas_items del: list.map(2))
    then have "x = y \<and> items f xs' @ d # r = items f ys' @ d # r'"
      using unique [of x y] ys Cons xs by simp
    then show ?thesis
      using items_unique [of xs' P f ys' d r r'] unique ys Cons xs d by auto
  qed
qed

lemma render_hd: "readable v \<Longrightarrow> \<exists>t. render v = CHR 0x22 # t \<or> render v = CHR ''['' # t \<or> render v = CHR ''{'' # t"
  by (cases v) (auto simp: json_quote_def)

lemma render_unique:
  assumes "readable v" and "readable w" and "render v @ r = render w @ r'"
  shows "v = w \<and> r = r'"
  using assms
proof (induction v arbitrary: w r r')
  case (JStr s)
  then show ?case by (cases w) (auto simp: quote_unique, auto simp: json_quote_def)
next
  case (JArr vs)
  then obtain ws where w: "w = JArr ws" by (cases w) (auto simp: json_quote_def)
  have unique: "x = y \<and> q = q'" if "x \<in> set vs" "readable y" "render x @ q = render y @ q'" for x y q q'
    using JArr.IH [OF that(1) _ that(2,3)] JArr.prems(1) that(1) by (simp add: list_all_iff)
  have heads: "render x \<noteq> [] \<and> hd (render x) \<noteq> CHR '']''" if "x \<in> set vs \<or> readable x" for x
    using that JArr.prems(1) render_hd [of x] by (auto simp: list_all_iff)
  have "vs = ws \<and> r = r'"
    by (rule commas_unique [where P = readable and f = render and d = "CHR '']''", OF unique _ heads])
      (use JArr.prems w in simp_all)
  then show ?case using w by simp
next
  case (JObj ms)
  then obtain ns where w: "w = JObj ns" by (cases w) (auto simp: json_quote_def)
  let ?f = "\<lambda>(k, v). json_quote k @ '':'' @ render v" and ?P = "\<lambda>(k, v). list_all ascii k \<and> readable v"
  have ms: "list_all ?P ms" using JObj.prems(1) by simp
  have unique: "x = y \<and> q = q'" if "x \<in> set ms" "?P y" "?f x @ q = ?f y @ q'" for x y q q'
  proof -
    obtain k v l u where x: "x = (k, v)" "y = (l, u)" by (cases x; cases y)
    then have kv: "list_all ascii k" "readable v" "list_all ascii l" "readable u"
      using that(1,2) ms by (auto simp: list_all_iff)
    have "json_quote k @ CHR '':'' # render v @ q = json_quote l @ CHR '':'' # render u @ q'"
      using that(3) unfolding x prod.case append_assoc append_Cons append_Nil .
    then have kl: "k = l" and "CHR '':'' # render v @ q = CHR '':'' # render u @ q'"
      using quote_unique [OF kv(1,3)] by blast+
    then have eq: "render v @ q = render u @ q'" by (simp only: list.inject)
    have "v \<in> Basic_BNFs.snds x" using x by simp
    from JObj.IH [OF that(1) this kv(2,4) eq] show ?thesis using kl x by simp
  qed
  have heads: "?f x \<noteq> [] \<and> hd (?f x) \<noteq> CHR ''}''" if "x \<in> set ms \<or> ?P x" for x
    by (cases x) (simp add: json_quote_def)
  have "ms = ns \<and> r = r'"
    by (rule commas_unique [where P = ?P and f = ?f and d = "CHR ''}''", OF unique _ heads])
      (use JObj.prems w in simp_all)
  then show ?case using w by simp
qed simp

lemma render_inject: "readable v \<Longrightarrow> readable w \<Longrightarrow> render v = render w \<longleftrightarrow> v = w"
  using render_unique [of v w "[]" "[]"] by auto

section \<open>Metadata from its JSON\<close>

text \<open>Metadata of ASCII texts, with attributes that have string values and no unsupported display type.\<close>

fun text_attribute :: "attribute \<Rightarrow> bool" where
  "text_attribute a = (list_all ascii (TraitType a) \<and> DisplayType a < endDisplayTypes \<and>
     (case Value a of VString s \<Rightarrow> list_all ascii s | VOther s \<Rightarrow> False))"

definition text_metadata :: "metadata \<Rightarrow> bool" where
  "text_metadata md \<longleftrightarrow> list_all (list_all ascii) [Name md, Description md, Image md, AnimationURL md, ExternalURL md, CollectionName md] \<and>
     list_all text_attribute (Attributes md)"

lemma ascii_digit: "d < 10 \<Longrightarrow> ascii (digit d)"
  by (simp add: ascii_def byte_of_def digit_def)

lemma ascii_decimal: "list_all ascii (Text n 10)"
  using set_text_nat [of 10] ascii_digit
  by (fastforce simp: Text_def list_all_iff ascii_def byte_of_def)

lemma ascii_display: "list_all ascii (display_String t)"
  using ascii_decimal [of t] by (simp add: display_String_def ascii_def byte_of_def)

lemma display_String_inject:
  assumes "s < endDisplayTypes" and "t < endDisplayTypes" and "display_String s = display_String t"
  shows "s = t"
proof -
  have neg: "display_String u = ''erc721.OpenSeaDisplayType('' @ Text u 10 @ '')''" if "u < 0" for u
    using that by (simp add: display_String_def)
  have pos: "u \<in> {0, 1, 2, 3, 4}" if "\<not> u < 0" "u < endDisplayTypes" for u
    using that by (auto simp: endDisplayTypes_def)
  show ?thesis
  proof (cases "s < 0"; cases "t < 0")
    assume "s < 0" "t < 0"
    then show ?thesis using assms(3) neg Text_inject [of 10 s t] by simp
  next
    assume "s < 0" "\<not> t < 0"
    then show ?thesis using assms(3) neg [of s] pos [OF _ assms(2)] by (auto simp: display_String_def)
  next
    assume "\<not> s < 0" "t < 0"
    then show ?thesis using assms(3) neg [of t] pos [OF _ assms(1)] by (auto simp: display_String_def)
  next
    assume "\<not> s < 0" "\<not> t < 0"
    then show ?thesis using assms(3) pos [OF _ assms(1)] pos [OF _ assms(2)] by (auto simp: display_String_def)
  qed
qed

lemma display_String_zero: "display_String 0 = []"
  by (simp add: display_String_def)

definition display_member :: "int \<Rightarrow> (string \<times> json) list" where
  "display_member t = (if t = 0 then [] else [(''display_type'', JStr (display_String t))])"

fun string_of :: "attr_value \<Rightarrow> string" where
  "string_of (VString s) = s"
| "string_of (VOther s) = s"

definition text_attribute_json :: "attribute \<Rightarrow> json" where
  "text_attribute_json a = JObj (opt_field ''trait_type'' (TraitType a) @ [(''value'', JStr (string_of (Value a)))] @
     display_member (DisplayType a))"

lemma attribute_json_text:
  assumes "text_attribute a"
  shows "attribute_json other a = Ret (text_attribute_json a)" and "readable (text_attribute_json a)"
  using assms ascii_display
  by (auto simp: attribute_json_def text_attribute_json_def display_json_def display_MarshalJSON_def display_member_def
      opt_field_def ascii_def byte_of_def split: attr_value.splits)

lemma attributes_json_text:
  "list_all text_attribute as \<Longrightarrow> attributes_json other as = Ret (map text_attribute_json as)"
  by (induction as) (simp_all add: attribute_json_text del: text_attribute.simps)

definition str_field :: "json \<Rightarrow> string \<Rightarrow> string" where
  "str_field j k = (case j of JObj ms \<Rightarrow> (case map_of ms k of Some (JStr s) \<Rightarrow> s | _ \<Rightarrow> []) | _ \<Rightarrow> [])"

definition arr_field :: "json \<Rightarrow> string \<Rightarrow> json list" where
  "arr_field j k = (case j of JObj ms \<Rightarrow> (case map_of ms k of Some (JArr vs) \<Rightarrow> vs | _ \<Rightarrow> []) | _ \<Rightarrow> [])"

lemma attribute_fields:
  "str_field (text_attribute_json a) ''trait_type'' = TraitType a"
  "str_field (text_attribute_json a) ''value'' = string_of (Value a)"
  "str_field (text_attribute_json a) ''display_type'' = display_String (DisplayType a)"
  using display_String_zero by (simp_all add: str_field_def text_attribute_json_def display_member_def opt_field_def)

lemma text_attribute_json_inject:
  assumes "text_attribute a" and "text_attribute b" and "text_attribute_json a = text_attribute_json b"
  shows "a = b"
proof -
  have "TraitType a = TraitType b" "string_of (Value a) = string_of (Value b)" "display_String (DisplayType a) = display_String (DisplayType b)"
    using attribute_fields assms(3) by metis+
  then show ?thesis
    using assms(1,2) display_String_inject [of "DisplayType a" "DisplayType b"]
    by (cases a; cases b) (auto split: attr_value.splits)
qed

definition text_metadata_json :: "metadata \<Rightarrow> json" where
  "text_metadata_json md = JObj (opt_field ''name'' (Name md) @ opt_field ''description'' (Description md) @
     opt_field ''image'' (Image md) @ opt_field ''animation_url'' (AnimationURL md) @
     opt_field ''external_url'' (ExternalURL md) @ opt_field ''collection_name'' (CollectionName md) @
     (if Attributes md = [] then [] else [(''attributes'', JArr (map text_attribute_json (Attributes md)))]))"

lemma metadata_json_text:
  assumes "text_metadata md"
  shows "metadata_json other md = Ret (text_metadata_json md)" and "readable (text_metadata_json md)"
proof -
  have as: "list_all text_attribute (Attributes md)" using assms by (simp add: text_metadata_def)
  then have "list_all readable (map text_attribute_json (Attributes md))"
    using attribute_json_text(2) by (auto simp: list_all_iff simp del: text_attribute.simps)
  moreover have opt: "list_all (\<lambda>(k, v). list_all ascii k \<and> readable v) (opt_field k s)" if "list_all ascii k" "list_all ascii s" for k s
    using that by (simp add: opt_field_def)
  ultimately show "readable (text_metadata_json md)"
    using assms by (auto simp: text_metadata_json_def text_metadata_def ascii_def byte_of_def intro!: opt)
  show "metadata_json other md = Ret (text_metadata_json md)"
    using attributes_json_text [OF as] by (simp add: metadata_json_def text_metadata_json_def)
qed

lemma metadata_fields:
  "str_field (text_metadata_json md) ''name'' = Name md"
  "str_field (text_metadata_json md) ''description'' = Description md"
  "str_field (text_metadata_json md) ''image'' = Image md"
  "str_field (text_metadata_json md) ''animation_url'' = AnimationURL md"
  "str_field (text_metadata_json md) ''external_url'' = ExternalURL md"
  "str_field (text_metadata_json md) ''collection_name'' = CollectionName md"
  "arr_field (text_metadata_json md) ''attributes'' = map text_attribute_json (Attributes md)"
  by (simp_all add: str_field_def arr_field_def text_metadata_json_def opt_field_def map_add_def)

lemma text_metadata_json_inject:
  assumes "text_metadata m" and "text_metadata n" and "text_metadata_json m = text_metadata_json n"
  shows "m = n"
proof -
  have "map text_attribute_json (Attributes m) = map text_attribute_json (Attributes n)"
    using metadata_fields(7) assms(3) by metis
  then have "Attributes m = Attributes n"
    using assms(1,2) text_attribute_json_inject
    by (auto simp: text_metadata_def list_all_iff simp del: text_attribute.simps intro!: map_inj_on [of text_attribute_json] inj_onI)
  moreover have "Name m = Name n" "Description m = Description n" "Image m = Image n" "AnimationURL m = AnimationURL n"
    "ExternalURL m = ExternalURL n" "CollectionName m = CollectionName n"
    using metadata_fields(1-6) assms(3) by metis+
  ultimately show ?thesis by simp
qed

lemma marshal_inject:
  assumes "text_metadata m" and "text_metadata n" and "metadata_marshal other m = metadata_marshal other n"
  shows "m = n"
proof -
  have "render (text_metadata_json m) = render (text_metadata_json n)"
    using assms metadata_json_text(1) by (simp add: metadata_marshal_def)
  then show ?thesis
    using render_inject metadata_json_text(2) text_metadata_json_inject assms(1,2) by blast
qed

lemma text_bytes_inject: "text_bytes s = text_bytes t \<longleftrightarrow> s = t"
  by (metis bytes_text_text_bytes)

section \<open>Properties\<close>

text \<open>C22. Metadata is determined by its JSON, and so by its hash: for metadata of ASCII texts with string values, the encoding
  succeeds, different metadata have different encodings, escapes and left-out fields notwithstanding, and equal
  hashes mean equal metadata or a collision of Keccak-256.\<close>

theorem Hash_identifies:
  assumes "text_metadata m" and "text_metadata n"
  shows "\<exists>x y. metadata_marshal other m = Ret x \<and> metadata_marshal other n = Ret y \<and> (x = y \<longleftrightarrow> m = n) \<and>
    (Metadata_Hash other keccak m = Metadata_Hash other keccak n \<longleftrightarrow>
       m = n \<or> m \<noteq> n \<and> keccak (text_bytes (x @ [CHR 0x0A])) = keccak (text_bytes (y @ [CHR 0x0A])))"
proof -
  have "metadata_marshal other k = Ret (render (text_metadata_json k))" if "text_metadata k" for k
    using metadata_json_text(1) [OF that] by (simp add: metadata_marshal_def)
  note enc = this [OF assms(1)] this [OF assms(2)]
  show ?thesis
    using enc marshal_inject [OF assms, of other] by (auto simp: Metadata_Hash_def)
qed

definition demo_metadata :: metadata where
  "demo_metadata = \<lparr>Name = ''<a>'', Description = [], Image = [CHR 0x22], AnimationURL = [], ExternalURL = [], CollectionName = [],
     Attributes = [\<lparr>TraitType = ''t'', Value = VString ''v'', DisplayType = 1\<rparr>]\<rparr>"

theorem Hash_identifies_witness:
  "\<exists>x y. metadata_marshal Inl demo_metadata = Ret x \<and> metadata_marshal Inl (demo_metadata\<lparr>Name := ''a''\<rparr>) = Ret y \<and> x \<noteq> y"
proof -
  have "text_metadata demo_metadata" "text_metadata (demo_metadata\<lparr>Name := ''a''\<rparr>)"
    by (simp_all add: text_metadata_def demo_metadata_def ascii_def byte_of_def endDisplayTypes_def)
  from Hash_identifies [OF this, of Inl id] show ?thesis by (auto simp: demo_metadata_def)
qed

text \<open>The hash drops the error of the encoder: all metadata with an attribute of an unsupported display type, and those
  whose values cannot be encoded, have the hash of the empty string, while writing the same metadata reports the error.\<close>

theorem Hash_ignores_errors:
  assumes "a \<in> set (Attributes md)" and "endDisplayTypes \<le> DisplayType a"
  shows "Metadata_Hash other keccak md = keccak [] \<and> (\<exists>e. MarshalJSONTo other w md = (0, Some e))"
proof -
  have "\<exists>e. attribute_json other b = Fail e" if "endDisplayTypes \<le> DisplayType b" for b
    using that by (cases "Value b") (auto simp: attribute_json_def display_json_def display_MarshalJSON_def endDisplayTypes_def
        attempt_def split: sum.splits)
  moreover have "attribute_json other b \<noteq> Panic" for b
    by (cases "Value b") (auto simp: attribute_json_def display_json_def display_MarshalJSON_def outcome_simps)
  ultimately have "\<exists>e. attributes_json other as = Fail e" if "a \<in> set as" for as
    using that assms(2)
  proof (induction as)
    case (Cons b as)
    then show ?case by (cases "attribute_json other b") fastforce+
  qed simp
  then obtain e where "metadata_marshal other md = Fail e"
    using assms(1) by (fastforce simp: metadata_marshal_def metadata_json_def)
  then show ?thesis by (simp add: Metadata_Hash_def MarshalJSONTo_def)
qed

theorem Hash_ignores_errors_witness:
  "Metadata_Hash Inl id (demo_metadata\<lparr>Attributes := [\<lparr>TraitType = ''t'', Value = VString ''v'', DisplayType = 9\<rparr>]\<rparr>) = []"
  using Hash_ignores_errors [of "\<lparr>TraitType = ''t'', Value = VString ''v'', DisplayType = 9\<rparr>"
      "demo_metadata\<lparr>Attributes := [\<lparr>TraitType = ''t'', Value = VString ''v'', DisplayType = 9\<rparr>]\<rparr>" Inl id "\<lambda>_. (0, None)"]
  by (simp add: endDisplayTypes_def)

text \<open>The expiry of a signed address lies in the future but never further than a year, and it is the same for all
  addresses signed in the same period: an address signed at the end of a period is valid only until its end.\<close>

theorem SignedURL_expiry:
  "now < Expires (signed_url_opts now) \<and> Expires (signed_url_opts now) \<le> now + year \<and>
   (Expires (signed_url_opts now) = now + year \<longleftrightarrow> now mod year = 0) \<and>
   (Expires (signed_url_opts now) = Expires (signed_url_opts later) \<longleftrightarrow> now div year = later div year)"
proof -
  have y: "0 < year" by (simp add: year_def)
  have "Expires (signed_url_opts t) = year * (t div year) + year" for t
    using y minus_mod_eq_mult_div [of t year] by (simp add: signed_url_opts_def time_Truncate_def)
  note e = this
  define q r where "q = now div year" and "r = now mod year"
  have now: "now = year * q + r" unfolding q_def r_def by (rule mult_div_mod_eq [symmetric])
  have r: "0 \<le> r" "r < year" using y unfolding r_def by simp_all
  have "now < year * q + year" "year * q + year \<le> now + year" "year * q + year = now + year \<longleftrightarrow> r = 0"
    using now r by linarith+
  then show ?thesis unfolding e q_def r_def using y by simp
qed

end
