(* ===== verification/Nullable.thy ===== *)
theory Nullable
  imports Prelude
begin

text \<open>
  Nullable addresses and integers (\<open>go/eth/nullable.go\<close>) and their CSV and JSON forms. The two
  types share their code through generics; the payload type is a type parameter here.
  Printing and parsing of a payload (go-ethereum, uint256) and the JSON form of a string are
  the record \<open>payload_api\<close>, with what they promise as \<open>payload_ok\<close>.
\<close>

section \<open>The code\<close>

record 'p payload_api =
  show_payload :: "'p \<Rightarrow> string"
  parse_payload :: "string \<Rightarrow> string + 'p"
  zero_payload :: 'p
  json_encode :: "string \<Rightarrow> string"
  json_decode :: "string \<Rightarrow> string + string"

text \<open>
  A payload is parsed from its own text, which is not empty; a JSON string is decoded from its
  encoding, which is not empty and not \<open>null\<close>; \<open>json.Unmarshal\<close> of \<open>null\<close> into a string leaves the
  empty string.
\<close>

definition payload_ok :: "'p payload_api \<Rightarrow> bool" where
  "payload_ok api \<longleftrightarrow>
     (\<forall>p. parse_payload api (show_payload api p) = Inr p \<and> show_payload api p \<noteq> []) \<and>
     (\<forall>s. json_decode api (json_encode api s) = Inr s \<and> json_encode api s \<noteq> [] \<and> json_encode api s \<noteq> ''null'') \<and>
     json_decode api ''null'' = Inr []"

record 'p nullable =
  payload :: 'p
  Valid :: bool

datatype nullable_error = WireError string | PayloadError string

text \<open>\<open>nil\<close> is a nil pointer.\<close>

definition marshalNullable ::
  "'p payload_api \<Rightarrow> 'p nullable option \<Rightarrow> (string \<Rightarrow> (nullable_error, string) outcome) \<Rightarrow> string \<Rightarrow>
   (nullable_error, string) outcome" where
  "marshalNullable api n fn empty_wire =
     (case n of
        None \<Rightarrow> Ret empty_wire
      | Some v \<Rightarrow> if \<not> Valid v then Ret empty_wire else fn (show_payload api (payload v)))"

definition echo :: "string \<Rightarrow> (nullable_error, string) outcome" where
  "echo s = Ret s"

definition MarshalJSON :: "'p payload_api \<Rightarrow> 'p nullable \<Rightarrow> (nullable_error, string) outcome" where
  "MarshalJSON api n = marshalNullable api (Some n) (\<lambda>s. Ret (json_encode api s)) ''null''"

definition MarshalCSV :: "'p payload_api \<Rightarrow> 'p nullable \<Rightarrow> (nullable_error, string) outcome" where
  "MarshalCSV api n = marshalNullable api (Some n) echo []"

definition unmarshalJSONToString :: "'p payload_api \<Rightarrow> string \<Rightarrow> (nullable_error, string) outcome" where
  "unmarshalJSONToString api d =
     (case json_decode api d of Inl e \<Rightarrow> Fail (WireError e) | Inr s \<Rightarrow> Ret s)"

definition payloadFromString :: "'p payload_api \<Rightarrow> string \<Rightarrow> (nullable_error, 'p) outcome" where
  "payloadFromString api s =
     (case parse_payload api s of Inl e \<Rightarrow> Fail (PayloadError e) | Inr p \<Rightarrow> Ret p)"

text \<open>The new value; on an error the receiver keeps its old one.\<close>

definition unmarshalNullable ::
  "'p payload_api \<Rightarrow> string \<Rightarrow> (string \<Rightarrow> (nullable_error, string) outcome) \<Rightarrow>
   (string \<Rightarrow> (nullable_error, 'p) outcome) \<Rightarrow> (nullable_error, 'p nullable) outcome" where
  "unmarshalNullable api d wireToString stringToPayload =
     (if length d \<noteq> 0
      then obind (wireToString d) (\<lambda>s. obind (stringToPayload s) (\<lambda>p. Ret \<lparr>payload = p, Valid = True\<rparr>))
      else Ret \<lparr>payload = zero_payload api, Valid = False\<rparr>)"

definition UnmarshalJSON :: "'p payload_api \<Rightarrow> string \<Rightarrow> (nullable_error, 'p nullable) outcome" where
  "UnmarshalJSON api d = unmarshalNullable api d (unmarshalJSONToString api) (payloadFromString api)"

definition UnmarshalCSV :: "'p payload_api \<Rightarrow> string \<Rightarrow> (nullable_error, 'p nullable) outcome" where
  "UnmarshalCSV api s = unmarshalNullable api s echo (payloadFromString api)"

section \<open>Properties\<close>

lemmas wire_defs =
  MarshalCSV_def MarshalJSON_def UnmarshalCSV_def UnmarshalJSON_def marshalNullable_def unmarshalNullable_def
  unmarshalJSONToString_def payloadFromString_def echo_def

text \<open>
  Round trips of nullable values. Through CSV every value comes back, null as null. Through JSON a
  valid value comes back, but null does not: its JSON form \<open>null\<close> is decoded as the payload of the
  empty string, which for addresses is a valid zero address and for integers an error.
\<close>

theorem nullable_roundtrips:
  assumes "payload_ok api"
  shows "obind (MarshalCSV api n) (UnmarshalCSV api) =
           Ret (if Valid n then n else \<lparr>payload = zero_payload api, Valid = False\<rparr>) \<and>
         obind (MarshalJSON api n) (UnmarshalJSON api) =
           (if Valid n then Ret n
            else case parse_payload api [] of
                   Inl e \<Rightarrow> Fail (PayloadError e)
                 | Inr p \<Rightarrow> Ret \<lparr>payload = p, Valid = True\<rparr>)"
  using assms by (cases n; cases "Valid n") (auto simp: wire_defs payload_ok_def split: sum.splits)

text \<open>An instance: one-byte payloads written as two hexadecimal digits, "" parsed as zero.\<close>

definition demo_payload :: "bool payload_api" where
  "demo_payload =
     \<lparr>show_payload = (\<lambda>b. if b then ''01'' else ''00''), parse_payload = (\<lambda>s. Inr (s = ''01'')),
      zero_payload = False, json_encode = (\<lambda>s. CHR 0x22 # s @ [CHR 0x22]),
      json_decode = (\<lambda>d. if d = ''null'' then Inr [] else Inr (butlast (tl d)))\<rparr>"

theorem nullable_roundtrips_witness:
  "obind (MarshalJSON demo_payload \<lparr>payload = True, Valid = False\<rparr>) (UnmarshalJSON demo_payload) =
     Ret \<lparr>payload = False, Valid = True\<rparr>"
proof -
  have "payload_ok demo_payload" by (auto simp: payload_ok_def demo_payload_def)
  from nullable_roundtrips [OF this, of "\<lparr>payload = True, Valid = False\<rparr>"] show ?thesis
    by (simp add: demo_payload_def)
qed

end
