(* ===== verification/Dbtx.thy ===== *)
theory Dbtx
  imports GoText
begin

text \<open>
  Reinterpreted memory (\<open>go/memconv/memconv.go\<close>) and database transactions
  (\<open>go/dbtx/dbtx.go\<close>). A region of 64 or 32 bits is a word; the types it can be seen as are
  views of the word. Floating-point views are left out. The database is a state; a
  transaction works on its own copy, and the driver's answers to begin, commit and rollback are
  arguments.
\<close>

section \<open>Views of a region of memory\<close>

text \<open>A view writes a value into the region and reads it back; it uses every bit.\<close>

locale memory_view =
  fixes write_view :: "'a \<Rightarrow> 'w"
    and read_view :: "'w \<Rightarrow> 'a"
    and fits :: "'a \<Rightarrow> bool"
  assumes read_write: "fits x \<Longrightarrow> read_view (write_view x) = x"
    and write_read: "write_view (read_view w) = w"
    and read_fits: "fits (read_view w)"
begin

lemma read_inj: "read_view v = read_view w \<Longrightarrow> v = w"
  by (metis write_read)

lemma write_inj: "fits x \<Longrightarrow> fits y \<Longrightarrow> write_view x = write_view y \<Longrightarrow> x = y"
  by (metis read_write)

end

text \<open>The region is little-endian, as on the platforms Go's \<open>unsafe\<close> casts of this repository run on.\<close>

definition bytes_of64 :: "u64 \<Rightarrow> bytes" where
  "bytes_of64 w = rev (be_bytes 8 (unat w))"

definition of_bytes64 :: "bytes \<Rightarrow> u64" where
  "of_bytes64 bs = of_nat (SetBytes (rev bs))"

definition int64_view :: "u64 \<Rightarrow> int" where
  "int64_view w = sint w"

definition uint64_view :: "u64 \<Rightarrow> nat" where
  "uint64_view w = unat w"

definition bytes_of32 :: "u32 \<Rightarrow> bytes" where
  "bytes_of32 w = rev (be_bytes 4 (unat w))"

definition of_bytes32 :: "bytes \<Rightarrow> u32" where
  "of_bytes32 bs = of_nat (SetBytes (rev bs))"

definition int32_view :: "u32 \<Rightarrow> int" where
  "int32_view w = sint w"

text \<open>\<open>Cast[From, To]\<close>: the value written as one type, read as another.\<close>

definition Cast :: "('a \<Rightarrow> 'w) \<Rightarrow> ('w \<Rightarrow> 'b) \<Rightarrow> 'a \<Rightarrow> 'b" where
  "Cast wr rd x = rd (wr x)"

text \<open>\<open>CastPtr\<close>: two pointers to the same address of a store, seen as different types.\<close>

type_synonym 'w store = "nat \<Rightarrow> 'w"

definition ptr_read :: "('w \<Rightarrow> 'a) \<Rightarrow> 'w store \<Rightarrow> nat \<Rightarrow> 'a" where
  "ptr_read rd st p = rd (st p)"

definition ptr_write :: "('a \<Rightarrow> 'w) \<Rightarrow> 'w store \<Rightarrow> nat \<Rightarrow> 'a \<Rightarrow> 'w store" where
  "ptr_write wr st p x = st(p := wr x)"

definition CastPtr :: "nat \<Rightarrow> nat" where
  "CastPtr p = p"

definition Cast32 :: "('a \<Rightarrow> u32) \<Rightarrow> (u32 \<Rightarrow> 'b) \<Rightarrow> 'a \<Rightarrow> 'b" where
  "Cast32 wr rd x = Cast wr rd x"

definition CastPtr32 :: "nat \<Rightarrow> nat" where
  "CastPtr32 p = CastPtr p"

interpretation i64: memory_view "word_of_int :: int \<Rightarrow> u64" int64_view "\<lambda>x. - (2 ^ 63) \<le> x \<and> x < 2 ^ 63"
proof
  show "int64_view (word_of_int x :: u64) = x" if "- (2 ^ 63) \<le> x \<and> x < 2 ^ 63" for x
    using that by (simp add: int64_view_def signed_of_int signed_take_bit_int_eq_self)
  show "word_of_int (int64_view w) = w" for w :: u64
    by (simp add: int64_view_def)
  show "- (2 ^ 63) \<le> int64_view w \<and> int64_view w < 2 ^ 63" for w :: u64
    using sint_greater_eq [of w] sint_less [of w] by (simp add: int64_view_def)
qed

lemma be_bytes_64: "SetBytes (be_bytes 8 (unat (w :: u64))) = unat w"
proof -
  have "unat w < 256 ^ 8" using unsigned_less [of w] by simp
  then show ?thesis by (simp only: SetBytes_be_bytes mod_less)
qed

interpretation b8: memory_view of_bytes64 bytes_of64 "\<lambda>bs. length bs = 8"
proof
  show "bytes_of64 (of_bytes64 bs) = bs" if "length bs = 8" for bs
  proof -
    have "SetBytes (rev bs) < 2 ^ 64" using SetBytes_bound [of "rev bs"] that by simp
    then have "unat (of_nat (SetBytes (rev bs)) :: u64) = SetBytes (rev bs)" by (simp add: unat_of_nat)
    then show ?thesis
      using be_bytes_SetBytes [of "rev bs"] that by (simp add: bytes_of64_def of_bytes64_def)
  qed
  show "of_bytes64 (bytes_of64 w) = w" for w :: u64
    by (simp add: of_bytes64_def bytes_of64_def be_bytes_64)
qed (simp add: bytes_of64_def)

interpretation i32: memory_view "word_of_int :: int \<Rightarrow> u32" int32_view "\<lambda>x. - (2 ^ 31) \<le> x \<and> x < 2 ^ 31"
proof
  show "int32_view (word_of_int x :: u32) = x" if "- (2 ^ 31) \<le> x \<and> x < 2 ^ 31" for x
    using that by (simp add: int32_view_def signed_of_int signed_take_bit_int_eq_self)
  show "word_of_int (int32_view w) = w" for w :: u32
    by (simp add: int32_view_def)
  show "- (2 ^ 31) \<le> int32_view w \<and> int32_view w < 2 ^ 31" for w :: u32
    using sint_greater_eq [of w] sint_less [of w] by (simp add: int32_view_def)
qed

lemma be_bytes_32: "SetBytes (be_bytes 4 (unat (w :: u32))) = unat w"
proof -
  have "unat w < 256 ^ 4" using unsigned_less [of w] by simp
  then show ?thesis by (simp only: SetBytes_be_bytes mod_less)
qed

interpretation b4: memory_view of_bytes32 bytes_of32 "\<lambda>bs. length bs = 4"
proof
  show "bytes_of32 (of_bytes32 bs) = bs" if "length bs = 4" for bs
  proof -
    have "SetBytes (rev bs) < 2 ^ 32" using SetBytes_bound [of "rev bs"] that by simp
    then have "unat (of_nat (SetBytes (rev bs)) :: u32) = SetBytes (rev bs)" by (simp add: unat_of_nat)
    then show ?thesis
      using be_bytes_SetBytes [of "rev bs"] that by (simp add: bytes_of32_def of_bytes32_def)
  qed
  show "of_bytes32 (bytes_of32 w) = w" for w :: u32
    by (simp add: of_bytes32_def bytes_of32_def be_bytes_32)
qed (simp add: bytes_of32_def)

section \<open>Transactions\<close>

datatype db_error =
    BeginError string
  | FuncError string "string option"   \<comment> \<open>the function's error, and the rollback's\<close>
  | CommitError string
  | UnsupportedExclusivity int
  | LockError int string

text \<open>
  The driver, per transaction: whether it begins, how it answers a rollback, and a commit with the
  state that the transaction produced.
\<close>

record 's driver =
  beginTx :: "nat \<Rightarrow> 's \<Rightarrow> string option"
  rollback :: "nat \<Rightarrow> 's \<Rightarrow> string option"
  commit :: "nat \<Rightarrow> 's \<Rightarrow> 's \<Rightarrow> 's \<times> string option"

type_synonym 's tx_func = "'s \<Rightarrow> 's \<times> string option"

text \<open>The loop of \<open>Transactor.Do\<close>: the database afterwards, and the error.\<close>

fun do_loop :: "'s driver \<Rightarrow> nat \<Rightarrow> 's tx_func list \<Rightarrow> 's \<Rightarrow> 's \<times> db_error option" where
  "do_loop drv k [] db = (db, None)"
| "do_loop drv k (fn # fns) db =
     (case beginTx drv k db of
        Some e \<Rightarrow> (db, Some (BeginError e))
      | None \<Rightarrow>
          (case fn db of (db', err) \<Rightarrow>
             case err of
               Some e \<Rightarrow> (db, Some (FuncError e (rollback drv k db)))
             | None \<Rightarrow>
                 (case commit drv k db db' of (db'', cerr) \<Rightarrow>
                    case cerr of
                      Some e \<Rightarrow> (db'', Some (CommitError e))
                    | None \<Rightarrow> do_loop drv (Suc k) fns db'')))"

definition Transactor_Do :: "'s driver \<Rightarrow> 's tx_func list \<Rightarrow> 's \<Rightarrow> 's \<times> db_error option" where
  "Transactor_Do drv fns db = do_loop drv 0 fns db"

definition dbtx_Do :: "'s driver \<Rightarrow> 's tx_func list \<Rightarrow> 's \<Rightarrow> 's \<times> db_error option" where
  "dbtx_Do drv fns db = Transactor_Do drv fns db"

text \<open>What the driver promises: a commit without an error installs the state, one with an error does not.\<close>

definition driver_ok :: "'s driver \<Rightarrow> bool" where
  "driver_ok drv \<longleftrightarrow> (\<forall>k db db'. case commit drv k db db' of (r, None) \<Rightarrow> r = db' | (r, Some e) \<Rightarrow> r = db)"

section \<open>Advisory locks\<close>

definition lock_query :: "string \<Rightarrow> string \<Rightarrow> int \<Rightarrow> (db_error, string) outcome" where
  "lock_query excl shared e =
     (if e = 1 then Ret excl else if e = 2 then Ret shared else Fail (UnsupportedExclusivity e))"

definition PgTxLock :: "(string \<Rightarrow> int \<Rightarrow> string option) \<Rightarrow> int \<Rightarrow> int \<Rightarrow> (db_error, unit) outcome" where
  "PgTxLock exec e key =
     obind (lock_query ''SELECT pg_advisory_xact_lock($1)'' ''SELECT pg_advisory_xact_lock_shared($1)'' e) (\<lambda>qry.
       case exec qry key of Some m \<Rightarrow> Fail (LockError key m) | None \<Rightarrow> Ret ())"

definition TryPgTxLock :: "(string \<Rightarrow> int \<Rightarrow> string + bool) \<Rightarrow> int \<Rightarrow> int \<Rightarrow> (db_error, bool) outcome" where
  "TryPgTxLock query_row e key =
     obind (lock_query ''SELECT pg_try_advisory_xact_lock($1)'' ''SELECT pg_try_advisory_xact_lock_shared($1)'' e) (\<lambda>qry.
       case query_row qry key of Inl m \<Rightarrow> Fail (LockError key m) | Inr ok \<Rightarrow> Ret ok)"

text \<open>\<open>copy(b[:], h[:])\<close> of the 32-byte sum fills all eight bytes.\<close>

definition PgLockKey :: "(string \<Rightarrow> bytes) \<Rightarrow> string \<Rightarrow> int" where
  "PgLockKey sha256 key = Cast of_bytes64 int64_view (take 8 (sha256 key))"

section \<open>Properties\<close>

text \<open>The effect of the functions up to the first that fails.\<close>

fun apply_prefix :: "'s tx_func list \<Rightarrow> nat \<Rightarrow> 's \<Rightarrow> 's" where
  "apply_prefix fns 0 db = db"
| "apply_prefix [] (Suc n) db = db"
| "apply_prefix (f # fns) (Suc n) db = apply_prefix fns n (fst (f db))"

lemma do_loop_prefix:
  assumes "driver_ok drv" "do_loop drv k fns db = (db', err)"
  shows "\<exists>n \<le> length fns. db' = apply_prefix fns n db \<and> (err = None \<longleftrightarrow> n = length fns) \<and>
     (\<forall>m < n. snd ((fns ! m) (apply_prefix fns m db)) = None)"
  using assms(2)
proof (induction fns arbitrary: k db)
  case (Cons fn fns)
  obtain db1 e1 where fn: "fn db = (db1, e1)" by (cases "fn db")
  have c: "case commit drv k db db1 of (r, None) \<Rightarrow> r = db1 | (r, Some e) \<Rightarrow> r = db"
    using assms(1) unfolding driver_ok_def by (elim allE)
  show ?case
  proof (cases "beginTx drv k db = None \<and> e1 = None \<and> snd (commit drv k db db1) = None")
    case False
    then have "db' = db \<and> err \<noteq> None"
      using Cons.prems fn c by (auto split: option.splits prod.splits)
    then show ?thesis by (intro exI [of _ 0]) simp
  next
    case True
    then have "fst (commit drv k db db1) = db1"
      using c by (auto split: prod.splits option.splits)
    then have "do_loop drv (Suc k) fns db1 = (db', err)"
      using Cons.prems fn True by (auto split: prod.splits)
    from Cons.IH [OF this] obtain n where n: "n \<le> length fns" "db' = apply_prefix fns n db1"
      "err = None \<longleftrightarrow> n = length fns" "\<forall>m < n. snd ((fns ! m) (apply_prefix fns m db1)) = None"
      by blast
    have "snd (((fn # fns) ! m) (apply_prefix (fn # fns) m db)) = None" if "m < Suc n" for m
      using n(4) that fn True by (cases m) auto
    then show ?thesis using n fn by (intro exI [of _ "Suc n"]) auto
  qed
qed simp

text \<open>
  C20. Transactions are all or nothing, in order: whatever the driver answers, the database after \<open>Do\<close> is
  the result of a prefix of the functions, each of which succeeded, and \<open>Do\<close> returns no error
  exactly when the prefix is all of them.
\<close>

theorem Do_commits_a_prefix:
  assumes "driver_ok drv" and "Transactor_Do drv fns db = (db', err)"
  shows "\<exists>n \<le> length fns. db' = apply_prefix fns n db \<and> (err = None \<longleftrightarrow> n = length fns) \<and>
     (\<forall>m < n. snd ((fns ! m) (apply_prefix fns m db)) = None)"
  using do_loop_prefix [OF assms(1), of 0 fns db db' err] assms(2) by (simp add: Transactor_Do_def)

definition demo_driver :: "int driver" where
  "demo_driver = \<lparr>beginTx = (\<lambda>_ _. None), rollback = (\<lambda>_ _. None), commit = (\<lambda>_ _ db'. (db', None))\<rparr>"

theorem Do_commits_a_prefix_witness:
  "\<exists>n \<le> 3. (5::int) = apply_prefix [\<lambda>x. (x + 5, None), \<lambda>x. (x + 100, Some ''no''), \<lambda>x. (x + 1000, None)] n 0 \<and> n \<noteq> 3"
proof -
  let ?fns = "[\<lambda>x. (x + 5, None), \<lambda>x. (x + 100, Some ''no''), \<lambda>x. (x + 1000, None)] :: int tx_func list"
  have "driver_ok demo_driver" by (simp add: driver_ok_def demo_driver_def)
  moreover have "Transactor_Do demo_driver ?fns 0 = (5, Some (FuncError ''no'' None))"
    by (simp add: Transactor_Do_def demo_driver_def)
  ultimately have "\<exists>n \<le> length ?fns. 5 = apply_prefix ?fns n 0 \<and> (Some (FuncError ''no'' None) = None \<longleftrightarrow> n = length ?fns) \<and>
     (\<forall>m < n. snd ((?fns ! m) (apply_prefix ?fns m 0)) = None)"
    by (rule Do_commits_a_prefix)
  then show ?thesis by (auto simp: numeral_3_eq_3)
qed

text \<open>Reinterpreting there and back is the identity, and a write through one pointer is read by the other.\<close>

lemma Cast_roundtrip:
  "length bs = 8 \<Longrightarrow> Cast word_of_int bytes_of64 (Cast of_bytes64 int64_view bs) = bs"
  by (simp add: Cast_def i64.write_read b8.read_write)

lemma Cast32_roundtrip:
  "length bs = 4 \<Longrightarrow> Cast32 word_of_int bytes_of32 (Cast32 of_bytes32 int32_view bs) = bs"
  by (simp add: Cast32_def Cast_def i32.write_read b4.read_write)

lemma CastPtr_aliases:
  "ptr_read int64_view (ptr_write of_bytes64 st p bs) (CastPtr p) = Cast of_bytes64 int64_view bs"
  by (simp add: ptr_read_def ptr_write_def CastPtr_def Cast_def)

end
