(* ===== verification/Solcover.thy ===== *)
theory Solcover
  imports GoText "HOL-Library.AList"
begin

text \<open>
  Mapping of EVM program counters to Solidity source (\<open>go/solcover/solcover.go\<close>): the parser of
  runtime code, the decompression of solc's source maps, and the registries of source files,
  contracts and deployments. The opcode table of go-ethereum and the mapper from offsets to
  lines are arguments; so is the hash function. \<open>int\<close> is 64 bits wide.
\<close>

section \<open>Text of code\<close>

definition is_xdigit :: "char \<Rightarrow> bool" where
  "is_xdigit c \<longleftrightarrow> (case digit_value True c of Some d \<Rightarrow> d < 16 | None \<Rightarrow> False)"

text \<open>
  \<open>libraryPlaceholder\<close> is \<open>73__\$[[:xdigit:]]{34}\$__\<close>: a match at the front of a text, all of
  42 characters.
\<close>

definition placeholder_at :: "string \<Rightarrow> bool" where
  "placeholder_at s \<longleftrightarrow>
     42 \<le> length s \<and> take 5 s = ''73__$'' \<and> list_all is_xdigit (take 34 (drop 5 s)) \<and>
     take 3 (drop 39 s) = ''$__''"

text \<open>\<open>ReplaceAllString\<close>: leftmost matches, not overlapping.\<close>

function replace_placeholders :: "string \<Rightarrow> 'a list \<Rightarrow> (char \<Rightarrow> 'a) \<Rightarrow> 'a list" where
  "replace_placeholders s repl lit =
     (if s = [] then []
      else if placeholder_at s then repl @ replace_placeholders (drop 42 s) repl lit
      else lit (hd s) # replace_placeholders (tl s) repl lit)"
  by pat_completeness auto
termination
  by (relation "measure (\<lambda>(s, repl, lit). length s)") auto

declare replace_placeholders.simps [simp del]

fun has_placeholder :: "string \<Rightarrow> bool" where
  "has_placeholder [] \<longleftrightarrow> False"
| "has_placeholder (c # s) \<longleftrightarrow> placeholder_at (c # s) \<or> has_placeholder s"

definition pushZeroAddress :: string where
  "pushZeroAddress = ''73'' @ replicate 40 CHR ''0''"

datatype cover_error =
    HexLength
  | HexByte char
  | AtoiError string string        \<comment> \<open>the field and its text\<close>
  | LineAndColumnError int string

text \<open>\<open>hex.DecodeString\<close>\<close>

fun hex_decode :: "string \<Rightarrow> (cover_error, bytes) outcome" where
  "hex_decode [] = Ret []"
| "hex_decode [c] = (if is_xdigit c then Fail HexLength else Fail (HexByte c))"
| "hex_decode (a # b # s) =
     (if \<not> is_xdigit a then Fail (HexByte a)
      else if \<not> is_xdigit b then Fail (HexByte b)
      else obind (hex_decode s) (\<lambda>bs.
        Ret (of_nat (the (digit_value True a) * 16 + the (digit_value True b)) # bs)))"

section \<open>Parsing code\<close>

record solc_contract =
  Code :: string
  RuntimeCode :: string
  SrcMapRuntime :: string

definition PUSH0 :: u8 where
  "PUSH0 = 0x5f"

text \<open>
  What the parser relies on of the opcode table: the opcodes that push, PUSH1 to PUSH32 and, in newer
  versions, PUSH0.
\<close>

definition push_ok :: "(u8 \<Rightarrow> bool) \<Rightarrow> bool" where
  "push_ok isPush \<longleftrightarrow> (\<forall>c. (isPush c \<longrightarrow> 0x5f \<le> unat c \<and> unat c \<le> 0x7f) \<and>
                         (0x60 \<le> unat c \<and> unat c \<le> 0x7f \<longrightarrow> isPush c))"

text \<open>The loop over the code: the entries of the map in the order they are made, and the opcodes.\<close>

function parse_loop :: "(u8 \<Rightarrow> bool) \<Rightarrow> bytes \<Rightarrow> nat \<Rightarrow> nat \<Rightarrow> (nat \<times> nat) list \<times> u8 list" where
  "parse_loop isPush code pc instruction =
     (if pc < length code
      then let c = code ! pc;
               pc' = pc + (if isPush c then unat (c - PUSH0) else 0);
               (ins, ops) = parse_loop isPush code (Suc pc') (Suc instruction)
           in ((pc, instruction) # ins, c # ops)
      else ([], []))"
  by pat_completeness auto
termination
  by (relation "measure (\<lambda>(isPush, code, pc, i). length code - pc)") auto

declare parse_loop.simps [simp del]

definition parseCode ::
  "(u8 \<Rightarrow> bool) \<Rightarrow> solc_contract \<Rightarrow> (cover_error, (nat \<times> nat) list \<times> u8 list) outcome" where
  "parseCode isPush c =
     obind (hex_decode (replace_placeholders (TrimPrefix (RuntimeCode c) ''0x'') pushZeroAddress id)) (\<lambda>code.
       Ret (parse_loop isPush code 0 0))"

section \<open>Source maps\<close>

record location =
  InstructionNumber :: nat
  OpCode :: u8
  FileIdx :: int
  Source :: string
  Start :: int
  Length :: int
  Line :: int
  Col :: int
  EndLine :: int
  EndCol :: int
  Jump :: string
  ModifierDepth :: int

record source_file =
  contents :: string
  isExternal :: bool

text \<open>The mapper of a file: its length, and the zero-based line and column of an offset.\<close>

record mapper_api =
  mapper_Len :: "string \<Rightarrow> int"
  LineAndColumn :: "string \<Rightarrow> int \<Rightarrow> string + int \<times> int"

definition nMappingFields :: nat where
  "nMappingFields = 5"

definition wrap64 :: "int \<Rightarrow> int" where
  "wrap64 n = (n + 2 ^ 63) mod 2 ^ 64 - 2 ^ 63"

definition atoi_field :: "string \<Rightarrow> string \<Rightarrow> (cover_error, int) outcome" where
  "atoi_field name s = (case Atoi s of None \<Rightarrow> Fail (AtoiError name s) | Some n \<Rightarrow> Ret n)"

text \<open>
  The map literal over \<open>start\<close> and \<open>start + length\<close>: when the two offsets are equal the second
  entry replaces the first, and only the end position is set. The order in which the two are
  looked up matters only for which of two errors is returned.
\<close>

definition set_start :: "location \<Rightarrow> int \<times> int \<Rightarrow> location" where
  "set_start loc lc = loc\<lparr>Line := fst lc + 1, Col := snd lc + 1\<rparr>"

definition set_end :: "location \<Rightarrow> int \<times> int \<Rightarrow> location" where
  "set_end loc lc = loc\<lparr>EndLine := fst lc + 1, EndCol := snd lc + 1\<rparr>"

definition lookup_position ::
  "mapper_api \<Rightarrow> string \<Rightarrow> string \<Rightarrow> int \<Rightarrow> (cover_error, int \<times> int) outcome" where
  "lookup_position api text file offset =
     (case LineAndColumn api text offset of
        Inl e \<Rightarrow> Fail (LineAndColumnError offset file) | Inr lc \<Rightarrow> Ret lc)"

definition locationFromNode ::
  "mapper_api \<Rightarrow> (string \<times> source_file) list \<Rightarrow> string list \<Rightarrow> string list \<Rightarrow> (cover_error, location) outcome" where
  "locationFromNode api sourceCode node sourceList =
     obind (atoi_field ''s'' (node ! 0)) (\<lambda>start.
     obind (atoi_field ''l'' (node ! 1)) (\<lambda>len.
     obind (atoi_field ''f'' (node ! 2)) (\<lambda>fileIdx0.
     obind (atoi_field ''m'' (node ! 4)) (\<lambda>modDepth.
       let fileIdx = (if start < 0 \<or> len < 0 \<or> fileIdx0 < 0 then 2 ^ 63 - 1 else fileIdx0);
           loc = \<lparr>InstructionNumber = 0, OpCode = 0, FileIdx = fileIdx, Source = [], Start = start,
                  Length = len, Line = 0, Col = 0, EndLine = 0, EndCol = 0, Jump = node ! 3,
                  ModifierDepth = modDepth\<rparr>
       in if int (length sourceList) \<le> fileIdx then Ret loc
          else let file = sourceList ! nat fileIdx; loc1 = loc\<lparr>Source := file\<rparr> in
            case map_of sourceCode file of
              None \<Rightarrow> Panic
            | Some c \<Rightarrow>
                if mapper_Len api (contents c) = 0 then Ret loc1
                else let stop = wrap64 (start + len) in
                  if start = stop
                  then obind (lookup_position api (contents c) file stop) (\<lambda>lc. Ret (set_end loc1 lc))
                  else obind (lookup_position api (contents c) file start) (\<lambda>lc.
                       obind (lookup_position api (contents c) file stop) (\<lambda>lc'.
                         Ret (set_end (set_start loc1 lc) lc')))))))"

text \<open>
  One node, decompressed: \<open>copy\<close> overwrites as many fields of \<open>curr\<close> as the text has; an empty field
  takes the last value. The new \<open>last\<close> and \<open>curr\<close> are then the same.
\<close>

definition overwrite :: "string list \<Rightarrow> string list \<Rightarrow> string list" where
  "overwrite cur fs = take nMappingFields fs @ drop (length (take nMappingFields fs)) cur"

definition decompress_node :: "string list \<times> string list \<Rightarrow> string \<Rightarrow> string list \<times> string list" where
  "decompress_node st instr =
     (case st of (lst, cur) \<Rightarrow>
        let c = overwrite cur (split_char CHR '':'' instr) in
        (map2 (\<lambda>l f. if f \<noteq> [] then f else l) lst c, map2 (\<lambda>l f. if f \<noteq> [] then f else l) lst c))"

fun srcmap_loop ::
  "mapper_api \<Rightarrow> (string \<times> source_file) list \<Rightarrow> string list \<Rightarrow> nat \<Rightarrow> string list \<times> string list \<Rightarrow>
   string list \<Rightarrow> (cover_error, location list) outcome" where
  "srcmap_loop api sourceCode sourceList i st [] = Ret []"
| "srcmap_loop api sourceCode sourceList i st (instr # instrs) =
     (let st' = decompress_node st instr in
      obind (locationFromNode api sourceCode (snd st') sourceList) (\<lambda>loc.
      obind (srcmap_loop api sourceCode sourceList (Suc i) st' instrs) (\<lambda>locs.
        Ret (loc\<lparr>InstructionNumber := i\<rparr> # locs))))"

definition parseSrcMap ::
  "mapper_api \<Rightarrow> (string \<times> source_file) list \<Rightarrow> solc_contract \<Rightarrow> string list \<Rightarrow> (cover_error, location list) outcome" where
  "parseSrcMap api sourceCode c sourceList =
     srcmap_loop api sourceCode sourceList 0 (replicate 5 [], replicate 5 []) (split_char CHR '';'' (SrcMapRuntime c))"

section \<open>Registries\<close>

record compiled_contract =
  cname :: string
  csource :: solc_contract
  csources :: "string list"
  locations :: "location list"
  instructions :: "(nat \<times> nat) list"

datatype pattern_item = Lit char | XDigit

type_synonym address = bytes

record registry =
  sourceCode :: "(string \<times> source_file) list"
  contractsByName :: "(string \<times> compiled_contract) list"
  contractsByHash :: "(bytes \<times> compiled_contract) list"
  contractMatchers :: "(bytes \<times> pattern_item list \<times> compiled_contract) list"
  deployedContracts :: "(address \<times> compiled_contract) list"

definition RegisterSourceCode :: "string \<Rightarrow> string \<Rightarrow> bool \<Rightarrow> registry \<Rightarrow> registry" where
  "RegisterSourceCode fileName text ext g =
     g\<lparr>sourceCode := AList.update fileName \<lparr>contents = text, isExternal = ext\<rparr> (sourceCode g)\<rparr>"

text \<open>The text of a pattern, which is hashed, and the pattern it means, for code without metacharacters.\<close>

definition pattern_text :: "string \<Rightarrow> string" where
  "pattern_text code = replace_placeholders (TrimPrefix code ''0x'') ''73[[:xdigit:]]{40}'' id"

definition pattern_of :: "string \<Rightarrow> pattern_item list" where
  "pattern_of code = replace_placeholders (TrimPrefix code ''0x'') (Lit CHR ''7'' # Lit CHR ''3'' # replicate 40 XDigit) Lit"

definition registerContractByRegexp ::
  "(string \<Rightarrow> bytes) \<Rightarrow> compiled_contract \<Rightarrow> registry \<Rightarrow> registry" where
  "registerContractByRegexp sha256 cc g =
     (let code = Code (csource cc) in
      g\<lparr>contractMatchers := AList.update (sha256 (pattern_text code)) (pattern_of code, cc) (contractMatchers g)\<rparr>)"

definition registerContractByHash ::
  "(bytes \<Rightarrow> bytes) \<Rightarrow> compiled_contract \<Rightarrow> registry \<Rightarrow> (cover_error, registry) outcome" where
  "registerContractByHash sha256 cc g =
     (case hex_decode (TrimPrefix (Code (csource cc)) ''0x'') of
        Ret bin \<Rightarrow> Ret (g\<lparr>contractsByHash := AList.update (sha256 bin) cc (contractsByHash g)\<rparr>)
      | _ \<Rightarrow> Panic)"

record cover_env =
  isPush :: "u8 \<Rightarrow> bool"
  mapper :: mapper_api
  sha256_text :: "string \<Rightarrow> bytes"
  sha256_bytes :: "bytes \<Rightarrow> bytes"

text \<open>Every error is a panic; so is a source map with more entries than the code has instructions.\<close>

definition RegisterContract ::
  "cover_env \<Rightarrow> string \<Rightarrow> solc_contract \<Rightarrow> string list \<Rightarrow> registry \<Rightarrow> (cover_error, registry) outcome" where
  "RegisterContract env name c sourceList g =
     (case parseCode (isPush env) c of
        Ret (ins, ops) \<Rightarrow>
          (case parseSrcMap (mapper env) (sourceCode g) c sourceList of
             Ret locs \<Rightarrow>
               if length ops < length locs then Panic
               else let cc = \<lparr>cname = name, csource = c, csources = sourceList,
                              locations = map2 (\<lambda>l op. l\<lparr>OpCode := op\<rparr>) locs ops, instructions = ins\<rparr>;
                        g1 = g\<lparr>contractsByName := AList.update name cc (contractsByName g)\<rparr>
                    in if has_placeholder (Code c) then Ret (registerContractByRegexp (sha256_text env) cc g1)
                       else registerContractByHash (sha256_bytes env) cc g1
           | _ \<Rightarrow> Panic)
      | _ \<Rightarrow> Panic)"

text \<open>\<open>MatchString\<close> is not anchored: the pattern may match anywhere in the text.\<close>

fun match_here :: "pattern_item list \<Rightarrow> string \<Rightarrow> bool" where
  "match_here [] s = True"
| "match_here (p # ps) [] = False"
| "match_here (p # ps) (c # s) = ((case p of Lit d \<Rightarrow> c = d | XDigit \<Rightarrow> is_xdigit c) \<and> match_here ps s)"

fun match_anywhere :: "pattern_item list \<Rightarrow> string \<Rightarrow> bool" where
  "match_anywhere ps [] = match_here ps []"
| "match_anywhere ps (c # s) = (match_here ps (c # s) \<or> match_anywhere ps s)"

text \<open>The matchers are tried in an order of their map.\<close>

definition RegisterDeployedContract ::
  "cover_env \<Rightarrow> (bytes \<times> pattern_item list \<times> compiled_contract) list \<Rightarrow> address \<Rightarrow> bytes \<Rightarrow> registry \<Rightarrow> registry" where
  "RegisterDeployedContract env order addr code g =
     (case map_of (contractsByHash g) (sha256_bytes env code) of
        Some c \<Rightarrow> g\<lparr>deployedContracts := AList.update addr c (deployedContracts g)\<rparr>
      | None \<Rightarrow>
          (case find (\<lambda>(h, re, c). match_anywhere re (hex_encode code)) order of
             Some (h, re, c) \<Rightarrow> g\<lparr>deployedContracts := AList.update addr c (deployedContracts g)\<rparr>
           | None \<Rightarrow> g))"

text \<open>The location of a program counter; an instruction without a location is out of range.\<close>

definition cc_location :: "compiled_contract option \<Rightarrow> nat \<Rightarrow> (cover_error, location option) outcome" where
  "cc_location cc pc =
     (case cc of
        None \<Rightarrow> Ret None
      | Some c \<Rightarrow>
          (case map_of (instructions c) pc of
             None \<Rightarrow> Ret None
           | Some i \<Rightarrow> if i < length (locations c) then Ret (Some (locations c ! i)) else Panic))"

definition Source_at :: "registry \<Rightarrow> address \<Rightarrow> nat \<Rightarrow> (cover_error, location option) outcome" where
  "Source_at g addr pc = cc_location (map_of (deployedContracts g) addr) pc"

definition SourceByName :: "registry \<Rightarrow> string \<Rightarrow> nat \<Rightarrow> (cover_error, location option) outcome" where
  "SourceByName g name pc = cc_location (map_of (contractsByName g) name) pc"

section \<open>Assembled code\<close>

type_synonym instr = "u8 \<times> bytes"

definition well_formed :: "(u8 \<Rightarrow> bool) \<Rightarrow> instr \<Rightarrow> bool" where
  "well_formed push i \<longleftrightarrow> length (snd i) = (if push (fst i) then unat (fst i - PUSH0) else 0)"

definition assemble :: "instr list \<Rightarrow> bytes" where
  "assemble ins = concat (map (\<lambda>(op, d). op # d) ins)"

text \<open>The program counters of the instructions, from a first one on.\<close>

fun offsets :: "nat \<Rightarrow> instr list \<Rightarrow> nat list" where
  "offsets pc [] = []"
| "offsets pc ((op, d) # ins) = pc # offsets (Suc pc + length d) ins"

lemma length_offsets [simp]: "length (offsets pc ins) = length ins"
  by (induction pc ins rule: offsets.induct) simp_all

lemma parse_loop_assemble:
  assumes "list_all (well_formed push) ins"
  shows "parse_loop push (pre @ assemble ins) (length pre) k =
     (zip (offsets (length pre) ins) [k..<k + length ins], map fst ins)"
  using assms
proof (induction ins arbitrary: pre k)
  case Nil
  then show ?case by (subst parse_loop.simps) (simp add: assemble_def)
next
  case (Cons i ins)
  obtain op d where i: "i = (op, d)" by (cases i)
  let ?pre = "pre @ op # d"
  have wf: "length d = (if push op then unat (op - PUSH0) else 0)"
    using Cons.prems i by (simp add: well_formed_def)
  have "parse_loop push (?pre @ assemble ins) (length ?pre) (Suc k) =
      (zip (offsets (length ?pre) ins) [Suc k..<Suc k + length ins], map fst ins)"
    using Cons.prems by (intro Cons.IH) simp
  moreover have "pre @ assemble (i # ins) = ?pre @ assemble ins" by (simp add: assemble_def i)
  moreover have "[k..<k + length (i # ins)] = k # [Suc k..<Suc k + length ins]"
    using upt_conv_Cons [of k "k + length (i # ins)"] by simp
  ultimately show ?case
    using wf i by (subst parse_loop.simps) (auto simp: Let_def nth_append)
qed

lemma offsets_strict: "sorted_wrt (<) (offsets pc ins) \<and> (\<forall>x \<in> set (offsets pc ins). pc \<le> x)"
  by (induction pc ins rule: offsets.induct) force+

lemma xdigit_digit: "n < 16 \<Longrightarrow> digit_value True (digit n) = Some n \<and> is_xdigit (digit n)"
  by (simp add: is_xdigit_def digit_roundtrip_fold)

lemma hex_decode_encode: "hex_decode (hex_encode bs) = Ret bs"
proof (induction bs)
  case (Cons b bs)
  have "unat b < 256" using unsigned_less [of b] by simp
  then have d: "unat b div 16 < 16" "unat b mod 16 < 16" by auto
  have "hex_decode (hex_encode (b # bs)) = Ret (of_nat (unat b div 16 * 16 + unat b mod 16) # bs)"
    using Cons xdigit_digit [OF d(1)] xdigit_digit [OF d(2)] by (simp add: hex_encode_def)
  then show ?case by simp
qed (simp add: hex_encode_def)

lemma replace_no_placeholder:
  "list_all is_xdigit s \<Longrightarrow> replace_placeholders s repl id = s"
proof (induction s repl "id :: char \<Rightarrow> char" rule: replace_placeholders.induct)
  case (1 s repl)
  show ?case
  proof (cases s)
    case (Cons c t)
    have "\<not> is_xdigit CHR ''_''" by (simp add: is_xdigit_def digit_value_def)
    moreover have "CHR ''_'' \<in> set s" if "placeholder_at s"
    proof -
      have "CHR ''_'' \<in> set (take 5 s)" using that by (simp add: placeholder_at_def)
      then show ?thesis by (rule in_set_takeD)
    qed
    ultimately have "\<not> placeholder_at s" using 1(3) by (auto simp: list_all_iff)
    then show ?thesis using 1 Cons by (subst replace_placeholders.simps) simp
  qed (simp add: replace_placeholders.simps)
qed

lemma hex_encode_xdigits: "list_all is_xdigit (hex_encode bs)"
proof -
  have "is_xdigit (digit (unat b div 16)) \<and> is_xdigit (digit (unat b mod 16))" for b :: u8
  proof -
    have "unat b < 256" using unsigned_less [of b] by simp
    then show ?thesis using xdigit_digit [of "unat b div 16"] xdigit_digit [of "unat b mod 16"] by auto
  qed
  then show ?thesis by (auto simp: hex_encode_def list_all_iff)
qed

section \<open>Decompression\<close>

definition field_text :: "nat \<Rightarrow> string \<Rightarrow> string" where
  "field_text j node = (let fs = split_char CHR '':'' node in if j < length fs then fs ! j else [])"

text \<open>The last text of a field that is not empty; what solc's compression leaves out.\<close>

definition last_given :: "string list \<Rightarrow> string" where
  "last_given xs = (case rev (filter (\<lambda>x. x \<noteq> []) xs) of [] \<Rightarrow> [] | x # _ \<Rightarrow> x)"

definition expanded :: "string list \<Rightarrow> string list" where
  "expanded nodes = map (\<lambda>j. last_given (map (field_text j) nodes)) [0..<nMappingFields]"

lemma last_given_snoc: "last_given (xs @ [x]) = (if x \<noteq> [] then x else last_given xs)"
  by (simp add: last_given_def)

lemma length_expanded [simp]: "length (expanded nodes) = 5"
  by (simp add: expanded_def nMappingFields_def)

lemma decompress_expanded:
  "decompress_node (expanded nodes, expanded nodes) node = (expanded (nodes @ [node]), expanded (nodes @ [node]))"
proof -
  let ?e = "expanded nodes" and ?fs = "split_char CHR '':'' node"
  let ?c = "overwrite ?e ?fs"
  have len: "length ?c = 5" by (simp add: overwrite_def nMappingFields_def)
  have "map2 (\<lambda>l f. if f \<noteq> [] then f else l) ?e ?c = expanded (nodes @ [node])"
  proof (rule nth_equalityI)
    fix j
    assume "j < length (map2 (\<lambda>l f. if f \<noteq> [] then f else l) ?e ?c)"
    then have j: "j < 5" using len by simp
    have "?c ! j = (if j < length ?fs then ?fs ! j else ?e ! j)"
      using j by (auto simp: overwrite_def nMappingFields_def nth_append min_def)
    moreover have "expanded (nodes @ [node]) ! j =
        (if field_text j node \<noteq> [] then field_text j node else ?e ! j)"
      using j by (simp add: expanded_def nMappingFields_def last_given_snoc)
    ultimately show "map2 (\<lambda>l f. if f \<noteq> [] then f else l) ?e ?c ! j = expanded (nodes @ [node]) ! j"
      using j len by (simp add: field_text_def Let_def)
  qed (simp add: len)
  then show ?thesis by (simp add: decompress_node_def Let_def)
qed

lemma srcmap_loop_expanded:
  assumes "srcmap_loop api sc sl (length pre) (expanded pre, expanded pre) nodes = Ret locs"
  shows "length locs = length nodes \<and>
     (\<forall>i < length nodes. \<exists>loc. locationFromNode api sc (expanded (pre @ take (Suc i) nodes)) sl = Ret loc \<and>
        locs ! i = loc\<lparr>InstructionNumber := length pre + i\<rparr>)"
  using assms
proof (induction nodes arbitrary: pre locs)
  case (Cons n nodes)
  obtain loc locs' where l: "locationFromNode api sc (expanded (pre @ [n])) sl = Ret loc"
    "srcmap_loop api sc sl (length (pre @ [n])) (expanded (pre @ [n]), expanded (pre @ [n])) nodes = Ret locs'"
    "locs = loc\<lparr>InstructionNumber := length pre\<rparr> # locs'"
    using Cons.prems by (auto simp: Let_def decompress_expanded outcome_simps)
  note IH = Cons.IH [OF l(2)]
  have "\<exists>loc. locationFromNode api sc (expanded (pre @ take (Suc i) (n # nodes))) sl = Ret loc \<and>
      locs ! i = loc\<lparr>InstructionNumber := length pre + i\<rparr>" if "i < length (n # nodes)" for i
  proof (cases i)
    case 0
    then show ?thesis using l by simp
  next
    case (Suc k)
    then show ?thesis using IH that l(3) by auto
  qed
  then show ?case using IH l(3) by simp
qed simp

section \<open>Properties\<close>

lemma parseCode_assembled:
  assumes "list_all (well_formed push) ins" and "RuntimeCode c = ''0x'' @ hex_encode (assemble ins)"
  shows "parseCode push c = Ret (zip (offsets 0 ins) [0..<length ins], map fst ins)"
proof -
  have "TrimPrefix (RuntimeCode c) ''0x'' = hex_encode (assemble ins)"
    using assms(2) by (simp add: TrimPrefix_def HasPrefix_def)
  then have "parseCode push c = Ret (parse_loop push (assemble ins) 0 0)"
    by (simp add: parseCode_def replace_no_placeholder [OF hex_encode_xdigits] hex_decode_encode)
  then show ?thesis using parse_loop_assemble [OF assms(1), of "[]" 0] by simp
qed

text \<open>
  C12. The parser of runtime code undoes assembly: for the bytes of any sequence of instructions, each
  push followed by its data, it returns the opcodes in order and maps the program counter of
  the \<open>i\<close>th instruction to \<open>i\<close>, and no other program counter to anything; bytes of pushed
  data are never taken for instructions.
\<close>

theorem parseCode_disassembles:
  assumes "list_all (well_formed push) ins" and "RuntimeCode c = ''0x'' @ hex_encode (assemble ins)"
  shows "\<exists>table. parseCode push c = Ret (table, map fst ins) \<and>
     (\<forall>pc i. map_of table pc = Some i \<longleftrightarrow> i < length ins \<and> pc = offsets 0 ins ! i)"
proof -
  have "distinct (offsets 0 ins)"
    using offsets_strict [of 0 ins] by (simp add: strict_sorted_iff)
  then have d: "distinct (map fst (zip (offsets 0 ins) [0..<length ins]))" by simp
  have "map_of (zip (offsets 0 ins) [0..<length ins]) pc = Some i \<longleftrightarrow> i < length ins \<and> pc = offsets 0 ins ! i" for pc i
    unfolding map_of_eq_Some_iff [OF d] by (auto simp: set_zip)
  then show ?thesis using parseCode_assembled [OF assms] by blast
qed

definition evm_push :: "u8 \<Rightarrow> bool" where
  "evm_push c \<longleftrightarrow> 0x60 \<le> unat c \<and> unat c \<le> 0x7f"

lemma evm_push_ok: "push_ok evm_push"
  by (auto simp: push_ok_def evm_push_def)

theorem parseCode_disassembles_witness:
  "\<exists>table. parseCode evm_push \<lparr>Code = [], RuntimeCode = ''0x6160ff00'', SrcMapRuntime = []\<rparr> = Ret (table, [0x61, 0x00]) \<and>
     map_of table 3 = Some 1 \<and> map_of table 1 = None"
proof -
  let ?ins = "[(0x61, [0x60, 0xff]), (0x00, [])] :: instr list"
  have wf: "list_all (well_formed evm_push) ?ins"
    by (simp add: well_formed_def evm_push_def PUSH0_def)
  have "digit 0 = CHR ''0''" "digit 1 = CHR ''1''" "digit 6 = CHR ''6''" "digit 15 = CHR ''f''" by code_simp+
  then have enc: "RuntimeCode \<lparr>Code = [], RuntimeCode = ''0x6160ff00'', SrcMapRuntime = []\<rparr> = ''0x'' @ hex_encode (assemble ?ins)"
    by (simp add: assemble_def hex_encode_def)
  from parseCode_disassembles [OF wf enc] obtain t where
    t: "parseCode evm_push \<lparr>Code = [], RuntimeCode = ''0x6160ff00'', SrcMapRuntime = []\<rparr> = Ret (t, [0x61, 0x00])"
    "\<And>pc i. map_of t pc = Some i \<longleftrightarrow> i < 2 \<and> pc = offsets 0 ?ins ! i" by (auto simp: numeral_2_eq_2)
  have "map_of t 1 \<noteq> Some i" for i using t(2) [of 1 i] by (cases i) (auto simp: less_Suc_eq numeral_2_eq_2)
  then have "map_of t 1 = None" by (cases "map_of t 1") auto
  moreover have "map_of t 3 = Some 1" using t(2) [of 3 1] by simp
  ultimately show ?thesis using t(1) by blast
qed

text \<open>
  C21. Source maps are decompressed as solc documents it: location \<open>i\<close> of a successful parse is the one of
  a node in which every field has the last non-empty text given for it up to node \<open>i\<close>, and
  there are as many locations as nodes.
\<close>

theorem parseSrcMap_decompresses:
  assumes "parseSrcMap api sc c sl = Ret locs"
  shows "length locs = length (split_char CHR '';'' (SrcMapRuntime c)) \<and>
     (\<forall>i < length locs. \<exists>loc.
        locationFromNode api sc (expanded (take (Suc i) (split_char CHR '';'' (SrcMapRuntime c)))) sl = Ret loc \<and>
        locs ! i = loc\<lparr>InstructionNumber := i\<rparr>)"
proof -
  have "expanded [] = replicate 5 []"
    by (simp add: expanded_def nMappingFields_def last_given_def map_replicate_const)
  then show ?thesis
    using srcmap_loop_expanded [of api sc sl "[]" _ locs] assms by (simp add: parseSrcMap_def)
qed

definition demo_mapper :: mapper_api where
  "demo_mapper = \<lparr>mapper_Len = int \<circ> length, LineAndColumn = (\<lambda>s off. Inr (0, off))\<rparr>"

theorem parseSrcMap_decompresses_witness:
  "\<exists>locs. parseSrcMap demo_mapper [] \<lparr>Code = [], RuntimeCode = [], SrcMapRuntime = ''1:2:3:-:4;;7''\<rparr> [] = Ret locs \<and>
     length locs = 3 \<and>
     (\<exists>loc. locationFromNode demo_mapper [] [''7'', ''2'', ''3'', ''-'', ''4''] [] = Ret loc \<and>
            locs ! 2 = loc\<lparr>InstructionNumber := 2\<rparr>)"
proof -
  let ?c = "\<lparr>Code = [], RuntimeCode = [], SrcMapRuntime = ''1:2:3:-:4;;7''\<rparr>"
  have n: "split_char CHR '';'' (SrcMapRuntime ?c) = [''1:2:3:-:4'', [], ''7'']" by simp
  have "\<exists>locs. parseSrcMap demo_mapper [] ?c [] = Ret locs"
    by (simp add: parseSrcMap_def decompress_node_def overwrite_def nMappingFields_def locationFromNode_def atoi_field_def
        Atoi_def SetString_def scan_nat_def digit_value_def Let_def numeral_eq_Suc)
  then obtain locs where locs: "parseSrcMap demo_mapper [] ?c [] = Ret locs" by blast
  have "expanded [''1:2:3:-:4'', [], ''7''] = [''7'', ''2'', ''3'', ''-'', ''4'']"
    by (simp add: expanded_def nMappingFields_def last_given_def field_text_def numeral_eq_Suc)
  then show ?thesis
    using parseSrcMap_decompresses [OF locs] locs unfolding n
    by (intro exI [of _ locs]) (auto simp: numeral_eq_Suc)
qed

text \<open>
  The position of a location, for a known file that is not empty: the start and end lines and
  columns are the mapper's plus one, but a location of length zero has no start position: its
  line and column stay 0.
\<close>

theorem location_positions:
  assumes "atoi_field ''s'' (node ! 0) = Ret start" and "atoi_field ''l'' (node ! 1) = Ret len"
    and "atoi_field ''f'' (node ! 2) = Ret idx" and "atoi_field ''m'' (node ! 4) = Ret depth"
    and "0 \<le> start" and "0 \<le> len" and "start + len < 2 ^ 63" and "0 \<le> idx" and "idx < int (length sl)"
    and "map_of sc (sl ! nat idx) = Some f" and "mapper_Len api (contents f) \<noteq> 0"
    and "LineAndColumn api (contents f) start = Inr (l, c)"
    and "LineAndColumn api (contents f) (start + len) = Inr (l', c')"
  shows "\<exists>loc. locationFromNode api sc node sl = Ret loc \<and> Source loc = sl ! nat idx \<and>
     EndLine loc = l' + 1 \<and> EndCol loc = c' + 1 \<and>
     (Line loc, Col loc) = (if len = 0 then (0, 0) else (l + 1, c + 1))"
proof -
  have "wrap64 (start + len) = start + len"
    using assms(5,6,7) by (simp add: wrap64_def)
  then show ?thesis
    using assms by (auto simp: locationFromNode_def lookup_position_def set_start_def set_end_def Let_def)
qed

theorem location_positions_witness:
  "\<exists>loc. locationFromNode demo_mapper [(''a.sol'', \<lparr>contents = ''pragma'', isExternal = False\<rparr>)]
           [''2'', ''0'', ''0'', ''-'', ''1''] [''a.sol''] = Ret loc \<and> Line loc = 0 \<and> EndLine loc = 1"
proof -
  have a: "atoi_field n ''2'' = Ret 2" "atoi_field n ''0'' = Ret 0" "atoi_field n ''1'' = Ret 1" for n
    by (simp_all add: atoi_field_def Atoi_def SetString_def scan_nat_def digit_value_def Let_def)
  have "\<exists>loc. locationFromNode demo_mapper [(''a.sol'', \<lparr>contents = ''pragma'', isExternal = False\<rparr>)]
           [''2'', ''0'', ''0'', ''-'', ''1''] [''a.sol''] = Ret loc \<and> Source loc = [''a.sol''] ! nat 0 \<and>
     EndLine loc = 0 + 1 \<and> EndCol loc = 2 + 1 \<and>
     (Line loc, Col loc) = (if 0 = (0::int) then (0, 0) else (0 + 1, 2 + 1))"
    by (rule location_positions [where start = 2 and len = 0 and idx = 0 and depth = 1 and f = "\<lparr>contents = ''pragma'', isExternal = False\<rparr>"])
       (simp_all add: a demo_mapper_def)
  then show ?thesis by auto
qed

end
