(* ===== verification/Coverage.thy ===== *)
theory Coverage
  imports Solcover "HOL-Library.List_Lexorder" "HOL-Library.Char_ord"
begin

text \<open>
  Line coverage of Solidity code from EVM traces (\<open>go/solcover/coverage.go\<close>): the collector that
  an EVM calls during execution, and its LCOV report. The registries of Solcover, which are global and never reset, and all
  collectors that were made form the state; new collectors, deployments and the calls of the EVMs are its steps.
\<close>

section \<open>The collector\<close>

type_synonym line_hits = "(string \<times> (int \<times> nat) list) list"

record collector =
  stack :: "address list"
  lineHits :: line_hits
  last_loc :: location

definition zero_location :: location where
  "zero_location =
     \<lparr>InstructionNumber = 0, OpCode = 0, FileIdx = 0, Source = [], Start = 0, Length = 0, Line = 0, Col = 0,
      EndLine = 0, EndCol = 0, Jump = [], ModifierDepth = 0\<rparr>"

definition all_contracts :: "registry \<Rightarrow> compiled_contract list" where
  "all_contracts g = map snd (contractsByHash g) @ map (snd \<circ> snd) (contractMatchers g)"

text \<open>An assignment into the map of a file that has none panics.\<close>

definition set_hits :: "string \<Rightarrow> int \<Rightarrow> nat \<Rightarrow> line_hits \<Rightarrow> (cover_error, line_hits) outcome" where
  "set_hits file line n hits =
     (case map_of hits file of
        None \<Rightarrow> Panic
      | Some m \<Rightarrow> Ret (AList.update file (AList.update line n m) hits))"

fun init_lines :: "string list \<Rightarrow> location list \<Rightarrow> line_hits \<Rightarrow> (cover_error, line_hits) outcome" where
  "init_lines sources [] hits = Ret hits"
| "init_lines sources (l # ls) hits =
     (if int (length sources) \<le> FileIdx l then init_lines sources ls hits
      else if FileIdx l < 0 then Panic
      else obind (set_hits (sources ! nat (FileIdx l)) (Line l) 0 hits) (init_lines sources ls))"

fun init_contracts :: "compiled_contract list \<Rightarrow> line_hits \<Rightarrow> (cover_error, line_hits) outcome" where
  "init_contracts [] hits = Ret hits"
| "init_contracts (c # cs) hits = obind (init_lines (csources c) (locations c) hits) (init_contracts cs)"

definition Collector :: "registry \<Rightarrow> (cover_error, collector) outcome" where
  "Collector g =
     obind (init_contracts (all_contracts g) (map (\<lambda>(f, _). (f, [])) (sourceCode g))) (\<lambda>hits.
       Ret \<lparr>stack = [], lineHits = hits, last_loc = zero_location\<rparr>)"

definition CaptureStart ::
  "cover_env \<Rightarrow> (bytes \<times> pattern_item list \<times> compiled_contract) list \<Rightarrow> address \<Rightarrow> bool \<Rightarrow> bytes \<Rightarrow>
   registry \<times> collector \<Rightarrow> registry \<times> collector" where
  "CaptureStart env order to create inp s =
     (case s of (g, cc) \<Rightarrow>
        (if create then RegisterDeployedContract env order to inp g else g, cc\<lparr>stack := [to]\<rparr>))"

definition CaptureState :: "nat \<Rightarrow> registry \<times> collector \<Rightarrow> (cover_error, registry \<times> collector) outcome" where
  "CaptureState pc s =
     (case s of (g, cc) \<Rightarrow>
        if stack cc = [] then Panic
        else obind (Source_at g (last (stack cc)) pc) (\<lambda>r.
          case r of
            None \<Rightarrow> Ret (g, cc)
          | Some loc \<Rightarrow>
              if Source loc = [] \<or> Line loc = 0 then Ret (g, cc)
              else if FileIdx loc \<noteq> FileIdx (last_loc cc) \<or> Line loc \<noteq> Line (last_loc cc)
              then let m = (case map_of (lineHits cc) (Source loc) of Some m \<Rightarrow> m | None \<Rightarrow> []);
                       n = (case map_of m (Line loc) of Some n \<Rightarrow> n | None \<Rightarrow> 0)
                   in obind (set_hits (Source loc) (Line loc) (n + 1) (lineHits cc)) (\<lambda>hits.
                        Ret (g, cc\<lparr>lineHits := hits, last_loc := loc\<rparr>))
              else Ret (g, cc\<lparr>last_loc := loc\<rparr>)))"

definition CaptureEnter :: "address \<Rightarrow> registry \<times> collector \<Rightarrow> registry \<times> collector" where
  "CaptureEnter to s = (fst s, (snd s)\<lparr>stack := stack (snd s) @ [to]\<rparr>)"

definition CaptureExit :: "registry \<times> collector \<Rightarrow> (cover_error, registry \<times> collector) outcome" where
  "CaptureExit s =
     (if stack (snd s) = [] then Panic else Ret (fst s, (snd s)\<lparr>stack := butlast (stack (snd s))\<rparr>))"

section \<open>The report\<close>

definition sorted_counts :: "(int \<times> nat) list \<Rightarrow> (int \<times> nat) list" where
  "sorted_counts m = sort_key fst m"

definition nonZero :: "(int \<times> nat) list \<Rightarrow> nat" where
  "nonZero counts = length (filter (\<lambda>(l, n). 0 < n) counts)"

definition file_record :: "string \<Rightarrow> (int \<times> nat) list \<Rightarrow> string list" where
  "file_record file counts =
     [''SF:'' @ file, ''FNF:0'', ''FNH:0''] @
     map (\<lambda>(l, n). ''DA:'' @ Text l 10 @ '','' @ Text (int n) 10) counts @
     [''LH:'' @ Text (int (nonZero counts)) 10, ''LF:'' @ Text (int (length counts)) 10, ''end_of_record'']"

definition lcovTraceFile :: "mapper_api \<Rightarrow> registry \<Rightarrow> collector \<Rightarrow> string list" where
  "lcovTraceFile api g cc =
     concat (map (\<lambda>file.
       case map_of (sourceCode g) file of
         None \<Rightarrow> []
       | Some c \<Rightarrow>
           if isExternal c \<or> mapper_Len api (contents c) = 0 then []
           else file_record file (sorted_counts (case map_of (lineHits cc) file of Some m \<Rightarrow> m | None \<Rightarrow> [])))
       (sort (map fst (sourceCode g))))"

section \<open>Traces\<close>

text \<open>The calls of an EVM to its collector.\<close>

inductive trace_step :: "registry \<times> collector \<Rightarrow> registry \<times> collector \<Rightarrow> bool" where
  trace_start: "set order = set (contractMatchers (fst s)) \<Longrightarrow> trace_step s (CaptureStart env order to create inp s)"
| trace_state: "CaptureState pc s = Ret s' \<Longrightarrow> trace_step s s'"
| trace_enter: "trace_step s (CaptureEnter to s)"
| trace_exit: "CaptureExit s = Ret s' \<Longrightarrow> trace_step s s'"

text \<open>
  The package as a whole: a backend that is created makes a collector, contracts may be registered as deployed by a direct
  call, and every collector is called by its own EVM, in any order.
\<close>

inductive cov_step :: "registry \<times> collector list \<Rightarrow> registry \<times> collector list \<Rightarrow> bool" where
  cov_new: "Collector g = Ret cc \<Longrightarrow> cov_step (g, ccs) (g, ccs @ [cc])"
| cov_deploy: "set order = set (contractMatchers g) \<Longrightarrow> cov_step (g, ccs) (RegisterDeployedContract env order addr code g, ccs)"
| cov_trace: "i < length ccs \<Longrightarrow> trace_step (g, ccs ! i) (g', cc) \<Longrightarrow> cov_step (g, ccs) (g', ccs[i := cc])"

text \<open>The registries that the registrations of a program, typically its \<open>init\<close> functions, can make.\<close>

definition no_registrations :: registry where
  "no_registrations = \<lparr>sourceCode = [], contractsByName = [], contractsByHash = [], contractMatchers = [], deployedContracts = []\<rparr>"

inductive registered :: "registry \<Rightarrow> bool" where
  registered_none: "registered no_registrations"
| registered_source: "registered g \<Longrightarrow> registered (RegisterSourceCode fileName text ext g)"
| registered_contract: "registered g \<Longrightarrow> RegisterContract env name c sourceList g = Ret g' \<Longrightarrow> registered g'"

definition located :: "compiled_contract \<Rightarrow> bool" where
  "located c \<longleftrightarrow> (\<forall>l \<in> set (locations c). Source l \<noteq> [] \<longrightarrow>
     0 \<le> FileIdx l \<and> FileIdx l < int (length (csources c)) \<and> Source l = csources c ! nat (FileIdx l))"

text \<open>The lines of a file that the collector knows.\<close>

definition known :: "line_hits \<Rightarrow> string \<Rightarrow> int set" where
  "known hits file = (case map_of hits file of None \<Rightarrow> {} | Some m \<Rightarrow> fst ` set m)"

definition registry_inv :: "registry \<Rightarrow> registry \<Rightarrow> bool" where
  "registry_inv g0 g \<longleftrightarrow>
     contractsByHash g = contractsByHash g0 \<and> contractMatchers g = contractMatchers g0 \<and> sourceCode g = sourceCode g0 \<and>
     snd ` set (deployedContracts g) \<subseteq> set (all_contracts g0) \<and> list_all located (all_contracts g0)"

definition lines_inv :: "registry \<Rightarrow> collector \<Rightarrow> bool" where
  "lines_inv g0 cc \<longleftrightarrow> (\<exists>cc0. Collector g0 = Ret cc0 \<and> known (lineHits cc) = known (lineHits cc0))"

definition cov_inv :: "registry \<Rightarrow> registry \<times> collector list \<Rightarrow> bool" where
  "cov_inv g0 s \<longleftrightarrow> registry_inv g0 (fst s) \<and> list_all (lines_inv g0) (snd s)"

section \<open>Registered contracts\<close>

text \<open>The source of a location is the file of its index.\<close>

lemma locationFromNode_located:
  assumes "locationFromNode api src node sources = Ret l" "Source l \<noteq> []"
  shows "0 \<le> FileIdx l \<and> FileIdx l < int (length sources) \<and> Source l = sources ! nat (FileIdx l)"
proof -
  obtain start len idx depth where fields: "atoi_field ''s'' (node ! 0) = Ret start" "atoi_field ''l'' (node ! 1) = Ret len"
    "atoi_field ''f'' (node ! 2) = Ret idx" "atoi_field ''m'' (node ! 4) = Ret depth"
    using assms(1) unfolding locationFromNode_def outcome_simps by blast
  define i :: int where "i = (if start < 0 \<or> len < 0 \<or> idx < 0 then 2 ^ 63 - 1 else idx)"
  define loc where "loc = \<lparr>InstructionNumber = 0, OpCode = 0, FileIdx = i, Source = [], Start = start, Length = len, Line = 0,
    Col = 0, EndLine = 0, EndCol = 0, Jump = node ! 3, ModifierDepth = depth\<rparr>"
  let ?file = "sources ! nat i"
  have run: "(if int (length sources) \<le> i then Ret loc
     else case map_of src ?file of
            None \<Rightarrow> Panic
          | Some c \<Rightarrow>
              if mapper_Len api (contents c) = 0 then Ret (loc\<lparr>Source := ?file\<rparr>)
              else if start = wrap64 (start + len)
              then obind (lookup_position api (contents c) ?file (wrap64 (start + len))) (\<lambda>lc. Ret (set_end (loc\<lparr>Source := ?file\<rparr>) lc))
              else obind (lookup_position api (contents c) ?file start) (\<lambda>lc.
                   obind (lookup_position api (contents c) ?file (wrap64 (start + len))) (\<lambda>lc'.
                     Ret (set_end (set_start (loc\<lparr>Source := ?file\<rparr>) lc) lc')))) = Ret l"
    using assms(1) unfolding locationFromNode_def fields i_def loc_def Let_def by simp
  have i: "0 \<le> i" by (simp add: i_def)
  show ?thesis
  proof (cases "int (length sources) \<le> i")
    case True
    then show ?thesis using run assms(2) by (auto simp: loc_def)
  next
    case False
    have "Source l = ?file \<and> FileIdx l = i"
      using run False by (auto simp: outcome_simps set_start_def set_end_def loc_def split: option.splits if_splits)
    then show ?thesis using i False by simp
  qed
qed

lemma srcmap_loop_located:
  "srcmap_loop api src sources i st instrs = Ret locs \<Longrightarrow> l \<in> set locs \<Longrightarrow> Source l \<noteq> [] \<Longrightarrow>
     0 \<le> FileIdx l \<and> FileIdx l < int (length sources) \<and> Source l = sources ! nat (FileIdx l)"
proof (induction instrs arbitrary: i st locs)
  case (Cons instr instrs)
  let ?st = "decompress_node st instr"
  obtain loc locs' where loc: "locationFromNode api src (snd ?st) sources = Ret loc"
    and rest: "srcmap_loop api src sources (Suc i) ?st instrs = Ret locs'" and locs: "locs = loc\<lparr>InstructionNumber := i\<rparr> # locs'"
    using Cons.prems(1) unfolding srcmap_loop.simps Let_def outcome_simps by blast
  show ?case
  proof (cases "l \<in> set locs'")
    case True
    then show ?thesis using Cons.IH [OF rest] Cons.prems(3) by simp
  next
    case False
    then have "l = loc\<lparr>InstructionNumber := i\<rparr>" using Cons.prems(2) locs by simp
    then show ?thesis using locationFromNode_located [OF loc] Cons.prems(3) by simp
  qed
qed simp

lemma snd_update: "snd ` set (AList.update k v al) \<subseteq> insert v (snd ` set al)"
  by (induction al) auto

lemma set_all_contracts: "set (all_contracts g) = snd ` set (contractsByHash g) \<union> snd ` snd ` set (contractMatchers g)"
  by (simp add: all_contracts_def image_image)

lemma RegisterContract_located:
  assumes "RegisterContract env name c sources g = Ret g'" and "list_all located (all_contracts g)"
  shows "list_all located (all_contracts g') \<and> deployedContracts g' = deployedContracts g"
proof -
  obtain ins ops locs where locs: "parseSrcMap (mapper env) (sourceCode g) c sources = Ret locs"
    and run: "parseCode (isPush env) c = Ret (ins, ops)"
    using assms(1) by (auto simp: RegisterContract_def split: outcome.splits prod.splits)
  define cc where "cc = \<lparr>cname = name, csource = c, csources = sources,
    locations = map2 (\<lambda>l op. l\<lparr>OpCode := op\<rparr>) locs ops, instructions = ins\<rparr>"
  have "located cc"
    unfolding located_def
  proof (intro ballI impI)
    fix l assume "l \<in> set (locations cc)" "Source l \<noteq> []"
    then obtain l' op where "l' \<in> set locs" "l = l'\<lparr>OpCode := op\<rparr>" by (auto simp: cc_def dest: set_zip_leftD)
    then show "0 \<le> FileIdx l \<and> FileIdx l < int (length (csources cc)) \<and> Source l = csources cc ! nat (FileIdx l)"
      using srcmap_loop_located [OF locs [unfolded parseSrcMap_def], of l'] \<open>Source l \<noteq> []\<close> by (simp add: cc_def)
  qed
  moreover have "set (all_contracts g') \<subseteq> insert cc (set (all_contracts g)) \<and> deployedContracts g' = deployedContracts g"
  proof -
    let ?g1 = "g\<lparr>contractsByName := AList.update name cc (contractsByName g)\<rparr>"
    have "(if has_placeholder (Code c) then Ret (registerContractByRegexp (sha256_text env) cc ?g1)
        else registerContractByHash (sha256_bytes env) cc ?g1) = Ret g'"
      using assms(1) by (auto simp: RegisterContract_def run locs Let_def cc_def split: if_splits)
    then obtain h x where "g' = ?g1\<lparr>contractMatchers := AList.update h (x, cc) (contractMatchers g)\<rparr> \<or>
        g' = ?g1\<lparr>contractsByHash := AList.update h cc (contractsByHash g)\<rparr>"
      by (auto simp: registerContractByRegexp_def registerContractByHash_def Let_def split: if_splits outcome.splits)
    then show ?thesis
      using snd_update [of h cc "contractsByHash g"] image_mono [OF snd_update [of h "(x, cc)" "contractMatchers g"], of snd]
      by (elim disjE) (simp_all add: set_all_contracts, blast+)
  qed
  ultimately show ?thesis using assms(2) by (auto simp: list_all_iff)
qed

lemma registered_located: "registered g \<Longrightarrow> list_all located (all_contracts g) \<and> deployedContracts g = []"
proof (induction rule: registered.induct)
  case (registered_contract g env name c sourceList g')
  then show ?case using RegisterContract_located by simp
qed (simp_all add: no_registrations_def all_contracts_def RegisterSourceCode_def)

section \<open>Facts\<close>

lemma known_set_hits:
  assumes "set_hits f l n hits = Ret hits'"
  shows "known hits' = (known hits)(f := insert l (known hits f))"
proof -
  obtain m where m: "map_of hits f = Some m" and h: "hits' = AList.update f (AList.update l n m) hits"
    using assms by (auto simp: set_hits_def split: option.splits)
  show ?thesis
    unfolding h by (rule ext) (simp add: known_def update_conv' m keys_update [of l n m, unfolded set_map])
qed

lemma init_lines_known:
  assumes "init_lines sources ls hits = Ret hits'"
  shows "known hits f \<subseteq> known hits' f \<and>
     (\<forall>l \<in> set ls. FileIdx l < int (length sources) \<longrightarrow> Line l \<in> known hits' (sources ! nat (FileIdx l)))"
  using assms
proof (induction sources ls hits arbitrary: f rule: init_lines.induct)
  case (2 sources l ls hits)
  show ?case
  proof (cases "int (length sources) \<le> FileIdx l")
    case True
    then show ?thesis using 2 by auto
  next
    case False
    then obtain h where h: "set_hits (sources ! nat (FileIdx l)) (Line l) 0 hits = Ret h"
      "init_lines sources ls h = Ret hits'"
      "\<not> FileIdx l < 0"
      using 2(3) by (auto simp: outcome_simps split: if_splits)
    have sub: "known h f' \<subseteq> known hits' f'" and rest: "\<forall>l \<in> set ls. FileIdx l < int (length sources) \<longrightarrow> Line l \<in> known hits' (sources ! nat (FileIdx l))" for f'
      using 2(2) [OF False h(3,1,2)] by blast+
    have "known hits f \<subseteq> known h f" "Line l \<in> known h (sources ! nat (FileIdx l))"
      using known_set_hits [OF h(1)] by auto
    then show ?thesis using sub rest by auto
  qed
qed simp

lemma init_contracts_known:
  assumes "init_contracts cs hits = Ret hits'"
  shows "known hits f \<subseteq> known hits' f \<and>
     (\<forall>c \<in> set cs. \<forall>l \<in> set (locations c). FileIdx l < int (length (csources c)) \<longrightarrow>
        Line l \<in> known hits' (csources c ! nat (FileIdx l)))"
  using assms
proof (induction cs hits arbitrary: f rule: init_contracts.induct)
  case (2 c cs hits)
  then obtain h where h: "init_lines (csources c) (locations c) hits = Ret h" "init_contracts cs h = Ret hits'"
    by (auto simp: outcome_simps)
  have sub: "known h f' \<subseteq> known hits' f'" for f' using 2(1) [OF h] by blast
  have rest: "\<forall>c \<in> set cs. \<forall>l \<in> set (locations c). FileIdx l < int (length (csources c)) \<longrightarrow>
        Line l \<in> known hits' (csources c ! nat (FileIdx l))" using 2(1) [OF h] by blast
  show ?case
    using init_lines_known [OF h(1)] sub rest by (auto dest!: subsetD)
qed simp

lemma Collector_known:
  assumes "Collector g = Ret cc" "c \<in> set (all_contracts g)" "l \<in> set (locations c)" "located c" "Source l \<noteq> []"
  shows "Line l \<in> known (lineHits cc) (Source l)"
  using assms init_contracts_known
  by (fastforce simp: Collector_def outcome_simps located_def)

lemma Source_at_deployed:
  assumes "Source_at g addr pc = Ret (Some loc)"
  shows "\<exists>c \<in> snd ` set (deployedContracts g). loc \<in> set (locations c)"
  using assms
  by (auto simp: Source_at_def cc_location_def split: option.splits if_splits dest!: map_of_SomeD intro!: bexI)

lemma deployed_from_registry:
  assumes "set order = set (contractMatchers g)"
  shows "snd ` set (deployedContracts (RegisterDeployedContract env order addr code g)) \<subseteq>
     snd ` set (deployedContracts g) \<union> set (all_contracts g)"
proof -
  note upd = snd_update [of addr _ "deployedContracts g"]
  show ?thesis
  proof (cases "map_of (contractsByHash g) (sha256_bytes env code)")
    case (Some c)
    then have "c \<in> set (all_contracts g)" by (force simp: all_contracts_def dest: map_of_SomeD)
    then show ?thesis using Some upd [of c] by (auto simp: RegisterDeployedContract_def)
  next
    case None
    show ?thesis
    proof (cases "find (\<lambda>(h, re, c). match_anywhere re (hex_encode code)) order")
      case (Some x)
      obtain h re c where x: "x = (h, re, c)" by (cases x)
      have "x \<in> set order" using Some by (metis find_Some_iff nth_mem)
      then have "c \<in> set (all_contracts g)" using assms x by (force simp: all_contracts_def)
      then show ?thesis using None Some x upd [of c] by (auto simp: RegisterDeployedContract_def)
    qed (use None in \<open>simp add: RegisterDeployedContract_def\<close>)
  qed
qed

lemma RegisterDeployed_frame:
  "contractsByHash (RegisterDeployedContract env order addr code g) = contractsByHash g \<and>
   contractMatchers (RegisterDeployedContract env order addr code g) = contractMatchers g \<and>
   sourceCode (RegisterDeployedContract env order addr code g) = sourceCode g"
  by (auto simp: RegisterDeployedContract_def split: option.splits)

lemma CaptureState_known:
  assumes inv: "registry_inv g0 (fst s)" "lines_inv g0 (snd s)" and run: "CaptureState pc s = Ret s'"
  shows "fst s' = fst s \<and> known (lineHits (snd s')) = known (lineHits (snd s))"
proof -
  obtain g cc where s: "s = (g, cc)" by (cases s)
  obtain r where r: "Source_at g (last (stack cc)) pc = Ret r"
    using run s by (auto simp: CaptureState_def outcome_simps split: if_splits)
  show ?thesis
  proof (cases r)
    case None
    then show ?thesis using run r s by (auto simp: CaptureState_def split: if_splits)
  next
    case (Some loc)
    show ?thesis
    proof (cases "Source loc = []")
      case True
      then show ?thesis using run r s Some by (auto simp: CaptureState_def split: if_splits)
    next
      case False
      obtain c where c: "c \<in> snd ` set (deployedContracts g)" "loc \<in> set (locations c)"
        using Source_at_deployed r Some by blast
      then have "c \<in> set (all_contracts g0)" "located c"
        using inv(1) s by (auto simp: registry_inv_def list_all_iff)
      then have "Line loc \<in> known (lineHits cc) (Source loc)"
        using inv(2) s Collector_known c(2) False by (fastforce simp: lines_inv_def)
      then show ?thesis
        using run r s Some False
        by (auto simp: CaptureState_def Let_def outcome_simps insert_absorb dest!: known_set_hits split: if_splits)
    qed
  qed
qed

lemma CaptureStart_fields:
  "fst (CaptureStart env order to create inp s) =
     (if create then RegisterDeployedContract env order to inp (fst s) else fst s)"
  "lineHits (snd (CaptureStart env order to create inp s)) = lineHits (snd s)"
  by (simp_all add: CaptureStart_def split_beta)

lemma registry_inv_deploy:
  assumes "registry_inv g0 g" and "set order = set (contractMatchers g)"
  shows "registry_inv g0 (RegisterDeployedContract env order addr code g)"
proof -
  have "all_contracts g = all_contracts g0" using assms(1) by (simp add: registry_inv_def all_contracts_def)
  then have "snd ` set (deployedContracts (RegisterDeployedContract env order addr code g)) \<subseteq>
      snd ` set (deployedContracts g) \<union> set (all_contracts g0)"
    using deployed_from_registry [OF assms(2), of env addr code] by simp
  then show ?thesis
    using assms(1) RegisterDeployed_frame [of env order addr code g] by (auto simp: registry_inv_def)
qed

lemma trace_inv_step:
  "trace_step s s' \<Longrightarrow> registry_inv g0 (fst s) \<Longrightarrow> lines_inv g0 (snd s) \<Longrightarrow> registry_inv g0 (fst s') \<and> lines_inv g0 (snd s')"
proof (induction rule: trace_step.induct)
  case (trace_start order s env to create inp)
  then show ?case using registry_inv_deploy by (simp add: CaptureStart_fields lines_inv_def)
next
  case (trace_state pc s s')
  then show ?case using CaptureState_known [OF trace_state(2,3,1)] by (simp add: lines_inv_def)
next
  case (trace_enter s to)
  then show ?case by (simp add: CaptureEnter_def lines_inv_def)
next
  case (trace_exit s s')
  then show ?case by (auto simp: CaptureExit_def lines_inv_def split: if_splits)
qed

lemma Collector_registries:
  "registry_inv g0 g \<Longrightarrow> Collector g = Collector g0"
  by (simp add: registry_inv_def Collector_def all_contracts_def)

lemma cov_inv_step: "cov_step s s' \<Longrightarrow> cov_inv g0 s \<Longrightarrow> cov_inv g0 s'"
proof (induction rule: cov_step.induct)
  case (cov_new g cc ccs)
  then have "Collector g0 = Ret cc" using Collector_registries [of g0 g] by (simp add: cov_inv_def)
  then show ?case using cov_new by (simp add: cov_inv_def lines_inv_def)
next
  case (cov_deploy order g ccs env addr code)
  then show ?case using registry_inv_deploy by (simp add: cov_inv_def)
next
  case (cov_trace i ccs g g' cc)
  then have "lines_inv g0 (ccs ! i)" by (simp add: cov_inv_def list_all_length)
  then show ?case
    using trace_inv_step [OF cov_trace(2)] cov_trace(1,3)
    by (auto simp: cov_inv_def list_all_iff dest: subsetD [OF set_update_subset_insert])
qed

definition cov_init :: "registry \<Rightarrow> registry \<times> collector list \<Rightarrow> bool" where
  "cov_init g0 s \<longleftrightarrow> registered g0 \<and> s = (g0, [])"

interpretation cov: invariant_system "cov_init g0" cov_step "cov_inv g0" for g0
proof unfold_locales
  show "cov_inv g0 s" if "cov_init g0 s" for s
    using that registered_located [of g0] by (simp add: cov_init_def cov_inv_def registry_inv_def)
qed (rule cov_inv_step)

section \<open>Properties\<close>

text \<open>
  C23. Coverage is measured against a fixed set of lines. After the registrations of a program, and whatever collectors are made, contracts deployed and
  code executed then, in any interleaving of the EVMs, every collector knows exactly the lines that the registered contracts gave to a collector made first: also a
  collector that is made after deployments, which the registry keeps. A trace only changes the counts of the lines. Registrations
  that come later, when collectors exist, are outside the statement.
\<close>

theorem coverage_lines_fixed:
  assumes "registered g0" and "reachable (\<lambda>s. s = (g0, [])) cov_step (g, ccs)"
    and "Collector g0 = Ret cc0" and "cc \<in> set ccs"
  shows "known (lineHits cc) file = known (lineHits cc0) file"
proof -
  have "(\<lambda>s. s = (g0, [])) = cov_init g0" using assms(1) by (auto simp: cov_init_def)
  then show ?thesis
    using cov.reachable_inv [of g0 "(g, ccs)"] assms(2-4) by (auto simp: cov_inv_def lines_inv_def list_all_iff)
qed

definition demo_env :: cover_env where
  "demo_env = \<lparr>isPush = evm_push, mapper = demo_mapper, sha256_text = (\<lambda>_. []), sha256_bytes = (\<lambda>b. b)\<rparr>"

definition demo_solc :: solc_contract where
  "demo_solc = \<lparr>Code = ''01'', RuntimeCode = ''01'', SrcMapRuntime = ''0:2:0:-:0''\<rparr>"

definition demo_location :: location where
  "demo_location = \<lparr>InstructionNumber = 0, OpCode = 1, FileIdx = 0, Source = ''a.sol'', Start = 0, Length = 2, Line = 1, Col = 1,
     EndLine = 1, EndCol = 3, Jump = ''-'', ModifierDepth = 0\<rparr>"

definition demo_contract :: compiled_contract where
  "demo_contract = \<lparr>cname = ''C'', csource = demo_solc, csources = [''a.sol''], locations = [demo_location], instructions = [(0, 0)]\<rparr>"

definition demo_registry :: registry where
  "demo_registry = \<lparr>sourceCode = [(''a.sol'', \<lparr>contents = ''pragma'', isExternal = False\<rparr>)],
     contractsByName = [(''C'', demo_contract)], contractsByHash = [([1], demo_contract)], contractMatchers = [], deployedContracts = []\<rparr>"

lemmas demo_defs = demo_env_def demo_contract_def demo_location_def demo_registry_def zero_location_def

lemma demo_registered: "registered demo_registry"
proof -
  have "RegisterContract demo_env ''C'' demo_solc [''a.sol''] (RegisterSourceCode ''a.sol'' ''pragma'' False no_registrations) = Ret demo_registry"
    by code_simp
  then show ?thesis by (blast intro: registered.intros)
qed

text \<open>A collector counts a line of a contract that is deployed; another is made afterwards.\<close>

theorem coverage_lines_fixed_witness:
  "\<exists>g cc1 cc2. reachable (\<lambda>s. s = (demo_registry, [])) cov_step (g, [cc1, cc2]) \<and> deployedContracts g \<noteq> [] \<and>
     map_of (lineHits cc1) ''a.sol'' = Some [(1, 1)] \<and> map_of (lineHits cc2) ''a.sol'' = Some [(1, 0)] \<and>
     known (lineHits cc1) ''a.sol'' = {1} \<and> known (lineHits cc2) ''a.sol'' = {1}"
proof -
  let ?r = "reachable (\<lambda>s. s = (demo_registry, [])) cov_step"
  let ?c0 = "\<lparr>stack = [], lineHits = [(''a.sol'', [(1, 0)])], last_loc = zero_location\<rparr>"
  let ?g = "demo_registry\<lparr>deployedContracts := [([7], demo_contract)]\<rparr>"
  let ?c1 = "?c0\<lparr>stack := [[7]]\<rparr>"
  let ?c2 = "?c1\<lparr>lineHits := [(''a.sol'', [(1, 1)])], last_loc := demo_location\<rparr>"
  have c0: "Collector demo_registry = Ret ?c0" and c0': "Collector ?g = Ret ?c0"
    by (simp_all add: Collector_def all_contracts_def set_hits_def demo_defs)
  have "?r (demo_registry, [])" by (rule reachable_init) simp
  then have "?r (demo_registry, [?c0])" by (rule reachable_step) (use cov_new [OF c0, of "[]"] in simp)
  then have "?r (?g, [?c1])"
  proof (rule reachable_step)
    have "trace_step (demo_registry, [?c0] ! 0) (?g, ?c1)"
      using trace_start [of "[]" "(demo_registry, ?c0)" demo_env "[7]" True "[1]"]
      by (simp add: CaptureStart_def RegisterDeployedContract_def demo_registry_def demo_env_def)
    from cov_trace [OF _ this] show "cov_step (demo_registry, [?c0]) (?g, [?c1])" by simp
  qed
  then have "?r (?g, [?c2])"
  proof (rule reachable_step)
    have "CaptureState 0 (?g, ?c1) = Ret (?g, ?c2)"
      by (simp add: CaptureState_def Source_at_def cc_location_def set_hits_def demo_defs)
    then have "trace_step (?g, [?c1] ! 0) (?g, ?c2)" by (simp add: trace_state)
    from cov_trace [OF _ this] show "cov_step (?g, [?c1]) (?g, [?c2])" by simp
  qed
  then have r: "?r (?g, [?c2, ?c0])" by (rule reachable_step) (use cov_new [OF c0', of "[?c2]"] in simp)
  have "known (lineHits cc) ''a.sol'' = known (lineHits ?c0) ''a.sol''" if "cc \<in> set [?c2, ?c0]" for cc
    by (rule coverage_lines_fixed [OF demo_registered r c0 that])
  then show ?thesis
    using r by (intro exI [of _ ?g] exI [of _ ?c2] exI [of _ ?c0]) (simp add: known_def)
qed

end
