(* ===== verification/EthProto.thy ===== *)
theory EthProto
  imports GoText
begin

text \<open>
  Ethereum values as protocol buffers (\<open>proto/eth/eth.go\<close>, \<open>proto/eth/convert.go\<close>, messages from
  \<open>proto/eth/eth.proto\<close>): typed payloads, their conversion from and to Go values, events and
  their EVM signatures. The generated validators, the package \<open>uint256\<close>, Keccak-256 and
  \<open>abi.NewType\<close> are arguments.
\<close>

section \<open>Messages\<close>

text \<open>
  The alternatives of \<open>Value.payload\<close>; the families \<open>bytes<N>\<close>, \<open>int<N>\<close> and \<open>uint<N>\<close> are indexed by
  their width, integers of more than 64 bits being byte slices. An address is a pointer to a
  message, which may be nil.
\<close>

datatype payload =
    Value_Address "bytes option"
  | Value_Bool bool
  | Value_Bytes bytes
  | Value_String string
  | Value_BytesN nat bytes
  | Value_Int nat u64
  | Value_BigInt nat bytes
  | Value_Uint nat u64
  | Value_BigUint nat bytes

text \<open>A value whose payload is not set has the payload nil.\<close>

type_synonym "value_msg" = "payload option"

datatype sol_type = TAddress | TBool | TBytes | TString | TBytesN nat | TInt nat | TUint nat

fun type_of :: "payload \<Rightarrow> sol_type" where
  "type_of (Value_Address _) = TAddress"
| "type_of (Value_Bool _) = TBool"
| "type_of (Value_Bytes _) = TBytes"
| "type_of (Value_String _) = TString"
| "type_of (Value_BytesN n _) = TBytesN n"
| "type_of (Value_Int n _) = TInt n"
| "type_of (Value_BigInt n _) = TInt n"
| "type_of (Value_Uint n _) = TUint n"
| "type_of (Value_BigUint n _) = TUint n"

text \<open>The validation rules written in the proto file: a payload is required, then per field.\<close>

fun obeys_rules :: "value_msg \<Rightarrow> bool" where
  "obeys_rules None = False"
| "obeys_rules (Some (Value_Address a)) = (case a of None \<Rightarrow> True | Some b \<Rightarrow> length b \<le> 20)"
| "obeys_rules (Some (Value_BytesN n b)) = (b = [] \<or> length b = n)"
| "obeys_rules (Some (Value_Int n i)) = (- (2 ^ (n - 1)) \<le> sint i \<and> sint i < 2 ^ (n - 1))"
| "obeys_rules (Some (Value_BigInt n b)) = (b = [] \<or> length b = n div 8)"
| "obeys_rules (Some (Value_Uint n u)) = (unat u < 2 ^ n)"
| "obeys_rules (Some (Value_BigUint n b)) = (length b \<le> n div 8)"
| "obeys_rules (Some _) = True"

text \<open>
  The generated methods \<open>Validate\<close> and \<open>ValidateAll\<close> return an error exactly for values that
  break a rule.
\<close>

record validator =
  Validate :: "value_msg \<Rightarrow> string option"
  ValidateAll :: "value_msg \<Rightarrow> string option"

definition validator_ok :: "validator \<Rightarrow> bool" where
  "validator_ok vd \<longleftrightarrow>
     (\<forall>v. (Validate vd v = None \<longleftrightarrow> obeys_rules v) \<and> (ValidateAll vd v = None \<longleftrightarrow> obeys_rules v))"

section \<open>Go values\<close>

text \<open>The package \<open>uint256\<close>, as far as it is used here.\<close>

record 'u u256_api =
  u_FromBig :: "int \<Rightarrow> 'u \<times> bool"
  u_ToBig :: "'u \<Rightarrow> int"
  u_Bytes :: "'u \<Rightarrow> bytes"

definition u256_ok :: "'u u256_api \<Rightarrow> bool" where
  "u256_ok api \<longleftrightarrow>
     (\<forall>u. 0 \<le> u_ToBig api u \<and> u_ToBig api u < 2 ^ 256 \<and> u_FromBig api (u_ToBig api u) = (u, False) \<and>
          u_Bytes api u = big_bytes (nat (u_ToBig api u))) \<and>
     (\<forall>b. (snd (u_FromBig api b) \<longleftrightarrow> 2 ^ 256 \<le> \<bar>b\<bar>) \<and> u_ToBig api (fst (u_FromBig api b)) = b mod 2 ^ 256)"

text \<open>Values of type \<open>interface{}\<close>; \<open>DOther\<close> stands for the types that no \<open>switch\<close> mentions.\<close>

datatype 'u dyn =
    DNil
  | DAddress bytes
  | DBool bool
  | DString string
  | DBytes bytes
  | DBytes32 bytes
  | DUint256 'u
  | DBig int
  | DUint8 u8
  | DPayload payload
  | DOther string

datatype proto_error =
    Invalid string
  | Ambiguous
  | ErrSetNilPayload
  | CannotSet
  | WrongPayload
  | Overflows int
  | InArgument string proto_error
  | NewTypeError string string

text \<open>\<open>common.BytesToAddress\<close> keeps the last 20 bytes and pads on the left; \<open>copy\<close> keeps the first.\<close>

definition right_aligned :: "nat \<Rightarrow> bytes \<Rightarrow> bytes" where
  "right_aligned n b = replicate (n - length b) 0 @ drop (length b - n) b"

definition left_aligned :: "nat \<Rightarrow> bytes \<Rightarrow> bytes" where
  "left_aligned n b = take n b @ replicate (n - length b) 0"

definition LeftPadBytes :: "bytes \<Rightarrow> nat \<Rightarrow> bytes" where
  "LeftPadBytes b n = (if n \<le> length b then b else replicate (n - length b) 0 @ b)"

section \<open>Parsing and building values\<close>

fun MustParseWithoutValidation :: "'u u256_api \<Rightarrow> value_msg \<Rightarrow> (proto_error, 'u dyn) outcome" where
  "MustParseWithoutValidation api None = Ret DNil"
| "MustParseWithoutValidation api (Some (Value_Address a)) =
     (case a of None \<Rightarrow> Panic | Some b \<Rightarrow> Ret (DAddress (right_aligned 20 b)))"
| "MustParseWithoutValidation api (Some (Value_Bool b)) = Ret (DBool b)"
| "MustParseWithoutValidation api (Some (Value_String s)) = Ret (DString s)"
| "MustParseWithoutValidation api (Some (Value_BytesN n b)) =
     (if n = 32 then Ret (DBytes32 (left_aligned 32 b)) else Ret (DPayload (Value_BytesN n b)))"
| "MustParseWithoutValidation api (Some (Value_BigUint n b)) =
     (if n = 256
      then case u_FromBig api (int (SetBytes b)) of (u, overflow) \<Rightarrow> if overflow then Panic else Ret (DUint256 u)
      else Ret (DPayload (Value_BigUint n b)))"
| "MustParseWithoutValidation api (Some p) = Ret (DPayload p)"

definition Parse :: "validator \<Rightarrow> 'u u256_api \<Rightarrow> value_msg \<Rightarrow> (proto_error, 'u dyn) outcome" where
  "Parse vd api v =
     (case ValidateAll vd v of Some e \<Rightarrow> Fail (Invalid e) | None \<Rightarrow> MustParseWithoutValidation api v)"

fun AsValue :: "'u u256_api \<Rightarrow> 'u dyn \<Rightarrow> (proto_error, value_msg) outcome" where
  "AsValue api (DAddress b) = Ret (Some (Value_Address (Some b)))"
| "AsValue api (DBool b) = Ret (Some (Value_Bool b))"
| "AsValue api (DString s) = Ret (Some (Value_String s))"
| "AsValue api (DBytes32 b) = Ret (Some (Value_BytesN 32 b))"
| "AsValue api (DUint256 u) = Ret (Some (Value_BigUint 256 (big_bytes (nat (u_ToBig api u)))))"
| "AsValue api (DUint8 u) = Ret (Some (Value_Uint 8 (ucast u)))"
| "AsValue api _ = Fail Ambiguous"

text \<open>
  \<open>SetPayload\<close> changes the payload in place, also when the validation that follows fails: the
  result is the error, if any, and the value afterwards.
\<close>

definition validated :: "validator \<Rightarrow> value_msg \<Rightarrow> proto_error option \<times> value_msg" where
  "validated vd v = (map_option Invalid (Validate vd v), v)"

definition SetPayload :: "validator \<Rightarrow> 'u u256_api \<Rightarrow> value_msg \<Rightarrow> 'u dyn \<Rightarrow> proto_error option \<times> value_msg" where
  "SetPayload vd api v to =
     (case v of
        None \<Rightarrow> (Some ErrSetNilPayload, v)
      | Some (Value_Address _) \<Rightarrow>
          (case to of
             DAddress b \<Rightarrow> (None, Some (Value_Address (Some b)))
           | DBytes b \<Rightarrow> validated vd (Some (Value_Address (Some (LeftPadBytes b 20))))
           | _ \<Rightarrow> (Some CannotSet, v))
      | Some (Value_Bool _) \<Rightarrow>
          (case to of DBool b \<Rightarrow> (None, Some (Value_Bool b)) | _ \<Rightarrow> (Some CannotSet, v))
      | Some (Value_Bytes _) \<Rightarrow>
          (case to of DBytes b \<Rightarrow> (None, Some (Value_Bytes b)) | _ \<Rightarrow> (Some CannotSet, v))
      | Some (Value_String _) \<Rightarrow>
          (case to of DString s \<Rightarrow> (None, Some (Value_String s)) | _ \<Rightarrow> (Some CannotSet, v))
      | Some (Value_Uint n _) \<Rightarrow>
          (case to of
             DUint8 u \<Rightarrow> if n = 8 then (None, Some (Value_Uint n (ucast u))) else (Some CannotSet, v)
           | _ \<Rightarrow> (Some CannotSet, v))
      | Some (Value_BigUint n _) \<Rightarrow>
          (case to of
             DUint256 u \<Rightarrow> if n = 256 then (None, Some (Value_BigUint n (u_Bytes api u))) else (Some CannotSet, v)
           | DBig i \<Rightarrow>
               if n = 256 then validated vd (Some (Value_BigUint n (big_bytes (nat \<bar>i\<bar>)))) else (Some CannotSet, v)
           | _ \<Rightarrow> (Some CannotSet, v))
      | Some _ \<Rightarrow> (Some CannotSet, v))"

section \<open>Conversions\<close>

definition Convert :: "(payload \<Rightarrow> 'p option) \<Rightarrow> value_msg \<Rightarrow> ('p \<Rightarrow> (proto_error, 't) outcome) \<Rightarrow> (proto_error, 't) outcome" where
  "Convert sel v conv =
     (case Option.bind v sel of None \<Rightarrow> Fail WrongPayload | Some p \<Rightarrow> conv p)"

fun the_address :: "payload \<Rightarrow> bytes option option" where
  "the_address (Value_Address a) = Some a"
| "the_address _ = None"

fun the_uint256 :: "payload \<Rightarrow> bytes option" where
  "the_uint256 (Value_BigUint n b) = (if n = 256 then Some b else None)"
| "the_uint256 _ = None"

fun the_uint8 :: "payload \<Rightarrow> u64 option" where
  "the_uint8 (Value_Uint n u) = (if n = 8 then Some u else None)"
| "the_uint8 _ = None"

definition AsAddress :: "value_msg \<Rightarrow> (proto_error, bytes) outcome" where
  "AsAddress v = Convert the_address v (\<lambda>a. case a of None \<Rightarrow> Panic | Some b \<Rightarrow> Ret (left_aligned 20 b))"

definition AsBig256 :: "value_msg \<Rightarrow> (proto_error, int) outcome" where
  "AsBig256 v = Convert the_uint256 v (\<lambda>b. Ret (int (SetBytes b)))"

definition AsUint256 :: "'u u256_api \<Rightarrow> value_msg \<Rightarrow> (proto_error, 'u) outcome" where
  "AsUint256 api v = Convert the_uint256 v (\<lambda>_.
     obind (AsBig256 v) (\<lambda>b.
       case u_FromBig api b of (u, overflow) \<Rightarrow> if overflow then Fail (Overflows b) else Ret u))"

definition AsUint8 :: "value_msg \<Rightarrow> (proto_error, u8) outcome" where
  "AsUint8 v = Convert the_uint8 v (\<lambda>u. Ret (ucast u))"

definition AsCommon :: "bytes \<Rightarrow> bytes" where
  "AsCommon h = left_aligned 32 h"

section \<open>Arguments and events\<close>

text \<open>The value of an argument is a pointer, whose getters treat nil as a value without payload.\<close>

record argument =
  arg_name :: string
  arg_value :: "value_msg option"
  arg_indexed :: bool

definition GetValue :: "argument \<Rightarrow> value_msg" where
  "GetValue a = (case arg_value a of None \<Rightarrow> None | Some v \<Rightarrow> v)"

definition arg_AsAddress :: "argument \<Rightarrow> (proto_error, bytes) outcome" where
  "arg_AsAddress a = map_fail (InArgument (arg_name a)) (AsAddress (GetValue a))"

definition arg_AsUint256 :: "'u u256_api \<Rightarrow> argument \<Rightarrow> (proto_error, 'u) outcome" where
  "arg_AsUint256 api a = map_fail (InArgument (arg_name a)) (AsUint256 api (GetValue a))"

definition arg_AsUint8 :: "argument \<Rightarrow> (proto_error, u8) outcome" where
  "arg_AsUint8 a = map_fail (InArgument (arg_name a)) (AsUint8 (GetValue a))"

record event =
  ev_name :: string
  Arguments :: "argument list"
  Emitter :: "bytes option"
  ArgumentsByName :: "(string \<times> argument) list"
  LogIndex :: u32

definition by_name :: "argument list \<Rightarrow> (string \<times> argument) list" where
  "by_name args = fold (\<lambda>a m. AList.update (arg_name a) a m) args []"

definition NewEvent :: "string \<Rightarrow> bytes \<Rightarrow> argument list \<Rightarrow> event" where
  "NewEvent name em args =
     \<lparr>ev_name = name, Arguments = args, Emitter = Some em, ArgumentsByName = by_name args, LogIndex = 0\<rparr>"

definition NewArgument :: "string \<Rightarrow> value_msg \<Rightarrow> bool \<Rightarrow> argument" where
  "NewArgument name p ind = \<lparr>arg_name = name, arg_value = Some p, arg_indexed = ind\<rparr>"

fun type_name :: "sol_type \<Rightarrow> string" where
  "type_name TAddress = ''address''"
| "type_name TBool = ''bool''"
| "type_name TBytes = ''bytes''"
| "type_name TString = ''string''"
| "type_name (TBytesN n) = ''bytes'' @ Text (int n) 10"
| "type_name (TInt n) = ''int'' @ Text (int n) 10"
| "type_name (TUint n) = ''uint'' @ Text (int n) 10"

text \<open>An argument without payload has no field descriptor, and asking for its name panics.\<close>

fun param_list :: "argument list \<Rightarrow> (proto_error, string list) outcome" where
  "param_list [] = Ret []"
| "param_list (a # as) =
     (case GetValue a of
        None \<Rightarrow> Panic
      | Some p \<Rightarrow> obind (param_list as) (\<lambda>ps. Ret (type_name (type_of p) # ps)))"

definition params :: "event \<Rightarrow> (proto_error, string list) outcome" where
  "params ev = param_list (Arguments ev)"

definition EVMString :: "event \<Rightarrow> (proto_error, string) outcome" where
  "EVMString ev = obind (params ev) (\<lambda>ps. Ret (ev_name ev @ CHR ''('' # join CHR '','' ps @ [CHR '')'']))"

definition EVMHash :: "(string \<Rightarrow> bytes) \<Rightarrow> event \<Rightarrow> (proto_error, bytes) outcome" where
  "EVMHash keccak ev = obind (EVMString ev) (\<lambda>s. Ret (keccak s))"

text \<open>An argument of the ABI package, with its type as returned by \<open>abi.NewType\<close>.\<close>

record 't abi_arg =
  abi_name :: string
  abi_type :: 't
  abi_indexed :: bool

fun abi_args :: "(string \<Rightarrow> string + 't) \<Rightarrow> argument list \<Rightarrow> string list \<Rightarrow> (proto_error, 't abi_arg list) outcome" where
  "abi_args newType (a # as) (p # ps) =
     (case newType p of
        Inl e \<Rightarrow> Fail (NewTypeError p e)
      | Inr t \<Rightarrow> obind (abi_args newType as ps) (\<lambda>rest.
          Ret (\<lparr>abi_name = arg_name a, abi_type = t, abi_indexed = arg_indexed a\<rparr> # rest)))"
| "abi_args newType _ _ = Ret []"

definition ABIArguments :: "(string \<Rightarrow> string + 't) \<Rightarrow> event \<Rightarrow> (proto_error, 't abi_arg list) outcome" where
  "ABIArguments newType ev = obind (params ev) (abi_args newType (Arguments ev))"

section \<open>Facts\<close>

text \<open>The Go types \<open>common.Address\<close> and \<open>[32]byte\<close> are arrays of fixed length.\<close>

fun sized :: "'u dyn \<Rightarrow> bool" where
  "sized (DAddress b) \<longleftrightarrow> length b = 20"
| "sized (DBytes32 b) \<longleftrightarrow> length b = 32"
| "sized _ \<longleftrightarrow> True"

lemma aligned_exact [simp]:
  "length b = n \<Longrightarrow> right_aligned n b = b"
  "length b = n \<Longrightarrow> left_aligned n b = b"
  by (simp_all add: right_aligned_def left_aligned_def)

lemma length_aligned [simp]: "length (right_aligned n b) = n" "length (left_aligned n b) = n"
  by (auto simp: right_aligned_def left_aligned_def)

lemma zeros_commute:
  assumes "0 < k" "replicate k 0 @ b = b @ replicate k (0 :: u8)"
  shows "set b \<subseteq> {0}"
  using assms(2)
proof (induction b)
  case (Cons c b)
  obtain j where j: "k = Suc j" using assms(1) by (cases k) auto
  have c: "c = 0" and "replicate j 0 @ c # b = b @ replicate k 0"
    using Cons.prems j by auto
  then have "replicate k 0 @ b = b @ replicate k 0" using j by (simp add: replicate_app_Cons_same)
  then show ?case using Cons.IH c by auto
qed simp

lemma zeros_replicate: "set b \<subseteq> {0 :: u8} \<Longrightarrow> b = replicate (length b) 0"
  by (induction b) auto

lemma alignments_agree:
  assumes "length b \<le> n"
  shows "left_aligned n b = right_aligned n b \<longleftrightarrow> length b = n \<or> set b \<subseteq> {0}"
proof (cases "length b = n")
  case False
  then have k: "0 < n - length b" using assms by simp
  have "left_aligned n b = right_aligned n b \<longleftrightarrow> replicate (n - length b) 0 @ b = b @ replicate (n - length b) 0"
    using assms by (auto simp: left_aligned_def right_aligned_def)
  moreover have "replicate (n - length b) 0 @ b = b @ replicate (n - length b) 0" if "set b \<subseteq> {0}"
    using zeros_replicate [OF that] by (metis add.commute replicate_add)
  ultimately show ?thesis using zeros_commute [OF k] False by blast
qed simp

lemma u_Bytes_length: "u256_ok api \<Longrightarrow> length (u_Bytes api u) \<le> 32"
  using length_big_bytes [of "nat (u_ToBig api u)" 32] by (simp add: u256_ok_def nat_less_iff)

lemma big_bytes_fits: "0 \<le> i \<Longrightarrow> i < 2 ^ 256 \<Longrightarrow> length (big_bytes (nat i)) \<le> 32"
  using length_big_bytes [of "nat i" 32] by (simp add: nat_less_iff)

lemma big_bytes_fits_iff: "length (big_bytes (nat \<bar>i\<bar>)) \<le> 32 \<longleftrightarrow> \<bar>i\<bar> < 2 ^ 256"
  using length_big_bytes [of "nat \<bar>i\<bar>" 32] by (simp add: nat_less_iff)

lemma ucast_u8_bound: "unat (ucast (u :: u8) :: u64) < 256"
proof -
  have "unat u < 256" using unsigned_less [of u, where 'a = nat] by simp
  then show ?thesis by (simp add: unsigned_ucast_eq take_bit_nat_eq_self)
qed

text \<open>A negative number loses its sign when it is set as a \<open>uint256\<close>.\<close>

lemma SetPayload_big:
  assumes "validator_ok vd"
  shows "fst (SetPayload vd api (Some (Value_BigUint 256 b)) (DBig i)) = None \<longleftrightarrow> \<bar>i\<bar> < 2 ^ 256"
    and "AsBig256 (snd (SetPayload vd api (Some (Value_BigUint 256 b)) (DBig i))) = Ret \<bar>i\<bar>"
  using assms big_bytes_fits_iff [of i]
  by (simp_all add: SetPayload_def validated_def validator_ok_def AsBig256_def Convert_def)

lemma type_name_no_sep: "CHR '','' \<notin> set (type_name t) \<and> CHR ''('' \<notin> set (type_name t) \<and> type_name t \<noteq> []"
  using set_decimal by (cases t) (fastforce simp: digit_value_def)+

lemma SetPayload_type:
  "SetPayload vd api (Some p) to = (err, v') \<Longrightarrow> \<exists>p'. v' = Some p' \<and> type_of p' = type_of p"
  by (cases p; cases to) (auto simp: SetPayload_def validated_def split: if_splits)

lemma SetPayload_nil: "fst (SetPayload vd api None to) \<noteq> None"
  by (simp add: SetPayload_def)

lemma type_name_inject: "type_name s = type_name t \<longleftrightarrow> s = t"
  by (cases s; cases t) (auto simp: Text_inject)

lemma param_list_types:
  "param_list as = Ret ps \<Longrightarrow> \<exists>ts. ps = map type_name ts \<and> map (map_option type_of \<circ> GetValue) as = map Some ts"
proof (induction as arbitrary: ps)
  case (Cons a as)
  then obtain p qs where p: "GetValue a = Some p" "param_list as = Ret qs" "ps = type_name (type_of p) # qs"
    by (auto simp: outcome_simps split: option.splits)
  with Cons.IH obtain ts where "qs = map type_name ts" "map (map_option type_of \<circ> GetValue) as = map Some ts" by blast
  then show ?case using p by (intro exI [of _ "type_of p # ts"]) (simp add: comp_def)
qed simp

lemma first_occurrence:
  "a @ c # r = b @ c # s \<Longrightarrow> c \<notin> set a \<Longrightarrow> c \<notin> set b \<Longrightarrow> a = b \<and> r = s"
proof (induction a arbitrary: b)
  case Nil
  then show ?case by (cases b) auto
next
  case (Cons x a)
  then show ?case by (cases b) auto
qed

lemma Parse_valid:
  assumes "validator_ok vd" "obeys_rules v"
  shows "Parse vd api v = MustParseWithoutValidation api v"
proof -
  have "ValidateAll vd v = None" using assms by (simp add: validator_ok_def)
  then show ?thesis by (simp add: Parse_def)
qed

lemma validated_cases:
  assumes "validator_ok vd" "validated vd v = (err, v')"
  shows "v' = v \<and> (case err of None \<Rightarrow> obeys_rules v | Some e \<Rightarrow> (\<exists>m. e = Invalid m) \<and> \<not> obeys_rules v)"
proof -
  have "Validate vd v = None \<longleftrightarrow> obeys_rules v" using assms(1) by (simp add: validator_ok_def)
  then show ?thesis using assms(2) by (cases "Validate vd v") (auto simp: validated_def)
qed

section \<open>Instances of the arguments\<close>

definition rule_validator :: validator where
  "rule_validator =
     \<lparr>Validate = (\<lambda>v. if obeys_rules v then None else Some ''invalid''),
      ValidateAll = (\<lambda>v. if obeys_rules v then None else Some ''invalid'')\<rparr>"

lemma rule_validator_ok: "validator_ok rule_validator"
  by (simp add: validator_ok_def rule_validator_def)

definition word_u256 :: "256 word u256_api" where
  "word_u256 = \<lparr>u_FromBig = (\<lambda>b. (word_of_int b, 2 ^ 256 \<le> \<bar>b\<bar>)), u_ToBig = uint, u_Bytes = (\<lambda>u. big_bytes (unat u))\<rparr>"

lemma word_u256_ok: "u256_ok word_u256"
proof -
  have bound: "uint u < 2 ^ 256" for u :: "256 word" using uint_bounded [of u] by simp
  have "uint (word_of_int b :: 256 word) = b mod 2 ^ 256" for b
    by (simp add: unsigned_of_int take_bit_eq_mod)
  moreover have "(2 ^ 256 \<le> \<bar>uint u\<bar>) = False" for u :: "256 word"
    using bound [of u] by (simp only: abs_of_nonneg [OF uint_ge_0] not_le [symmetric] eq_False not_False_eq_True)
  ultimately show ?thesis
    unfolding u256_ok_def word_u256_def u256_api.select_convs fst_conv snd_conv
    by (simp only: bound uint_ge_0 unat_eq_nat_uint word_of_int_uint simp_thms)
qed

section \<open>Properties\<close>

text \<open>
  C26. Values survive being stored and parsed: whatever \<open>AsValue\<close> accepts is parsed back to the same Go
  value, without a validation error, except that a \<open>uint8\<close> comes back as its payload.
\<close>

theorem AsValue_Parse:
  assumes "validator_ok vd" and "u256_ok api" and "sized d" and "AsValue api d = Ret v"
  shows "Parse vd api v =
     Ret (case d of DUint8 u \<Rightarrow> DPayload (Value_Uint 8 (ucast u)) | _ \<Rightarrow> d)"
proof -
  have rules: "obeys_rules v"
    using assms(2,3,4) by (cases d) (auto simp: u256_ok_def big_bytes_fits ucast_u8_bound)
  note Parse_valid [OF assms(1) this, of api]
  then show ?thesis using assms(2,3,4) by (cases d) (auto simp: u256_ok_def)
qed

theorem AsValue_Parse_witness:
  "Parse rule_validator word_u256 (Some (Value_Uint 8 7)) = Ret (DPayload (Value_Uint 8 7)) \<and>
   Parse rule_validator word_u256 (Some (Value_BytesN 32 (replicate 32 1))) = Ret (DBytes32 (replicate 32 1))"
  using AsValue_Parse [OF rule_validator_ok word_u256_ok, of "DUint8 7"]
    AsValue_Parse [OF rule_validator_ok word_u256_ok, of "DBytes32 (replicate 32 1)"]
  by simp

text \<open>
  C25. Setting a payload never changes its Solidity type, whatever Go value is given: a value of an unsuitable
  type leaves it alone, and no error means that the new payload obeys the validation rules.
\<close>

theorem SetPayload_typed:
  assumes "validator_ok vd" and "u256_ok api" and "sized to" and "SetPayload vd api (Some p) to = (err, v')"
  shows "\<exists>p'. v' = Some p' \<and> type_of p' = type_of p \<and>
     (case err of
        None \<Rightarrow> obeys_rules v'
      | Some e \<Rightarrow> e = CannotSet \<and> v' = Some p \<or> (\<exists>m. e = Invalid m) \<and> \<not> obeys_rules v')"
  using assms(3,4) u_Bytes_length [OF assms(2)]
  by (cases p; cases to)
     (auto simp: SetPayload_def ucast_u8_bound split: if_splits option.splits dest!: validated_cases [OF assms(1)])

theorem SetPayload_typed_witness:
  "SetPayload rule_validator word_u256 (Some (Value_Address None)) (DBytes (replicate 21 1)) =
     (Some (Invalid ''invalid''), Some (Value_Address (Some (replicate 21 1)))) \<and>
   \<not> obeys_rules (Some (Value_Address (Some (replicate 21 1))))"
proof -
  have eq: "SetPayload rule_validator word_u256 (Some (Value_Address None)) (DBytes (replicate 21 1)) =
     (Some (Invalid ''invalid''), Some (Value_Address (Some (replicate 21 1))))"
    by (simp add: SetPayload_def validated_def rule_validator_def LeftPadBytes_def)
  show ?thesis using SetPayload_typed [OF rule_validator_ok word_u256_ok _ eq] eq by simp
qed

text \<open>
  The two ways to read an address of at most 20 bytes agree only on full addresses and on zero:
  \<open>AsAddress\<close> copies shorter bytes to the front, \<open>Parse\<close> to the end.
\<close>

theorem AsAddress_vs_Parse:
  assumes "validator_ok vd" and "length b \<le> 20"
  shows "\<exists>x y. AsAddress (Some (Value_Address (Some b))) = Ret x \<and>
     Parse vd api (Some (Value_Address (Some b))) = Ret (DAddress y) \<and> length x = 20 \<and> length y = 20 \<and>
     (x = y \<longleftrightarrow> length b = 20 \<or> set b \<subseteq> {0})"
  using assms alignments_agree [of b 20] Parse_valid [OF assms(1), of "Some (Value_Address (Some b))" api]
  by (simp add: AsAddress_def Convert_def)

theorem AsAddress_vs_Parse_witness:
  "\<exists>x y. AsAddress (Some (Value_Address (Some [1]))) = Ret x \<and>
     Parse rule_validator word_u256 (Some (Value_Address (Some [1]))) = Ret (DAddress y) \<and> x \<noteq> y"
  using AsAddress_vs_Parse [OF rule_validator_ok, of "[1]" word_u256] by auto

text \<open>
  C32. The signature of an event determines it: two events whose names have no opening parenthesis
  and whose EVM strings are equal have the same name and the same argument types in order.
\<close>

theorem EVMString_injective:
  assumes "EVMString e = Ret s" and "EVMString f = Ret s" and "CHR ''('' \<notin> set (ev_name e)" and "CHR ''('' \<notin> set (ev_name f)"
  shows "ev_name e = ev_name f \<and>
     map (map_option type_of \<circ> GetValue) (Arguments e) = map (map_option type_of \<circ> GetValue) (Arguments f)"
proof -
  obtain ps qs where ps: "param_list (Arguments e) = Ret ps" and qs: "param_list (Arguments f) = Ret qs"
    and eq: "ev_name e @ CHR ''('' # join CHR '','' ps @ [CHR '')''] = ev_name f @ CHR ''('' # join CHR '','' qs @ [CHR '')'']"
    using assms(1,2) by (auto simp: EVMString_def params_def outcome_simps)
  obtain ts us where ts: "ps = map type_name ts" "map (map_option type_of \<circ> GetValue) (Arguments e) = map Some ts"
    and us: "qs = map type_name us" "map (map_option type_of \<circ> GetValue) (Arguments f) = map Some us"
    using param_list_types ps qs by metis
  have names: "ev_name e = ev_name f" and "join CHR '','' ps = join CHR '','' qs"
    using first_occurrence [OF eq assms(3,4)] by auto
  then have "ps = qs"
    using join_inject [of "CHR '',''" ps qs] type_name_no_sep unfolding ts us by (simp add: list_all_iff)
  then have "ts = us"
    using inj_map_eq_map [of type_name ts us] type_name_inject unfolding ts us by (auto simp: inj_def)
  then show ?thesis using names ts us by simp
qed

definition demo_event :: "string \<Rightarrow> event" where
  "demo_event arg = NewEvent ''Approval'' [] [NewArgument arg (Some (Value_Address None)) True, NewArgument [] (Some (Value_Bool True)) False]"

theorem EVMString_injective_witness:
  "EVMString (demo_event ''x'') = Ret ''Approval(address,bool)'' \<and>
   EVMString (demo_event ''y'') = Ret ''Approval(address,bool)'' \<and> ev_name (demo_event ''x'') = ev_name (demo_event ''y'')"
proof -
  have s: "EVMString (demo_event n) = Ret ''Approval(address,bool)''" for n
    by (simp add: EVMString_def params_def demo_event_def NewEvent_def NewArgument_def GetValue_def)
  show ?thesis
    using EVMString_injective [OF s [of "''x''"] s [of "''y''"]] s by (simp add: demo_event_def NewEvent_def)
qed

end
