(* ===== verification/Hydrant.thy ===== *)
theory Hydrant
  imports EthProto
begin

text \<open>
  The Hydrant service (\<open>go/firehose/ethservice.go\<close>): the event extractors built from requested
  signatures, the decoding of logs, the extraction of a block and the set-up of a request.
  go-ethereum's ABI package and the generated validators are arguments. Logging has no effect
  and is left out.
\<close>

section \<open>Messages of the upstream service\<close>

record log_msg =
  l_address :: bytes
  Topics :: "bytes list"
  Data :: bytes
  Index :: u32

text \<open>The receipt of a transaction and the header of a block are pointers, which may be nil.\<close>

record tx_trace =
  tx_hash :: bytes
  Receipt :: "log_msg list option"

record sf_block =
  sf_Number :: u64
  sf_Hash :: bytes
  Header :: "int option"
  TransactionTraces :: "tx_trace list"

record transaction =
  t_Hash :: bytes
  Logs :: "event list"

record eth_block =
  b_Number :: u64
  TimeStamp :: int
  b_Hash :: bytes
  Transactions :: "transaction list"

section \<open>Extractors\<close>

text \<open>
  The ABI package: the type of a parameter, the values of the indexed arguments from topics (a
  map, given in its order of iteration) and of the other arguments from data.
\<close>

record ('t, 'u) abi_api =
  NewType :: "string \<Rightarrow> string + 't"
  ParseTopicsIntoMap :: "'t abi_arg list \<Rightarrow> bytes list \<Rightarrow> string + (string \<times> 'u dyn) list"
  Unpack :: "'t abi_arg list \<Rightarrow> bytes \<Rightarrow> string + 'u dyn list"

record ('t, 'u) eth_env =
  abi :: "('t, 'u) abi_api"
  u256 :: "'u u256_api"
  vdr :: validator
  Keccak :: "string \<Rightarrow> bytes"

datatype hydrant_error =
    ProtoError proto_error
  | InvalidArgument hydrant_error
  | InvalidRequest string
  | SignaturesGiven
  | DuplicateArgument string
  | TopicCount nat nat
  | TopicsError string
  | UnpackError string
  | UnknownArgument string
  | SettingTopic hydrant_error
  | SettingData nat hydrant_error
  | AtLog bytes u32 hydrant_error
  | AnyError string
  | BlocksError string

record 't extractor =
  sig :: event
  xhash :: bytes
  args :: "'t abi_arg list"
  indexed :: "'t abi_arg list"
  nonIndexed :: "'t abi_arg list"
  argIndexByName :: "(string \<times> nat) list"

definition lookup_name :: "string \<Rightarrow> nat \<Rightarrow> string" where
  "lookup_name n i = (if n = [] then '':unnamed_arg:['' @ Text (int i) 10 @ '']'' else n)"

fun index_args :: "nat \<Rightarrow> 't abi_arg list \<Rightarrow> 't abi_arg list \<times> (string \<times> nat) list \<Rightarrow>
    (hydrant_error, 't abi_arg list \<times> (string \<times> nat) list) outcome" where
  "index_args i [] (ind, byName) = Ret (ind, byName)"
| "index_args i (a # as) (ind, byName) =
     (let ind' = (if abi_indexed a then ind @ [a] else ind);
          n = lookup_name (abi_name a) i
      in if map_of byName n \<noteq> None then Fail (DuplicateArgument n)
         else index_args (Suc i) as (ind', byName @ [(n, i)]))"

definition newEthEventExtractor :: "('t, 'u) eth_env \<Rightarrow> event \<Rightarrow> (hydrant_error, 't extractor) outcome" where
  "newEthEventExtractor env s =
     obind (map_fail ProtoError (ABIArguments (NewType (abi env)) s)) (\<lambda>as.
     obind (index_args 0 as ([], [])) (\<lambda>(ind, byName).
     obind (map_fail ProtoError (EVMHash (Keccak env) s)) (\<lambda>h.
       Ret \<lparr>sig = s, xhash = h, args = as, indexed = ind, nonIndexed = filter (\<lambda>a. \<not> abi_indexed a) as,
            argIndexByName = byName\<rparr>)))"

definition setArgument ::
  "('t, 'u) eth_env \<Rightarrow> 't extractor \<Rightarrow> event \<Rightarrow> string \<Rightarrow> 'u dyn \<Rightarrow> (hydrant_error, event) outcome" where
  "setArgument env e ev name val =
     (case map_of (argIndexByName e) name of
        None \<Rightarrow> Fail (UnknownArgument name)
      | Some i \<Rightarrow>
          if length (Arguments ev) \<le> i then Panic
          else (case arg_value (Arguments ev ! i) of
                  None \<Rightarrow> Panic
                | Some v \<Rightarrow>
                    (case SetPayload (vdr env) (u256 env) v val of
                       (Some er, _) \<Rightarrow> Fail (ProtoError er)
                     | (None, v') \<Rightarrow>
                         Ret (ev\<lparr>Arguments := (Arguments ev)[i := (Arguments ev ! i)\<lparr>arg_value := Some v'\<rparr>]\<rparr>))))"

fun set_topics :: "('t, 'u) eth_env \<Rightarrow> 't extractor \<Rightarrow> (string \<times> 'u dyn) list \<Rightarrow> event \<Rightarrow> (hydrant_error, event) outcome" where
  "set_topics env e [] ev = Ret ev"
| "set_topics env e ((name, val) # rest) ev =
     obind (map_fail SettingTopic (setArgument env e ev name val)) (set_topics env e rest)"

fun set_data :: "('t, 'u) eth_env \<Rightarrow> 't extractor \<Rightarrow> nat \<Rightarrow> 'u dyn list \<Rightarrow> event \<Rightarrow> (hydrant_error, event) outcome" where
  "set_data env e i [] ev = Ret ev"
| "set_data env e i (val # rest) ev =
     (if length (nonIndexed e) \<le> i then Panic
      else obind (map_fail (SettingData i) (setArgument env e ev (abi_name (nonIndexed e ! i)) val))
                 (set_data env e (Suc i) rest))"

definition asEvent :: "('t, 'u) eth_env \<Rightarrow> 't extractor \<Rightarrow> log_msg \<Rightarrow> (hydrant_error, event) outcome" where
  "asEvent env e log =
     (if length (Topics log) \<noteq> length (indexed e) + 1
      then Fail (TopicCount (length (Topics log)) (length (indexed e)))
      else
        let ev = (sig e)\<lparr>Emitter := Some (l_address log), LogIndex := Index log\<rparr>;
            topics = map (right_aligned 32) (tl (Topics log))
        in case ParseTopicsIntoMap (abi env) (indexed e) topics of
             Inl er \<Rightarrow> Fail (TopicsError er)
           | Inr parsed \<Rightarrow>
               obind (set_topics env e parsed ev) (\<lambda>ev1.
               case Unpack (abi env) (args e) (Data log) of
                 Inl er \<Rightarrow> Fail (UnpackError er)
               | Inr vals \<Rightarrow>
                   obind (set_data env e 0 vals ev1) (\<lambda>ev2.
                     Ret (ev2\<lparr>ArgumentsByName := by_name (Arguments ev2)\<rparr>))))"

section \<open>Blocks\<close>

type_synonym 't extractors = "(bytes \<times> 't extractor) list"

text \<open>A slice that is not 20 bytes long ends the process.\<close>

definition contains :: "bytes list \<Rightarrow> bytes \<Rightarrow> (hydrant_error, bool) outcome" where
  "contains s b = (if length b \<noteq> 20 then Panic else Ret (b \<in> set s))"

fun extract_logs ::
  "('t, 'u) eth_env \<Rightarrow> 't extractors \<Rightarrow> bytes list \<Rightarrow> bytes \<Rightarrow> log_msg list \<Rightarrow> (hydrant_error, event list) outcome" where
  "extract_logs env exs contracts h [] = Ret []"
| "extract_logs env exs contracts h (log # rest) =
     obind (contains contracts (l_address log)) (\<lambda>c.
       if \<not> c \<or> Topics log = [] then extract_logs env exs contracts h rest
       else case map_of exs (right_aligned 32 (hd (Topics log))) of
              None \<Rightarrow> extract_logs env exs contracts h rest
            | Some x \<Rightarrow>
                obind (map_fail (AtLog h (Index log)) (asEvent env x log)) (\<lambda>ev.
                obind (extract_logs env exs contracts h rest) (\<lambda>evs. Ret (ev # evs))))"

fun extract_txs ::
  "('t, 'u) eth_env \<Rightarrow> 't extractors \<Rightarrow> bytes list \<Rightarrow> tx_trace list \<Rightarrow> (hydrant_error, transaction list) outcome" where
  "extract_txs env exs contracts [] = Ret []"
| "extract_txs env exs contracts (tx # rest) =
     (case Receipt tx of
        None \<Rightarrow> Panic
      | Some logs \<Rightarrow>
          obind (extract_logs env exs contracts (tx_hash tx) logs) (\<lambda>evs.
          obind (extract_txs env exs contracts rest) (\<lambda>ts.
            Ret (if evs = [] then ts else \<lparr>t_Hash = tx_hash tx, Logs = evs\<rparr> # ts))))"

definition extract_block ::
  "('t, 'u) eth_env \<Rightarrow> 't extractors \<Rightarrow> bytes list \<Rightarrow> sf_block \<Rightarrow> (hydrant_error, eth_block) outcome" where
  "extract_block env exs contracts b =
     (case Header b of
        None \<Rightarrow> Panic
      | Some ts \<Rightarrow>
          obind (extract_txs env exs contracts (TransactionTraces b)) (\<lambda>txs.
            Ret \<lparr>b_Number = sf_Number b, TimeStamp = ts, b_Hash = sf_Hash b, Transactions = txs\<rparr>))"

section \<open>Requests\<close>

record events_request =
  Signatures :: "event list"
  Contracts :: "bytes list"
  StartBlockNum :: int
  StopBlockNum :: u64
  Cursor :: string

definition ERC721TransferEvent :: event where
  "ERC721TransferEvent =
     \<lparr>ev_name = ''Transfer'',
      Arguments = [NewArgument ''from'' (Some (Value_Address None)) True,
                   NewArgument ''to'' (Some (Value_Address None)) True,
                   NewArgument ''tokenId'' (Some (Value_BigUint 256 [])) True],
      Emitter = None, ArgumentsByName = [], LogIndex = 0\<rparr>"

definition withERC721TransferSig :: "events_request \<Rightarrow> (hydrant_error, events_request) outcome" where
  "withERC721TransferSig req =
     (if Signatures req \<noteq> [] then Fail SignaturesGiven
      else Ret (req\<lparr>Signatures := [ERC721TransferEvent]\<rparr>))"

fun build_extractors ::
  "('t, 'u) eth_env \<Rightarrow> event list \<Rightarrow> 't extractors \<times> bytes list \<Rightarrow> (hydrant_error, 't extractors \<times> bytes list) outcome" where
  "build_extractors env [] acc = Ret acc"
| "build_extractors env (s # ss) (exs, sigs) =
     obind (map_fail InvalidArgument (newEthEventExtractor env s)) (\<lambda>x.
       build_extractors env ss (AList.update (xhash x) x exs, sigs @ [xhash x]))"

text \<open>The request that is sent upstream: the log filter, the range of blocks and the cursor.\<close>

record block_request =
  EventSignatures :: "bytes list"
  Addresses :: "bytes list"
  hose_Start :: int
  hose_Stop :: u64
  hose_Cursor :: string

definition events_setup ::
  "('t, 'u) eth_env \<Rightarrow> (events_request \<Rightarrow> string option) \<Rightarrow> events_request \<Rightarrow>
   (hydrant_error, 't extractors \<times> bytes list \<times> block_request) outcome" where
  "events_setup env validateReq req =
     (case validateReq req of
        Some er \<Rightarrow> Fail (InvalidRequest er)
      | None \<Rightarrow>
          obind (build_extractors env (Signatures req) ([], [])) (\<lambda>(exs, sigs).
            Ret (exs, map (right_aligned 20) (Contracts req),
                 \<lparr>EventSignatures = sigs, Addresses = Contracts req, hose_Start = StartBlockNum req,
                  hose_Stop = StopBlockNum req, hose_Cursor = Cursor req\<rparr>)))"

section \<open>Connections\<close>

definition TokenURL :: string where "TokenURL = ''https://auth.dfuse.io/v1/auth/issue''"
definition ETHMainnetURL :: string where "ETHMainnetURL = ''mainnet.eth.streamingfast.io:443''"
definition ETHGoerliURL :: string where "ETHGoerliURL = ''goerli.eth.streamingfast.io:443''"

datatype dial_error =
    CertPool string
  | DialContext string string
  | Dialling dial_error
  | UnsupportedChain u64
  | FetchKey string
  | DialWithKey string dial_error

text \<open>The system's certificates, the options built from them and \<open>grpc.DialContext\<close> are arguments.\<close>

record ('o, 'c) dialer =
  SystemCertPool :: "string option"
  prod_options :: "string \<Rightarrow> string \<Rightarrow> 'o list"
  grpc_dial :: "string \<Rightarrow> 'o list \<Rightarrow> string + 'c"

definition DefaultDialOptions :: "('o, 'c) dialer \<Rightarrow> string \<Rightarrow> string \<Rightarrow> (dial_error, 'o list) outcome" where
  "DefaultDialOptions dl tokenURL apiKey =
     (case SystemCertPool dl of Some e \<Rightarrow> Fail (CertPool e) | None \<Rightarrow> Ret (prod_options dl tokenURL apiKey))"

definition Dial :: "('o, 'c) dialer \<Rightarrow> string \<Rightarrow> string \<Rightarrow> string \<Rightarrow> 'o list \<Rightarrow> (dial_error, 'c) outcome" where
  "Dial dl endpointURL tokenURL apiKey opts =
     obind (if opts = [] then DefaultDialOptions dl tokenURL apiKey else Ret opts) (\<lambda>os.
       case grpc_dial dl endpointURL os of Inl e \<Rightarrow> Fail (DialContext endpointURL e) | Inr c \<Rightarrow> Ret c)"

definition newETHHandler :: "('o, 'c) dialer \<Rightarrow> string \<Rightarrow> string \<Rightarrow> string \<Rightarrow> 'o list \<Rightarrow> (dial_error, 'c) outcome" where
  "newETHHandler dl endpointURL tokenURL apiKey opts = map_fail Dialling (Dial dl endpointURL tokenURL apiKey opts)"

definition ETHClient :: "('o, 'c) dialer \<Rightarrow> string \<Rightarrow> string \<Rightarrow> string \<Rightarrow> 'o list \<Rightarrow> (dial_error, 'c) outcome" where
  "ETHClient dl endpointURL tokenURL apiKey opts = newETHHandler dl endpointURL tokenURL apiKey opts"

definition ETHMainnetClient :: "('o, 'c) dialer \<Rightarrow> string \<Rightarrow> 'o list \<Rightarrow> (dial_error, 'c) outcome" where
  "ETHMainnetClient dl apiKey opts = ETHClient dl ETHMainnetURL TokenURL apiKey opts"

definition ETHGoerliClient :: "('o, 'c) dialer \<Rightarrow> string \<Rightarrow> 'o list \<Rightarrow> (dial_error, 'c) outcome" where
  "ETHGoerliClient dl apiKey opts = ETHClient dl ETHGoerliURL TokenURL apiKey opts"

text \<open>The error of a failed dial carries the API key.\<close>

definition ETHClientFromSecret :: "('o, 'c) dialer \<Rightarrow> u64 \<Rightarrow> string + string \<Rightarrow> (dial_error, 'c) outcome" where
  "ETHClientFromSecret dl chainID fetched =
     obind (if chainID = 1 then Ret (ETHMainnetClient dl)
            else if chainID = 5 then Ret (ETHGoerliClient dl) else Fail (UnsupportedChain chainID)) (\<lambda>dial.
     case fetched of
       Inl e \<Rightarrow> Fail (FetchKey e)
     | Inr key \<Rightarrow> map_fail (DialWithKey key) (dial key []))"

section \<open>Facts about extractors\<close>

lemma lookup_name_nonempty [simp]: "lookup_name n i \<noteq> []" "[] \<noteq> lookup_name n i"
  by (auto simp: lookup_name_def)

lemma index_args_result:
  assumes "index_args i as (ind, byName) = Ret (ind', byName')" and "distinct (map fst byName)"
  shows "ind' = ind @ filter abi_indexed as \<and>
     byName' = byName @ map (\<lambda>j. (lookup_name (abi_name (as ! j)) (i + j), i + j)) [0..<length as] \<and>
     distinct (map fst byName')"
  using assms
proof (induction as arbitrary: i ind byName)
  case (Cons a as)
  let ?n = "lookup_name (abi_name a) i"
  have fresh: "?n \<notin> fst ` set byName"
    and rec: "index_args (Suc i) as (if abi_indexed a then ind @ [a] else ind, byName @ [(?n, i)]) = Ret (ind', byName')"
    using Cons.prems(1) by (auto simp: Let_def map_of_eq_None_iff split: if_splits)
  have "distinct (map fst (byName @ [(?n, i)]))" using Cons.prems(2) fresh by simp
  note IH = Cons.IH [OF rec this]
  have eq: "map (\<lambda>j. (lookup_name (abi_name ((a # as) ! j)) (i + j), i + j)) [0..<length (a # as)] =
        (?n, i) # map (\<lambda>j. (lookup_name (abi_name (as ! j)) (Suc i + j), Suc i + j)) [0..<length as]"
    by (simp only: length_Cons map_upt_Suc nth_Cons_0 nth_Cons_Suc add_Suc_right add_Suc add_0_right)
  from IH have "ind' = ind @ filter abi_indexed (a # as)" by simp
  moreover from IH have "byName' = byName @ (?n, i) # map (\<lambda>j. (lookup_name (abi_name (as ! j)) (Suc i + j), Suc i + j)) [0..<length as]"
    by simp
  ultimately show ?case using IH unfolding eq by blast
qed simp

lemma abi_args_fields:
  "abi_args nt as ps = Ret bs \<Longrightarrow> length as = length ps \<Longrightarrow>
   map abi_name bs = map arg_name as \<and> map abi_indexed bs = map arg_indexed as"
  by (induction nt as ps arbitrary: bs rule: abi_args.induct) (auto simp: outcome_simps split: sum.splits)

lemma param_list_length: "param_list as = Ret ps \<Longrightarrow> length ps = length as"
  using param_list_types by (metis length_map)

text \<open>The state of an extractor for a signature.\<close>

definition extractor_for :: "event \<Rightarrow> 't extractor \<Rightarrow> bool" where
  "extractor_for s e \<longleftrightarrow>
     sig e = s \<and> map abi_name (args e) = map arg_name (Arguments s) \<and>
     map abi_indexed (args e) = map arg_indexed (Arguments s) \<and>
     indexed e = filter abi_indexed (args e) \<and> nonIndexed e = filter (\<lambda>a. \<not> abi_indexed a) (args e) \<and>
     argIndexByName e = map (\<lambda>j. (lookup_name (arg_name (Arguments s ! j)) j, j)) [0..<length (Arguments s)] \<and>
     distinct (map fst (argIndexByName e))"

lemma newEthEventExtractor_for:
  assumes "newEthEventExtractor env s = Ret e"
  shows "extractor_for s e"
proof -
  obtain as ind byName h where as: "ABIArguments (NewType (abi env)) s = Ret as"
    and ix: "index_args 0 as ([], []) = Ret (ind, byName)"
    and e: "e = \<lparr>sig = s, xhash = h, args = as, indexed = ind, nonIndexed = filter (\<lambda>a. \<not> abi_indexed a) as,
                argIndexByName = byName\<rparr>"
    using assms by (auto simp: newEthEventExtractor_def outcome_simps)
  have fields: "map abi_name as = map arg_name (Arguments s)" "map abi_indexed as = map arg_indexed (Arguments s)"
    using as abi_args_fields param_list_length by (fastforce simp: ABIArguments_def params_def outcome_simps)+
  then have len: "length as = length (Arguments s)" by (metis length_map)
  have nth: "abi_name (as ! j) = arg_name (Arguments s ! j)" if "j < length (Arguments s)" for j
    using fields(1) len that by (metis nth_map)
  have "map (\<lambda>j. (lookup_name (abi_name (as ! j)) j, j)) [0..<length as] =
        map (\<lambda>j. (lookup_name (arg_name (Arguments s ! j)) j, j)) [0..<length (Arguments s)]"
    using nth len by (intro map_cong) auto
  then show ?thesis
    using index_args_result [OF ix] fields unfolding extractor_for_def e
    by (auto simp del: map_map)
qed

lemma extractor_lookup:
  assumes "extractor_for s e"
  shows "map_of (argIndexByName e) n = Some i \<longleftrightarrow> i < length (Arguments s) \<and> n = lookup_name (arg_name (Arguments s ! i)) i"
proof -
  have "map_of (argIndexByName e) n = Some i \<longleftrightarrow> (n, i) \<in> set (argIndexByName e)"
    using assms unfolding extractor_for_def by (intro map_of_eq_Some_iff) blast
  also have "\<dots> \<longleftrightarrow> i < length (Arguments s) \<and> n = lookup_name (arg_name (Arguments s ! i)) i"
    using assms by (auto simp: extractor_for_def)
  finally show ?thesis .
qed

text \<open>Only the endpoint of the requested chain is ever dialled, with the fetched key.\<close>

lemma Dial_default:
  "Dial dl url tok key [] = Ret c \<Longrightarrow> grpc_dial dl url (prod_options dl tok key) = Inr c"
  by (cases "SystemCertPool dl"; cases "grpc_dial dl url (prod_options dl tok key)")
     (simp_all add: Dial_def DefaultDialOptions_def)

lemma ETHClientFromSecret_endpoint:
  "ETHClientFromSecret dl chainID fetched = Ret c \<Longrightarrow>
   \<exists>key. fetched = Inr key \<and> (chainID = 1 \<or> chainID = 5) \<and>
     grpc_dial dl (if chainID = 1 then ETHMainnetURL else ETHGoerliURL) (prod_options dl TokenURL key) = Inr c"
  by (cases fetched)
     (auto simp: ETHClientFromSecret_def ETHMainnetClient_def ETHGoerliClient_def ETHClient_def newETHHandler_def
       outcome_simps split: if_splits dest!: Dial_default)

section \<open>Facts about decoding\<close>

fun set_all :: "('t, 'u) eth_env \<Rightarrow> 't extractor \<Rightarrow> (string \<times> 'u dyn) list \<Rightarrow> event \<Rightarrow> event option" where
  "set_all env e [] ev = Some ev"
| "set_all env e ((n, d) # r) ev = (case setArgument env e ev n d of Ret ev' \<Rightarrow> set_all env e r ev' | _ \<Rightarrow> None)"

lemma set_all_append: "set_all env e (xs @ ys) ev = Option.bind (set_all env e xs ev) (set_all env e ys)"
  by (induction env e xs ev rule: set_all.induct) (auto split: outcome.splits)

lemma set_topics_all: "set_topics env e xs ev = Ret ev' \<longleftrightarrow> set_all env e xs ev = Some ev'"
  by (induction env e xs ev rule: set_all.induct) (auto simp: outcome_simps split: outcome.splits)

lemma set_data_all:
  "set_data env e i vs ev = Ret ev' \<longleftrightarrow>
   (vs = [] \<or> i + length vs \<le> length (nonIndexed e)) \<and>
   set_all env e (zip (map abi_name (drop i (nonIndexed e))) vs) ev = Some ev'"
proof (induction vs arbitrary: i ev)
  case (Cons v vs)
  show ?case
  proof (cases "i < length (nonIndexed e)")
    case True
    have "drop i (nonIndexed e) = nonIndexed e ! i # drop (Suc i) (nonIndexed e)"
      using True by (simp add: Cons_nth_drop_Suc)
    then show ?thesis
      using True Cons.IH [of "Suc i"] by (auto simp: outcome_simps Suc_le_eq split: outcome.splits)
  qed simp
qed simp

lemma asEvent_iff:
  "asEvent env e log = Ret ev \<longleftrightarrow>
   length (Topics log) = length (indexed e) + 1 \<and>
   (\<exists>parsed vals ev2.
      ParseTopicsIntoMap (abi env) (indexed e) (map (right_aligned 32) (tl (Topics log))) = Inr parsed \<and>
      Unpack (abi env) (args e) (Data log) = Inr vals \<and> length vals \<le> length (nonIndexed e) \<and>
      set_all env e (parsed @ zip (map abi_name (nonIndexed e)) vals)
        ((sig e)\<lparr>Emitter := Some (l_address log), LogIndex := Index log\<rparr>) = Some ev2 \<and>
      ev = ev2\<lparr>ArgumentsByName := by_name (Arguments ev2)\<rparr>)"
  by (cases "Unpack (abi env) (args e) (Data log)")
     (auto simp: asEvent_def Let_def outcome_simps set_topics_all set_data_all set_all_append bind_eq_Some_conv
      split: sum.splits)

text \<open>An argument with the value that a list of named values gives it.\<close>

definition assigned :: "('t, 'u) eth_env \<Rightarrow> (string \<times> 'u dyn) list \<Rightarrow> argument \<Rightarrow> argument" where
  "assigned env vals a =
     (case map_of vals (arg_name a) of
        None \<Rightarrow> a
      | Some d \<Rightarrow> a\<lparr>arg_value := Some (snd (SetPayload (vdr env) (u256 env) (GetValue a) d))\<rparr>)"

lemma setArgument_Ret:
  assumes "setArgument env e ev n d = Ret ev'" and "extractor_for s e"
  shows "\<exists>i v v'. i < length (Arguments s) \<and> n = lookup_name (arg_name (Arguments s ! i)) i \<and> i < length (Arguments ev) \<and>
     arg_value (Arguments ev ! i) = Some v \<and> SetPayload (vdr env) (u256 env) v d = (None, v') \<and>
     ev' = ev\<lparr>Arguments := (Arguments ev)[i := (Arguments ev ! i)\<lparr>arg_value := Some v'\<rparr>]\<rparr>"
  using assms(1) extractor_lookup [OF assms(2)]
  by (auto simp: setArgument_def not_le split: option.splits if_splits prod.splits)

lemma set_all_keys_nonempty:
  "set_all env e vals ev = Some ev' \<Longrightarrow> extractor_for s e \<Longrightarrow> list_all (\<lambda>(n, d). n \<noteq> []) vals"
  by (induction env e vals ev rule: set_all.induct) (auto split: outcome.splits dest!: setArgument_Ret)

lemma assigned_update:
  assumes "i < length as" and "arg_name (as ! i) = n" and "\<And>j. j < length as \<Longrightarrow> j \<noteq> i \<Longrightarrow> arg_name (as ! j) \<noteq> n"
    and "arg_value (as ! i) = Some v" and "SetPayload (vdr env) (u256 env) v d = (None, v')" and "map_of vals n = None"
  shows "map (assigned env vals) (as[i := (as ! i)\<lparr>arg_value := Some v'\<rparr>]) = map (assigned env ((n, d) # vals)) as"
    (is "?l = ?r")
proof (rule nth_equalityI)
  fix j assume "j < length ?l"
  then have j: "j < length as" by simp
  show "?l ! j = ?r ! j"
  proof (cases "j = i")
    case True
    then show ?thesis using j assms by (simp add: assigned_def GetValue_def)
  next
    case False
    then show ?thesis using j assms(3) [OF j False] by (simp add: assigned_def)
  qed
qed simp

lemma set_all_assigned:
  assumes ext: "extractor_for s e" and dist: "distinct (map arg_name (Arguments s))"
    and named: "list_all (\<lambda>a. arg_name a \<noteq> []) (Arguments s)"
  shows "set_all env e vals ev = Some ev' \<Longrightarrow> map arg_name (Arguments ev) = map arg_name (Arguments s) \<Longrightarrow>
     distinct (map fst vals) \<Longrightarrow> ev' = ev\<lparr>Arguments := map (assigned env vals) (Arguments ev)\<rparr>"
proof (induction vals arbitrary: ev)
  case Nil
  then show ?case by (simp add: assigned_def)
next
  case (Cons x vals)
  obtain n d where x: "x = (n, d)" by (cases x)
  obtain ev1 where ev1: "setArgument env e ev n d = Ret ev1" "set_all env e vals ev1 = Some ev'"
    using Cons.prems(1) x by (auto split: outcome.splits)
  obtain i v v' where i: "i < length (Arguments s)" "i < length (Arguments ev)"
    and n: "n = lookup_name (arg_name (Arguments s ! i)) i"
    and v: "arg_value (Arguments ev ! i) = Some v" "SetPayload (vdr env) (u256 env) v d = (None, v')"
    and ev1': "ev1 = ev\<lparr>Arguments := (Arguments ev)[i := (Arguments ev ! i)\<lparr>arg_value := Some v'\<rparr>]\<rparr>"
    using setArgument_Ret [OF ev1(1) ext] by blast
  have len: "length (Arguments ev) = length (Arguments s)" using Cons.prems(2) by (metis length_map)
  have nm: "arg_name (Arguments ev ! j) = arg_name (Arguments s ! j)" if "j < length (Arguments s)" for j
    using Cons.prems(2) len that by (metis nth_map)
  have ni: "arg_name (Arguments ev ! i) = n"
    using n nm [OF i(1)] named i(1) by (simp add: lookup_name_def list_all_length)
  have other: "arg_name (Arguments ev ! j) \<noteq> n" if "j < length (Arguments s)" "j \<noteq> i" for j
    using dist that i(1) nm ni by (metis distinct_conv_nth length_map nth_map)
  have fresh: "map_of vals n = None" using Cons.prems(3) x by (simp add: map_of_eq_None_iff)
  have "map arg_name (Arguments ev1) = map arg_name (Arguments s)"
    using Cons.prems(2) nm [OF i(1)] i(1) by (simp add: ev1' map_update) (metis list_update_id nth_map)
  then have IH: "ev' = ev1\<lparr>Arguments := map (assigned env vals) (Arguments ev1)\<rparr>"
    using Cons.IH [OF ev1(2)] Cons.prems(3) by simp
  have "map (assigned env vals) ((Arguments ev)[i := (Arguments ev ! i)\<lparr>arg_value := Some v'\<rparr>]) =
        map (assigned env ((n, d) # vals)) (Arguments ev)"
    using i(2) ni other v fresh len by (intro assigned_update) simp_all
  then show ?case using IH by (simp add: ev1' x)
qed

lemma set_all_types:
  "set_all env e vals ev = Some ev' \<Longrightarrow> extractor_for s e \<Longrightarrow>
   map (map_option type_of \<circ> GetValue) (Arguments ev') = map (map_option type_of \<circ> GetValue) (Arguments ev)"
proof (induction env e vals ev rule: set_all.induct)
  case (2 env e n d r ev)
  obtain ev1 where ev1: "setArgument env e ev n d = Ret ev1" "set_all env e r ev1 = Some ev'"
    using "2.prems"(1) by (auto split: outcome.splits)
  obtain i v v' where i: "i < length (Arguments ev)"
    and v: "arg_value (Arguments ev ! i) = Some v" "SetPayload (vdr env) (u256 env) v d = (None, v')"
    and ev1': "ev1 = ev\<lparr>Arguments := (Arguments ev)[i := (Arguments ev ! i)\<lparr>arg_value := Some v'\<rparr>]\<rparr>"
    using setArgument_Ret [OF ev1(1) "2.prems"(2)] by blast
  obtain p p' where "v = Some p" "v' = Some p'" "type_of p' = type_of p"
  proof (cases v)
    case None
    then show ?thesis using v(2) SetPayload_nil [of "vdr env" "u256 env" d] by simp
  next
    case (Some p)
    then show ?thesis using that SetPayload_type v(2) by blast
  qed
  then have same: "(map_option type_of \<circ> GetValue) ((Arguments ev ! i)\<lparr>arg_value := Some v'\<rparr>) =
      (map_option type_of \<circ> GetValue) (Arguments ev ! i)"
    using v(1) by (simp add: GetValue_def)
  have "map (map_option type_of \<circ> GetValue) (Arguments ev1) = map (map_option type_of \<circ> GetValue) (Arguments ev)"
  proof -
    have "Arguments ev1 = (Arguments ev)[i := (Arguments ev ! i)\<lparr>arg_value := Some v'\<rparr>]" by (simp add: ev1')
    then show ?thesis using i by (simp only: map_update same list_update_same_conv length_map nth_map)
  qed
  then show ?case using "2.IH" [OF ev1 "2.prems"(2)] by (rule trans [rotated])
qed simp

text \<open>What the ABI package promises: one value per indexed argument, by name, and one per other argument.\<close>

definition abi_ok :: "('t, 'u) abi_api \<Rightarrow> bool" where
  "abi_ok api \<longleftrightarrow>
     (\<forall>as ts m. ParseTopicsIntoMap api as ts = Inr m \<longrightarrow> distinct (map fst m) \<and> fst ` set m = abi_name ` set as) \<and>
     (\<forall>as b vs. Unpack api as b = Inr vs \<longrightarrow> length vs = length (filter (\<lambda>a. \<not> abi_indexed a) as))"

lemma set_filter_split: "set (filter P xs) \<union> set (filter (\<lambda>x. \<not> P x) xs) = set xs"
  by auto

lemma names_of_args:
  assumes "extractor_for s e"
  shows "abi_name ` set (indexed e) \<union> abi_name ` set (nonIndexed e) = set (map arg_name (Arguments s))"
proof -
  have "indexed e = filter abi_indexed (args e)" "nonIndexed e = filter (\<lambda>a. \<not> abi_indexed a) (args e)"
    and "map abi_name (args e) = map arg_name (Arguments s)"
    using assms by (simp_all add: extractor_for_def)
  note eqs = this
  have "abi_name ` set (indexed e) \<union> abi_name ` set (nonIndexed e) = abi_name ` set (args e)"
    by (simp only: eqs(1,2) image_Un [symmetric] set_filter_split)
  also have "\<dots> = set (map arg_name (Arguments s))"
    by (simp only: eqs(3) [symmetric] set_map)
  finally show ?thesis .
qed

lemma named_distinct:
  assumes "extractor_for s e" "list_all (\<lambda>a. arg_name a \<noteq> []) (Arguments s)"
  shows "distinct (map arg_name (Arguments s))"
proof -
  have "map fst (argIndexByName e) = map arg_name (Arguments s)"
    using assms by (intro nth_equalityI) (auto simp: extractor_for_def lookup_name_def list_all_length)
  then show ?thesis using assms(1) unfolding extractor_for_def by metis
qed

lemma filter_names_disjoint:
  assumes "distinct (map f xs)"
  shows "distinct (map f (filter P xs))" and "f ` set (filter P xs) \<inter> f ` set (filter (\<lambda>x. \<not> P x) xs) = {}"
  using assms by (induction xs) auto

section \<open>Properties of decoding\<close>

text \<open>
  C9. Decoding a log: when it succeeds, every argument of the signature has a name, and the event is the
  signature with each argument set to the value that the log has for it, the emitting contract
  and the index of the log; names and Solidity types are those of the signature. In particular
  no log is ever decoded for a signature with an unnamed argument.
\<close>

theorem asEvent_decodes:
  assumes "newEthEventExtractor env s = Ret e" and "abi_ok (abi env)" and "asEvent env e log = Ret ev"
    and "ParseTopicsIntoMap (abi env) (indexed e) (map (right_aligned 32) (tl (Topics log))) = Inr parsed"
    and "Unpack (abi env) (args e) (Data log) = Inr vals"
  shows "list_all (\<lambda>a. arg_name a \<noteq> []) (Arguments s) \<and>
     Arguments ev = map (assigned env (parsed @ zip (map abi_name (nonIndexed e)) vals)) (Arguments s) \<and>
     map (map_option type_of \<circ> GetValue) (Arguments ev) = map (map_option type_of \<circ> GetValue) (Arguments s) \<and>
     ev_name ev = ev_name s \<and> Emitter ev = Some (l_address log) \<and> LogIndex ev = Index log \<and>
     ArgumentsByName ev = by_name (Arguments ev)"
proof -
  let ?vals = "parsed @ zip (map abi_name (nonIndexed e)) vals"
  let ?ev0 = "s\<lparr>Emitter := Some (l_address log), LogIndex := Index log\<rparr>"
  have ext: "extractor_for s e" by (rule newEthEventExtractor_for [OF assms(1)])
  obtain ev2 where ev2: "set_all env e ?vals ?ev0 = Some ev2" "ev = ev2\<lparr>ArgumentsByName := by_name (Arguments ev2)\<rparr>"
    using assms(3,4,5) ext by (auto simp: asEvent_iff extractor_for_def)
  have keys: "distinct (map fst parsed)" "fst ` set parsed = abi_name ` set (indexed e)" "length vals = length (nonIndexed e)"
    using assms(2,4,5) ext by (auto simp: abi_ok_def extractor_for_def)
  have zipkeys: "map fst (zip (map abi_name (nonIndexed e)) vals) = map abi_name (nonIndexed e)"
    using keys(3) by simp
  then have "fst ` set (zip (map abi_name (nonIndexed e)) vals) = abi_name ` set (nonIndexed e)"
    by (metis set_map)
  then have allkeys: "fst ` set ?vals = set (map arg_name (Arguments s))"
    using keys(2) names_of_args [OF ext] by (simp only: set_append image_Un)
  have "\<forall>n \<in> fst ` set ?vals. n \<noteq> []"
    using set_all_keys_nonempty [OF ev2(1) ext] by (auto simp: list_all_iff)
  then have named: "list_all (\<lambda>a. arg_name a \<noteq> []) (Arguments s)"
    unfolding allkeys by (auto simp: list_all_iff)
  have dist: "distinct (map arg_name (Arguments s))" by (rule named_distinct [OF ext named])
  then have "distinct (map abi_name (args e))" using ext by (simp add: extractor_for_def)
  then have "distinct (map abi_name (nonIndexed e))" "abi_name ` set (indexed e) \<inter> abi_name ` set (nonIndexed e) = {}"
    using filter_names_disjoint [of abi_name "args e"] ext unfolding extractor_for_def by metis+
  then have "distinct (map fst ?vals)"
    using keys(1,2) zipkeys by (metis distinct_append map_append set_map)
  then have "ev2 = ?ev0\<lparr>Arguments := map (assigned env ?vals) (Arguments ?ev0)\<rparr>"
    by (intro set_all_assigned [OF ext dist named ev2(1)]) simp_all
  then show ?thesis
    using named set_all_types [OF ev2(1) ext] by (simp add: ev2(2))
qed

section \<open>Properties of extraction\<close>

text \<open>The logs that a request asks for, and their events.\<close>

definition wanted :: "'t extractors \<Rightarrow> bytes list \<Rightarrow> log_msg \<Rightarrow> bool" where
  "wanted exs contracts log \<longleftrightarrow>
     l_address log \<in> set contracts \<and> Topics log \<noteq> [] \<and> map_of exs (right_aligned 32 (hd (Topics log))) \<noteq> None"

definition decode :: "('t, 'u) eth_env \<Rightarrow> 't extractors \<Rightarrow> log_msg \<Rightarrow> (hydrant_error, event) outcome" where
  "decode env exs log = asEvent env (the (map_of exs (right_aligned 32 (hd (Topics log))))) log"

fun rets :: "('e, 'a) outcome list \<Rightarrow> 'a list" where
  "rets [] = []"
| "rets (Ret x # r) = x # rets r"
| "rets (_ # r) = rets r"

definition decodable :: "('t, 'u) eth_env \<Rightarrow> 't extractors \<Rightarrow> bytes list \<Rightarrow> log_msg list \<Rightarrow> bool" where
  "decodable env exs contracts logs \<longleftrightarrow> list_all (\<lambda>l. wanted exs contracts l \<longrightarrow> (\<exists>ev. decode env exs l = Ret ev)) logs"

text \<open>Upstream messages as the service documents them: receipts, and addresses of 20 bytes.\<close>

definition complete_tx :: "tx_trace \<Rightarrow> bool" where
  "complete_tx tx \<longleftrightarrow> (\<exists>logs. Receipt tx = Some logs \<and> list_all (\<lambda>l. length (l_address l) = 20) logs)"

lemma extract_logs_spec:
  "list_all (\<lambda>l. length (l_address l) = 20) logs \<Longrightarrow>
   (\<exists>evs. extract_logs env exs contracts h logs = Ret evs) = decodable env exs contracts logs \<and>
   (\<forall>evs. extract_logs env exs contracts h logs = Ret evs \<longrightarrow>
      evs = rets (map (decode env exs) (filter (wanted exs contracts) logs)) \<and>
      (evs = [] \<longleftrightarrow> \<not> list_ex (wanted exs contracts) logs))"
proof (induction logs)
  case (Cons l logs)
  then show ?case
    by (cases "wanted exs contracts l")
       (auto simp: decodable_def contains_def wanted_def decode_def outcome_simps)
qed (simp add: decodable_def)

definition tx_logs :: "tx_trace \<Rightarrow> log_msg list" where
  "tx_logs tx = (case Receipt tx of None \<Rightarrow> [] | Some logs \<Rightarrow> logs)"

definition expected_tx :: "('t, 'u) eth_env \<Rightarrow> 't extractors \<Rightarrow> bytes list \<Rightarrow> tx_trace \<Rightarrow> transaction" where
  "expected_tx env exs contracts tx =
     \<lparr>t_Hash = tx_hash tx, Logs = rets (map (decode env exs) (filter (wanted exs contracts) (tx_logs tx)))\<rparr>"

lemma extract_txs_spec:
  "list_all complete_tx txs \<Longrightarrow>
   (\<exists>ts. extract_txs env exs contracts txs = Ret ts) = list_all (\<lambda>tx. decodable env exs contracts (tx_logs tx)) txs \<and>
   (\<forall>ts. extract_txs env exs contracts txs = Ret ts \<longrightarrow>
      ts = map (expected_tx env exs contracts) (filter (\<lambda>tx. list_ex (wanted exs contracts) (tx_logs tx)) txs))"
proof (induction txs)
  case (Cons tx txs)
  then obtain logs where logs: "Receipt tx = Some logs" "list_all (\<lambda>l. length (l_address l) = 20) logs"
    by (auto simp: complete_tx_def)
  note spec = extract_logs_spec [OF logs(2), of env exs contracts "tx_hash tx"]
  show ?case
  proof (cases "extract_logs env exs contracts (tx_hash tx) logs")
    case (Ret evs)
    then have "decodable env exs contracts logs"
      "evs = rets (map (decode env exs) (filter (wanted exs contracts) logs))"
      "evs = [] \<longleftrightarrow> \<not> list_ex (wanted exs contracts) logs"
      using spec by blast+
    then show ?thesis using Cons Ret logs(1) by (auto simp: tx_logs_def expected_tx_def outcome_simps)
  next
    case (Fail x2)
    then have "\<not> decodable env exs contracts logs" using spec by simp
    then show ?thesis using Fail logs(1) by (auto simp: tx_logs_def)
  next
    case Panic
    then have "\<not> decodable env exs contracts logs" using spec by simp
    then show ?thesis using Panic logs(1) by (auto simp: tx_logs_def)
  qed
qed simp

text \<open>
  C10. Extraction of a block for a request that names contracts: it succeeds exactly when every wanted log decodes, and then returns, in
  order, the transactions that have a wanted log, each with the events of its wanted logs in
  order and of no other; the number, hash and time are the block's. A log is wanted when one of the contracts emitted it and an extractor has its first topic.
\<close>

theorem extract_block_exact:
  assumes "contracts \<noteq> []" and "Header b = Some ts" and "list_all complete_tx (TransactionTraces b)"
  shows "(if list_all (\<lambda>tx. decodable env exs contracts (tx_logs tx)) (TransactionTraces b)
      then extract_block env exs contracts b =
        Ret \<lparr>b_Number = sf_Number b, TimeStamp = ts, b_Hash = sf_Hash b,
             Transactions = map (expected_tx env exs contracts)
               (filter (\<lambda>tx. list_ex (wanted exs contracts) (tx_logs tx)) (TransactionTraces b))\<rparr>
      else \<forall>blk. extract_block env exs contracts b \<noteq> Ret blk)"
  using extract_txs_spec [OF assms(3), of env exs contracts] assms(2)
  by (auto simp: extract_block_def outcome_simps)

text \<open>
  A request without contracts is documented to ask for the events of any contract (\<open>go/firehose/proto/eth/eth.proto\<close>). The code wants no log
  then, so that every block is empty.
\<close>

lemma no_contracts_no_events:
  "extract_block env exs [] b = Ret blk \<Longrightarrow> list_all complete_tx (TransactionTraces b) \<Longrightarrow> Transactions blk = []"
  using extract_txs_spec [of "TransactionTraces b" env exs "[]"]
  by (auto simp: extract_block_def outcome_simps wanted_def filter_empty_conv list_ex_iff split: option.splits)

section \<open>A concrete environment\<close>

text \<open>
  Types are their names, a topic gives its bytes and data gives nothing; addresses and integers
  are what the tests decode.
\<close>

definition topic_value :: "string \<Rightarrow> bytes \<Rightarrow> 256 word dyn" where
  "topic_value t b = (if t = ''address'' then DAddress (right_aligned 20 b) else DBig (int (SetBytes b)))"

definition demo_abi :: "(string, 256 word) abi_api" where
  "demo_abi =
     \<lparr>NewType = Inr,
      ParseTopicsIntoMap = (\<lambda>as ts. if distinct (map abi_name as) \<and> length as = length ts
         then Inr (zip (map abi_name as) (map2 topic_value (map abi_type as) ts)) else Inl ''mismatch''),
      Unpack = (\<lambda>as b. Inr (map (\<lambda>a. DBool True) (filter (\<lambda>a. \<not> abi_indexed a) as)))\<rparr>"

lemma demo_abi_ok: "abi_ok demo_abi"
proof -
  have "distinct (map fst m) \<and> fst ` set m = abi_name ` set as" if "ParseTopicsIntoMap demo_abi as ts = Inr m" for as ts m
  proof -
    have d: "distinct (map abi_name as)" "length as = length ts"
      and m: "m = zip (map abi_name as) (map2 topic_value (map abi_type as) ts)"
      using that by (auto simp: demo_abi_def split: if_splits)
    have "map fst m = map abi_name as" using d(2) by (simp add: m)
    then show ?thesis using d(1) by (metis set_map)
  qed
  then show ?thesis by (simp add: abi_ok_def) (simp add: demo_abi_def)
qed

definition demo_eth_env :: "(string, 256 word) eth_env" where
  "demo_eth_env = \<lparr>abi = demo_abi, u256 = word_u256, vdr = rule_validator, Keccak = (\<lambda>s. right_aligned 32 [1])\<rparr>"

text \<open>A transfer of token 5, as its extractor decodes it.\<close>

definition transfer_log :: log_msg where
  "transfer_log = \<lparr>l_address = replicate 20 7, Topics = [[1], [2], [3], [5]], Data = [], Index = 0\<rparr>"

definition transfer_extractor :: "string extractor" where
  "transfer_extractor =
     (let as = [\<lparr>abi_name = ''from'', abi_type = ''address'', abi_indexed = True\<rparr>,
                \<lparr>abi_name = ''to'', abi_type = ''address'', abi_indexed = True\<rparr>,
                \<lparr>abi_name = ''tokenId'', abi_type = ''uint256'', abi_indexed = True\<rparr>]
      in \<lparr>sig = ERC721TransferEvent, xhash = right_aligned 32 [1], args = as, indexed = as, nonIndexed = [],
          argIndexByName = [(''from'', 0), (''to'', 1), (''tokenId'', 2)]\<rparr>)"

lemma text_256: "Text 256 10 = ''256''"
  by code_simp

lemma transfer_extractor_new: "newEthEventExtractor demo_eth_env ERC721TransferEvent = Ret transfer_extractor"
  by (simp add: newEthEventExtractor_def ABIArguments_def params_def EVMHash_def EVMString_def ERC721TransferEvent_def
      NewArgument_def GetValue_def text_256 demo_eth_env_def demo_abi_def lookup_name_def transfer_extractor_def Let_def)

definition transfer_values :: "(string \<times> 256 word dyn) list" where
  "transfer_values = [(''from'', DAddress (right_aligned 20 (right_aligned 32 [2]))),
     (''to'', DAddress (right_aligned 20 (right_aligned 32 [3]))), (''tokenId'', DBig (int (SetBytes (right_aligned 32 [5]))))]"

lemma transfer_parsed:
  "ParseTopicsIntoMap (abi demo_eth_env) (indexed transfer_extractor) (map (right_aligned 32) (tl (Topics transfer_log))) =
   Inr transfer_values"
  by (simp add: demo_eth_env_def demo_abi_def transfer_extractor_def transfer_log_def transfer_values_def topic_value_def Let_def)

lemma transfer_decodes: "\<exists>ev. asEvent demo_eth_env transfer_extractor transfer_log = Ret ev"
proof -
  have fits: "length (big_bytes (nat \<bar>int (SetBytes (right_aligned 32 [5]))\<bar>)) \<le> 32"
    using SetBytes_bound [of "right_aligned 32 [5]"] by (simp add: length_big_bytes)
  have "set_all demo_eth_env transfer_extractor transfer_values
     (ERC721TransferEvent\<lparr>Emitter := Some (l_address transfer_log), LogIndex := Index transfer_log\<rparr>) \<noteq> None"
    using fits
    by (simp add: transfer_values_def setArgument_def transfer_extractor_def Let_def ERC721TransferEvent_def NewArgument_def
        SetPayload_def validated_def demo_eth_env_def rule_validator_def)
  then show ?thesis
    unfolding asEvent_iff transfer_parsed
    by (auto simp: transfer_extractor_def transfer_log_def demo_eth_env_def demo_abi_def Let_def)
qed

theorem asEvent_decodes_witness:
  "\<exists>ev. asEvent demo_eth_env transfer_extractor transfer_log = Ret ev \<and> ev_name ev = ''Transfer'' \<and>
     map arg_name (Arguments ev) = [''from'', ''to'', ''tokenId''] \<and> Emitter ev = Some (replicate 20 7)"
proof -
  obtain ev where ev: "asEvent demo_eth_env transfer_extractor transfer_log = Ret ev" using transfer_decodes by blast
  have "abi_ok (abi demo_eth_env)" by (simp add: demo_eth_env_def demo_abi_ok)
  moreover have "Unpack (abi demo_eth_env) (args transfer_extractor) (Data transfer_log) = Inr []"
    by (simp add: demo_eth_env_def demo_abi_def transfer_extractor_def Let_def)
  ultimately have "Arguments ev = map (assigned demo_eth_env (transfer_values @ zip (map abi_name (nonIndexed transfer_extractor)) []))
      (Arguments ERC721TransferEvent)" "ev_name ev = ev_name ERC721TransferEvent" "Emitter ev = Some (l_address transfer_log)"
    using asEvent_decodes [OF transfer_extractor_new _ ev transfer_parsed] by blast+
  then show ?thesis
    using ev by (simp add: ERC721TransferEvent_def NewArgument_def assigned_def transfer_values_def transfer_log_def)
qed

theorem extract_block_exact_witness:
  "\<exists>ev. extract_block demo_eth_env [(right_aligned 32 [1], transfer_extractor)] [replicate 20 7]
     \<lparr>sf_Number = 9, sf_Hash = [], Header = Some 0,
      TransactionTraces = [\<lparr>tx_hash = [1], Receipt = Some [transfer_log]\<rparr>, \<lparr>tx_hash = [2], Receipt = Some []\<rparr>]\<rparr> =
   Ret \<lparr>b_Number = 9, TimeStamp = 0, b_Hash = [], Transactions = [\<lparr>t_Hash = [1], Logs = [ev]\<rparr>]\<rparr>"
proof -
  obtain ev where ev: "asEvent demo_eth_env transfer_extractor transfer_log = Ret ev" using transfer_decodes by blast
  then have "decode demo_eth_env [(right_aligned 32 [1], transfer_extractor)] transfer_log = Ret ev"
    "wanted [(right_aligned 32 [1], transfer_extractor)] [replicate 20 7] transfer_log"
    by (simp_all add: decode_def wanted_def transfer_log_def)
  moreover have "length (l_address transfer_log) = 20" by (simp add: transfer_log_def)
  ultimately show ?thesis
    using extract_block_exact [of "[replicate 20 7]" "\<lparr>sf_Number = 9, sf_Hash = [], Header = Some 0,
      TransactionTraces = [\<lparr>tx_hash = [1], Receipt = Some [transfer_log]\<rparr>, \<lparr>tx_hash = [2], Receipt = Some []\<rparr>]\<rparr>" 0
      demo_eth_env "[(right_aligned 32 [1], transfer_extractor)]"]
    by (simp add: complete_tx_def decodable_def tx_logs_def expected_tx_def)
qed

end
