(* ===== verification/HydrantStream.thy ===== *)
theory HydrantStream
  imports Hydrant
begin

text \<open>
  The goroutines behind a stream of Hydrant events: the one of \<open>Proxy.Blocks\<close>
  (\<open>go/firehose/firehose.go\<close>) receives upstream responses and sends blocks, the one of
  \<open>newETHAdaptor\<close> (\<open>go/firehose/ethservice.go\<close>) runs \<open>events\<close>, and the client calls \<open>Recv\<close>. They
  communicate over unbuffered channels, so that a send and its receive are one step; a select
  that has several ready cases takes any of them. The stream of the gRPC client is the list of
  what its \<open>Recv\<close> returns.
\<close>

section \<open>State\<close>

text \<open>
  A response holds a message of any type: unmarshalling it fails, gives a block of another type or
  an Ethereum block.
\<close>

record response =
  r_Block :: "string + sf_block option"
  r_Cursor :: string
  r_Step :: nat

datatype recv = Resp response | Eof | RecvErr string

datatype stream_error =
    EOF
  | CtxErr
  | StreamRecv string
  | UnmarshalNew string
  | WrongBlockType
  | ExtractError hydrant_error

record block_response =
  o_Block :: eth_block
  o_Cursor :: string
  FirehoseBlock :: sf_block
  FirehoseStep :: nat

datatype producer = PRecv | PSend response sf_block | PDone
datatype consumer = CSelect | CSend block_response | CDone

record pipe =
  upstream :: "recv list"
  cancelled :: bool
  prod :: producer
  blocks_err :: "stream_error option"
  blocks_closed :: bool
  quit_closed :: bool
  cons :: consumer
  a_err :: "stream_error option"
  ch_closed :: bool
  results :: "(block_response + stream_error option) list"
  crashed :: bool

definition start_pipe :: "recv list \<Rightarrow> pipe" where
  "start_pipe ups =
     \<lparr>upstream = ups, cancelled = False, prod = PRecv, blocks_err = None, blocks_closed = False, quit_closed = False,
      cons = CSelect, a_err = None, ch_closed = False, results = [], crashed = False\<rparr>"

section \<open>The goroutine of Blocks\<close>

definition prod_return :: "stream_error option \<Rightarrow> pipe \<Rightarrow> pipe" where
  "prod_return err s = s\<lparr>prod := PDone, blocks_err := err, blocks_closed := True\<rparr>"

text \<open>What the goroutine does with the result of \<open>stream.Recv\<close>.\<close>

definition prod_recv :: "recv \<Rightarrow> pipe \<Rightarrow> pipe" where
  "prod_recv x s =
     (case x of
        Eof \<Rightarrow> prod_return None s
      | RecvErr e \<Rightarrow> prod_return (Some (StreamRecv e)) s
      | Resp r \<Rightarrow>
          (case r_Block r of
             Inl e \<Rightarrow> prod_return (Some (UnmarshalNew e)) s
           | Inr None \<Rightarrow> prod_return (Some WrongBlockType) s
           | Inr (Some b) \<Rightarrow> s\<lparr>upstream := tl (upstream s), prod := PSend r b\<rparr>))"

section \<open>The goroutine of the adaptor\<close>

text \<open>
  \<open>events\<close> returns: its deferred \<open>blocks.Close\<close> closes the quit channel, the goroutine stores the
  error, \<open>io.EOF\<close> for none, and closes the channel of the client.
\<close>

definition events_return :: "stream_error option \<Rightarrow> pipe \<Rightarrow> pipe" where
  "events_return err s =
     s\<lparr>cons := CDone, quit_closed := True, a_err := Some (case err of None \<Rightarrow> EOF | Some e \<Rightarrow> e), ch_closed := True\<rparr>"

text \<open>One iteration of the loop of \<open>events\<close> with a block.\<close>

definition events_block ::
  "('t, 'u) eth_env \<Rightarrow> 't extractors \<Rightarrow> bytes list \<Rightarrow> response \<Rightarrow> sf_block \<Rightarrow> pipe \<Rightarrow> pipe" where
  "events_block env exs contracts r b s =
     (case extract_block env exs contracts b of
        Ret blk \<Rightarrow>
          s\<lparr>cons := CSend \<lparr>o_Block = blk, o_Cursor = r_Cursor r, FirehoseBlock = b, FirehoseStep = r_Step r\<rparr>\<rparr>
      | Fail e \<Rightarrow> events_return (Some (ExtractError e)) s
      | Panic \<Rightarrow> s\<lparr>crashed := True\<rparr>)"

text \<open>A call of \<open>Recv\<close> that receives a block, and one that finds the channel closed.\<close>

definition Recv_block :: "block_response \<Rightarrow> pipe \<Rightarrow> pipe" where
  "Recv_block out s = s\<lparr>cons := CSelect, results := results s @ [Inl out]\<rparr>"

definition Recv_closed :: "pipe \<Rightarrow> pipe" where
  "Recv_closed s = s\<lparr>results := results s @ [Inr (a_err s)]\<rparr>"

section \<open>Steps\<close>

inductive pipe_step :: "('t, 'u) eth_env \<Rightarrow> 't extractors \<Rightarrow> bytes list \<Rightarrow> pipe \<Rightarrow> pipe \<Rightarrow> bool"
  for env exs contracts
where
  cancel: "\<not> crashed s \<Longrightarrow> pipe_step env exs contracts s (s\<lparr>cancelled := True\<rparr>)"
| recv_up: "\<not> crashed s \<Longrightarrow> prod s = PRecv \<Longrightarrow> upstream s = x # xs \<Longrightarrow> pipe_step env exs contracts s (prod_recv x s)"
| recv_cancelled: "\<not> crashed s \<Longrightarrow> prod s = PRecv \<Longrightarrow> cancelled s \<Longrightarrow>
    pipe_step env exs contracts s (prod_return (Some (StreamRecv ''canceled'')) s)"
| pass_block: "\<not> crashed s \<Longrightarrow> prod s = PSend r b \<Longrightarrow> cons s = CSelect \<Longrightarrow>
    pipe_step env exs contracts s (events_block env exs contracts r b (s\<lparr>prod := PRecv\<rparr>))"
| prod_quit: "\<not> crashed s \<Longrightarrow> prod s = PSend r b \<Longrightarrow> quit_closed s \<Longrightarrow> pipe_step env exs contracts s (prod_return None s)"
| prod_ctx: "\<not> crashed s \<Longrightarrow> prod s = PSend r b \<Longrightarrow> cancelled s \<Longrightarrow>
    pipe_step env exs contracts s (prod_return (Some CtxErr) s)"
| events_ctx: "\<not> crashed s \<Longrightarrow> cons s = CSelect \<Longrightarrow> cancelled s \<Longrightarrow>
    pipe_step env exs contracts s (events_return (Some CtxErr) s)"
| events_end: "\<not> crashed s \<Longrightarrow> cons s = CSelect \<Longrightarrow> blocks_closed s \<Longrightarrow>
    pipe_step env exs contracts s (events_return (blocks_err s) s)"
| send_ctx: "\<not> crashed s \<Longrightarrow> cons s = CSend out \<Longrightarrow> cancelled s \<Longrightarrow>
    pipe_step env exs contracts s (events_return (Some CtxErr) s)"
| client_block: "\<not> crashed s \<Longrightarrow> cons s = CSend out \<Longrightarrow> pipe_step env exs contracts s (Recv_block out s)"
| client_closed: "\<not> crashed s \<Longrightarrow> ch_closed s \<Longrightarrow> pipe_step env exs contracts s (Recv_closed s)"

inductive_simps pipe_step_iff: "pipe_step env exs contracts s t"

section \<open>Invariant\<close>

text \<open>The response to the client for an upstream response, if it has one.\<close>

definition image :: "('t, 'u) eth_env \<Rightarrow> 't extractors \<Rightarrow> bytes list \<Rightarrow> response \<Rightarrow> block_response option" where
  "image env exs contracts r =
     (case r_Block r of
        Inr (Some b) \<Rightarrow>
          (case extract_block env exs contracts b of
             Ret blk \<Rightarrow> Some \<lparr>o_Block = blk, o_Cursor = r_Cursor r, FirehoseBlock = b, FirehoseStep = r_Step r\<rparr>
           | _ \<Rightarrow> None)
      | _ \<Rightarrow> None)"

definition received :: "pipe \<Rightarrow> block_response list" where
  "received s = concat (map (\<lambda>x. case x of Inl b \<Rightarrow> [b] | Inr _ \<Rightarrow> []) (results s))"

definition in_hand :: "pipe \<Rightarrow> block_response list" where
  "in_hand s = (case cons s of CSend out \<Rightarrow> [out] | _ \<Rightarrow> [])"

definition on_offer :: "pipe \<Rightarrow> response list" where
  "on_offer s = (case prod s of PSend r b \<Rightarrow> [r] | _ \<Rightarrow> [])"

text \<open>
  The responses taken from upstream are those delivered or in the hands of the adaptor (\<open>d\<close>), then
  those still on offer or dropped (\<open>e\<close>).
\<close>

definition at_end :: "pipe \<Rightarrow> response list \<Rightarrow> bool" where
  "at_end s e \<longleftrightarrow> e = [] \<and> (\<exists>rest. upstream s = Eof # rest)"

definition pipe_data ::
  "('t, 'u) eth_env \<Rightarrow> 't extractors \<Rightarrow> bytes list \<Rightarrow> recv list \<Rightarrow> pipe \<Rightarrow> response list \<Rightarrow> response list \<Rightarrow> bool" where
  "pipe_data env exs contracts ups s d e \<longleftrightarrow>
     ups = map Resp (d @ e) @ upstream s \<and> map (image env exs contracts) d = map Some (received s @ in_hand s) \<and>
     (cons s \<noteq> CDone \<and> prod s \<noteq> PDone \<and> \<not> crashed s \<longrightarrow> e = on_offer s) \<and>
     (cons s \<noteq> CDone \<and> prod s = PDone \<and> blocks_err s = None \<longrightarrow> at_end s e) \<and> (a_err s = Some EOF \<longrightarrow> at_end s e)"

definition pipe_ctl :: "pipe \<Rightarrow> bool" where
  "pipe_ctl s \<longleftrightarrow>
     (\<forall>r b. prod s = PSend r b \<longrightarrow> r_Block r = Inr (Some b)) \<and>
     (blocks_closed s \<longleftrightarrow> prod s = PDone) \<and> (ch_closed s \<longleftrightarrow> cons s = CDone) \<and> (quit_closed s \<longleftrightarrow> cons s = CDone) \<and>
     (a_err s = None \<longleftrightarrow> cons s \<noteq> CDone) \<and> blocks_err s \<noteq> Some EOF \<and>
     (cons s \<noteq> CDone \<longrightarrow> results s = map Inl (received s)) \<and>
     (\<exists>n. results s = map Inl (received s) @ replicate n (Inr (a_err s)))"

definition pipe_inv :: "('t, 'u) eth_env \<Rightarrow> 't extractors \<Rightarrow> bytes list \<Rightarrow> recv list \<Rightarrow> pipe \<Rightarrow> bool" where
  "pipe_inv env exs contracts ups s \<longleftrightarrow> pipe_ctl s \<and> (\<exists>d e. pipe_data env exs contracts ups s d e)"

lemmas pipe_views = received_def in_hand_def on_offer_def

text \<open>The operations leave most of the state alone.\<close>

lemma received_frame [simp]:
  "received (prod_return err s) = received s" "received (events_return err s) = received s"
  "received (s\<lparr>cancelled := c\<rparr>) = received s" "received (s\<lparr>prod := p\<rparr>) = received s" "received (s\<lparr>upstream := u\<rparr>) = received s"
  "received (s\<lparr>upstream := u, prod := p\<rparr>) = received s" "received (s\<lparr>cons := x\<rparr>) = received s"
  "received (s\<lparr>crashed := c\<rparr>) = received s"
  "received (Recv_block out s) = received s @ [out]" "received (Recv_closed s) = received s"
  by (simp_all add: received_def prod_return_def events_return_def Recv_block_def Recv_closed_def)

lemma start_inv: "pipe_inv env exs contracts ups (start_pipe ups)"
  by (simp add: pipe_inv_def pipe_ctl_def pipe_data_def start_pipe_def pipe_views exI [of _ "[]"] exI [of _ 0])

lemma prod_return_ctl: "pipe_ctl s \<Longrightarrow> err \<noteq> Some EOF \<Longrightarrow> pipe_ctl (prod_return err s)"
  by (simp add: pipe_ctl_def) (simp add: prod_return_def)

lemma events_return_ctl: "pipe_ctl s \<Longrightarrow> cons s \<noteq> CDone \<Longrightarrow> pipe_ctl (events_return err s)"
  by (simp add: pipe_ctl_def) (simp add: events_return_def exI [of _ 0])

lemma Recv_block_ctl: "pipe_ctl s \<Longrightarrow> cons s = CSend out \<Longrightarrow> pipe_ctl (Recv_block out s)"
  by (simp add: pipe_ctl_def) (simp add: Recv_block_def exI [of _ 0])

lemma Recv_closed_ctl:
  assumes "pipe_ctl s" "ch_closed s"
  shows "pipe_ctl (Recv_closed s)"
proof -
  have same: "a_err (Recv_closed s) = a_err s" by (simp add: Recv_closed_def)
  obtain n where "results s = map Inl (received s) @ replicate n (Inr (a_err s))" using assms(1) by (auto simp: pipe_ctl_def)
  then have "results (Recv_closed s) = map Inl (received s) @ replicate (Suc n) (Inr (a_err s))"
    by (simp add: Recv_closed_def replicate_append_same)
  then have "\<exists>n. results (Recv_closed s) = map Inl (received (Recv_closed s)) @ replicate n (Inr (a_err (Recv_closed s)))"
    by (intro exI [of _ "Suc n"]) (simp only: received_frame same)
  moreover have "cons s = CDone" using assms by (simp add: pipe_ctl_def)
  ultimately show ?thesis using assms(1) unfolding pipe_ctl_def by (simp add: Recv_closed_def)
qed

text \<open>The goroutine of \<open>Blocks\<close> returns.\<close>

lemma prod_return_data:
  assumes "pipe_data env exs contracts ups s d e"
    and "err = None \<longrightarrow> cons s = CDone \<or> at_end s e"
  shows "pipe_data env exs contracts ups (prod_return err s) d e"
  using assms by (simp add: pipe_data_def) (auto simp: prod_return_def in_hand_def at_end_def)

lemma recv_block_data:
  assumes "pipe_data env exs contracts ups s d e" "\<not> crashed s" "prod s = PRecv" "upstream s = Resp r # xs"
  shows "pipe_data env exs contracts ups (s\<lparr>upstream := tl (upstream s), prod := PSend r b\<rparr>) d (e @ [r])"
  using assms by (simp add: pipe_data_def at_end_def) (auto simp: pipe_views)

text \<open>\<open>events\<close> returns while it waits for a block, or while it sends one, which is then dropped.\<close>

lemma events_return_data:
  assumes "pipe_data env exs contracts ups s d e" "cons s = CSelect" "err \<noteq> Some EOF" "err = None \<longrightarrow> at_end s e"
  shows "pipe_data env exs contracts ups (events_return err s) d e"
  using assms
  by (simp add: pipe_data_def) (auto simp: events_return_def in_hand_def at_end_def split: option.splits)

lemma send_dropped_data:
  assumes "pipe_data env exs contracts ups s d e" "cons s = CSend out"
  shows "\<exists>d' e'. pipe_data env exs contracts ups (events_return (Some CtxErr) s) d' e'"
proof -
  have img: "map (image env exs contracts) d = map Some (received s) @ [Some out]"
    using assms by (simp add: pipe_data_def in_hand_def)
  then have "d \<noteq> []" by auto
  then obtain d' r where d: "d = d' @ [r]" by (metis rev_exhaust)
  then have "pipe_data env exs contracts ups (events_return (Some CtxErr) s) d' (r # e)"
    using assms img by (simp add: pipe_data_def) (simp add: events_return_def in_hand_def)
  then show ?thesis by blast
qed

lemma pass_block_data:
  assumes "pipe_data env exs contracts ups s d e" "\<not> crashed s" "prod s = PSend r b" "cons s = CSelect"
    and "r_Block r = Inr (Some b)" and "a_err s = None"
  shows "\<exists>d' e'. pipe_data env exs contracts ups (events_block env exs contracts r b (s\<lparr>prod := PRecv\<rparr>)) d' e'"
proof -
  have e: "e = [r]" using assms by (simp add: pipe_data_def on_offer_def)
  show ?thesis
  proof (cases "extract_block env exs contracts b")
    case (Ret blk)
    then have "pipe_data env exs contracts ups (events_block env exs contracts r b (s\<lparr>prod := PRecv\<rparr>)) (d @ [r]) []"
      using assms e by (simp add: pipe_data_def events_block_def) (simp add: pipe_views image_def)
    then show ?thesis by blast
  next
    case (Fail er)
    then have "pipe_data env exs contracts ups (events_block env exs contracts r b (s\<lparr>prod := PRecv\<rparr>)) d e"
      using assms e by (simp add: pipe_data_def events_block_def) (simp add: pipe_views events_return_def)
    then show ?thesis by blast
  next
    case Panic
    then have "pipe_data env exs contracts ups (events_block env exs contracts r b (s\<lparr>prod := PRecv\<rparr>)) d e"
      using assms e by (simp add: pipe_data_def events_block_def) (simp add: pipe_views)
    then show ?thesis by blast
  qed
qed

lemma events_block_ctl:
  assumes "pipe_ctl s" "prod s = PSend r b" "cons s = CSelect"
  shows "pipe_ctl (events_block env exs contracts r b (s\<lparr>prod := PRecv\<rparr>))"
proof -
  have c: "pipe_ctl (s\<lparr>prod := PRecv\<rparr>)" using assms by (simp add: pipe_ctl_def)
  show ?thesis
    using c assms(3) events_return_ctl [OF c]
    by (cases "extract_block env exs contracts b") (simp_all add: events_block_def pipe_ctl_def)
qed

lemma client_data:
  assumes "pipe_data env exs contracts ups s d e"
  shows "cons s = CSend out \<Longrightarrow> a_err s = None \<Longrightarrow> pipe_data env exs contracts ups (Recv_block out s) d e"
    and "pipe_data env exs contracts ups (Recv_closed s) d e"
    and "pipe_data env exs contracts ups (s\<lparr>cancelled := c\<rparr>) d e"
  using assms
  by (simp_all add: pipe_data_def) (simp_all add: Recv_block_def Recv_closed_def pipe_views at_end_def)

lemma prod_recv_returns:
  assumes "\<not> (\<exists>r b. x = Resp r \<and> r_Block r = Inr (Some b))"
  shows "\<exists>err. prod_recv x s = prod_return err s \<and> err \<noteq> Some EOF \<and> (err = None \<longrightarrow> x = Eof)"
proof (cases x)
  case (Resp r)
  then show ?thesis
  proof (cases "r_Block r")
    case (Inr o')
    then show ?thesis using assms Resp by (cases o') (auto simp: prod_recv_def)
  qed (auto simp: prod_recv_def)
qed (auto simp: prod_recv_def)

lemma prod_return_inv:
  assumes "pipe_inv env exs contracts ups s" "err \<noteq> Some EOF" "err = None \<longrightarrow> cons s = CDone"
  shows "pipe_inv env exs contracts ups (prod_return err s)"
proof -
  obtain d e where "pipe_ctl s" "pipe_data env exs contracts ups s d e" using assms(1) by (auto simp: pipe_inv_def)
  then have "pipe_ctl (prod_return err s)" "pipe_data env exs contracts ups (prod_return err s) d e"
    using assms(2,3) by (auto intro: prod_return_ctl prod_return_data)
  then show ?thesis by (auto simp: pipe_inv_def)
qed

lemma pipe_invE:
  assumes "pipe_inv env exs contracts ups s"
  obtains d e where "pipe_ctl s" and "pipe_data env exs contracts ups s d e"
  using assms by (auto simp: pipe_inv_def)

lemma recv_up_inv:
  assumes "pipe_inv env exs contracts ups s" and "\<not> crashed s" and "prod s = PRecv" and "upstream s = x # xs"
  shows "pipe_inv env exs contracts ups (prod_recv x s)"
proof -
  obtain d e where ctl: "pipe_ctl s" and data: "pipe_data env exs contracts ups s d e" using assms(1) by (rule pipe_invE)
  show ?thesis
  proof (cases "\<exists>r b. x = Resp r \<and> r_Block r = Inr (Some b)")
    case True
    then obtain r b where x: "x = Resp r" "r_Block r = Inr (Some b)" by blast
    then have "pipe_ctl (prod_recv x s)" using ctl assms(3) by (simp add: prod_recv_def pipe_ctl_def)
    then show ?thesis
      using recv_block_data [OF data assms(2,3)] assms(4) x by (auto simp: pipe_inv_def prod_recv_def)
  next
    case False
    have e: "cons s = CDone \<or> e = []" using data assms(2,3) by (auto simp: pipe_data_def on_offer_def)
    obtain err where err: "prod_recv x s = prod_return err s" "err \<noteq> Some EOF" "err = None \<longrightarrow> x = Eof"
      using prod_recv_returns [OF False] by blast
    have "err = None \<longrightarrow> cons s = CDone \<or> at_end s e" using err(3) e assms(4) by (auto simp: at_end_def)
    then show ?thesis
      using prod_return_ctl [OF ctl err(2)] prod_return_data [OF data] unfolding err(1) pipe_inv_def by blast
  qed
qed

lemma events_end_inv:
  assumes "pipe_inv env exs contracts ups s" and "cons s = CSelect" and "blocks_closed s"
  shows "pipe_inv env exs contracts ups (events_return (blocks_err s) s)"
proof -
  obtain d e where ctl: "pipe_ctl s" and data: "pipe_data env exs contracts ups s d e" using assms(1) by (rule pipe_invE)
  have "blocks_err s \<noteq> Some EOF" "prod s = PDone" using ctl assms(3) by (simp_all add: pipe_ctl_def)
  moreover from this have "blocks_err s = None \<longrightarrow> at_end s e" using data assms(2) by (simp add: pipe_data_def)
  ultimately have "pipe_data env exs contracts ups (events_return (blocks_err s) s) d e"
    by (intro events_return_data [OF data assms(2)])
  then show ?thesis using events_return_ctl [OF ctl] assms(2) by (auto simp: pipe_inv_def)
qed

lemma client_inv:
  assumes "pipe_inv env exs contracts ups s"
  shows "cons s = CSend out \<Longrightarrow> pipe_inv env exs contracts ups (Recv_block out s)"
    and "ch_closed s \<Longrightarrow> pipe_inv env exs contracts ups (Recv_closed s)"
proof -
  obtain d e where ctl: "pipe_ctl s" and data: "pipe_data env exs contracts ups s d e" using assms by (rule pipe_invE)
  show "pipe_inv env exs contracts ups (Recv_block out s)" if "cons s = CSend out"
  proof -
    have "pipe_data env exs contracts ups (Recv_block out s) d e"
      using client_data(1) [OF data that] ctl that by (simp add: pipe_ctl_def)
    then show ?thesis using Recv_block_ctl [OF ctl that] by (auto simp: pipe_inv_def)
  qed
  show "pipe_inv env exs contracts ups (Recv_closed s)" if "ch_closed s"
    using client_data(2) [OF data] Recv_closed_ctl [OF ctl that] by (auto simp: pipe_inv_def)
qed

lemma pipe_inv_step: "pipe_step env exs contracts s t \<Longrightarrow> pipe_inv env exs contracts ups s \<Longrightarrow> pipe_inv env exs contracts ups t"
proof (induction rule: pipe_step.induct)
  case (cancel s)
  then have "pipe_ctl (s\<lparr>cancelled := True\<rparr>)" by (simp add: pipe_inv_def pipe_ctl_def)
  then show ?case using cancel client_data(3) unfolding pipe_inv_def by blast
next
  case (recv_up s x xs)
  then show ?case by (intro recv_up_inv)
next
  case (recv_cancelled s)
  then show ?case by (intro prod_return_inv) simp_all
next
  case (pass_block s r b)
  obtain d e where ctl: "pipe_ctl s" and data: "pipe_data env exs contracts ups s d e" using pass_block(4) by (rule pipe_invE)
  have "r_Block r = Inr (Some b)" "a_err s = None" using ctl pass_block(2,3) by (simp_all add: pipe_ctl_def)
  then show ?case
    using pass_block_data [OF data pass_block(1-3)] events_block_ctl [OF ctl pass_block(2,3)] by (simp add: pipe_inv_def)
next
  case (prod_quit s r b)
  then have "cons s = CDone" by (simp add: pipe_inv_def pipe_ctl_def)
  then show ?case using prod_quit(4) by (intro prod_return_inv) simp_all
next
  case (prod_ctx s r b)
  then show ?case by (intro prod_return_inv) simp_all
next
  case (events_ctx s)
  then obtain d e where "pipe_ctl s" "pipe_data env exs contracts ups s d e" by (auto elim: pipe_invE)
  then have "pipe_ctl (events_return (Some CtxErr) s)" "pipe_data env exs contracts ups (events_return (Some CtxErr) s) d e"
    using events_ctx(2) by (auto intro: events_return_ctl events_return_data)
  then show ?case by (auto simp: pipe_inv_def)
next
  case (send_ctx s out)
  then obtain d e where ctl: "pipe_ctl s" and data: "pipe_data env exs contracts ups s d e" by (auto elim: pipe_invE)
  then show ?case
    using events_return_ctl [OF ctl] send_dropped_data [OF data send_ctx(2)] send_ctx(2) by (simp add: pipe_inv_def)
qed (auto intro: events_end_inv client_inv)

interpretation pipe: invariant_system "\<lambda>s. s = start_pipe ups" "pipe_step env exs contracts" "pipe_inv env exs contracts ups"
  for ups env exs contracts
proof unfold_locales
  show "pipe_inv env exs contracts ups s" if "s = start_pipe ups" for s
    using that start_inv by simp
qed (rule pipe_inv_step)

section \<open>Progress\<close>

definition can_recv :: "('t, 'u) eth_env \<Rightarrow> 't extractors \<Rightarrow> bytes list \<Rightarrow> pipe \<Rightarrow> bool" where
  "can_recv env exs contracts s \<longleftrightarrow>
     (\<exists>t. (pipe_step env exs contracts)\<^sup>*\<^sup>* s t \<and> length (results t) = Suc (length (results s)) \<and> cancelled t = cancelled s)"

lemma can_recv_step:
  assumes "pipe_step env exs contracts s t" "can_recv env exs contracts t" "results t = results s" "cancelled t = cancelled s"
  shows "can_recv env exs contracts s"
  using assms converse_rtranclp_into_rtranclp [of "pipe_step env exs contracts"] unfolding can_recv_def by metis

lemma can_recv_now:
  assumes "pipe_step env exs contracts s t" "length (results t) = Suc (length (results s))" "cancelled t = cancelled s"
  shows "can_recv env exs contracts s"
  using assms unfolding can_recv_def by blast

lemma closed_can_recv: "\<not> crashed s \<Longrightarrow> ch_closed s \<Longrightarrow> can_recv env exs contracts s"
  by (rule can_recv_now [OF client_closed]) (simp_all add: Recv_closed_def)

lemma send_can_recv: "\<not> crashed s \<Longrightarrow> cons s = CSend out \<Longrightarrow> can_recv env exs contracts s"
  by (rule can_recv_now [OF client_block]) (simp_all add: Recv_block_def)

lemma ended_can_recv: "\<not> crashed s \<Longrightarrow> cons s = CSelect \<Longrightarrow> blocks_closed s \<Longrightarrow> can_recv env exs contracts s"
  by (rule can_recv_step [OF events_end]) (simp_all add: events_return_def closed_can_recv)

lemma offer_can_recv:
  assumes "\<not> crashed s" "cons s = CSelect" "prod s = PSend r b" "extract_block env exs contracts b \<noteq> Panic"
  shows "can_recv env exs contracts s"
proof (rule can_recv_step [OF pass_block [OF assms(1,3,2)]])
  show "can_recv env exs contracts (events_block env exs contracts r b (s\<lparr>prod := PRecv\<rparr>))"
    using assms(1,4)
    by (cases "extract_block env exs contracts b")
       (simp_all add: events_block_def events_return_def closed_can_recv send_can_recv)
qed (use assms(4) in \<open>cases "extract_block env exs contracts b"; simp add: events_block_def events_return_def\<close>)+

lemma recv_can_recv:
  assumes "\<not> crashed s" "cons s = CSelect" "prod s = PRecv" "upstream s = x # xs"
    and "\<And>r b. x = Resp r \<Longrightarrow> r_Block r = Inr (Some b) \<Longrightarrow> extract_block env exs contracts b \<noteq> Panic"
  shows "can_recv env exs contracts s"
proof (cases "\<exists>r b. x = Resp r \<and> r_Block r = Inr (Some b)")
  case True
  then obtain r b where x: "x = Resp r" "r_Block r = Inr (Some b)" by blast
  then have eq: "prod_recv x s = s\<lparr>upstream := tl (upstream s), prod := PSend r b\<rparr>" by (simp add: prod_recv_def)
  show ?thesis
    by (rule can_recv_step [OF recv_up [OF assms(1,3,4)]])
       (simp_all add: eq assms(1,2) offer_can_recv assms(5) [OF x])
next
  case False
  then obtain err where eq: "prod_recv x s = prod_return err s" using prod_recv_returns by blast
  show ?thesis
    by (rule can_recv_step [OF recv_up [OF assms(1,3,4)]]) (simp_all add: eq assms(1,2) prod_return_def ended_can_recv)
qed

section \<open>What is received\<close>

lemma stream_prefix:
  assumes "reachable (\<lambda>s. s = start_pipe ups) (pipe_step env exs contracts) s"
  shows "\<exists>d rest. ups = map Resp d @ rest \<and> map (image env exs contracts) d = map Some (received s) \<and>
     (Inr (Some EOF) \<in> set (results s) \<longrightarrow> (\<exists>rest'. rest = Eof # rest'))"
proof -
  obtain d e where ctl: "pipe_ctl s" and data: "pipe_data env exs contracts ups s d e"
    using pipe.reachable_inv [OF assms] by (auto simp: pipe_inv_def)
  obtain n where n: "results s = map Inl (received s) @ replicate n (Inr (a_err s))" "cons s \<noteq> CDone \<longrightarrow> n = 0"
    using ctl by (metis append_self_conv pipe_ctl_def replicate_0)
  have img: "map (image env exs contracts) d = map Some (received s) @ map Some (in_hand s)"
    and ups: "ups = map Resp d @ map Resp e @ upstream s" using data by (simp_all add: pipe_data_def)
  let ?d = "take (length (received s)) d"
  have d: "d = ?d @ drop (length (received s)) d" by simp
  have "map (image env exs contracts) ?d = map Some (received s)"
    using img by (metis append_eq_conv_conj length_map take_map)
  moreover have "ups = map Resp ?d @ map Resp (drop (length (received s)) d) @ map Resp e @ upstream s"
    using ups d by (metis append.assoc map_append)
  moreover have "\<exists>rest'. map Resp (drop (length (received s)) d) @ map Resp e @ upstream s = Eof # rest'"
    if "Inr (Some EOF) \<in> set (results s)"
  proof -
    have "a_err s = Some EOF" "n \<noteq> 0" using that n(1) by (auto split: if_splits)
    then have "at_end s e" "cons s = CDone" using data n(2) by (auto simp: pipe_data_def)
    moreover have "length d = length (received s)"
      using img \<open>cons s = CDone\<close> by (metis append_Nil2 in_hand_def consumer.simps(10) length_map list.map(1))
    ultimately show ?thesis by (auto simp: at_end_def)
  qed
  ultimately show ?thesis by blast
qed

lemma stream_results:
  assumes "reachable (\<lambda>s. s = start_pipe ups) (pipe_step env exs contracts) s"
  shows "\<exists>n err. results s = map Inl (received s) @ replicate n (Inr (Some err))"
proof -
  have ctl: "pipe_ctl s" using pipe.reachable_inv [OF assms] by (auto simp: pipe_inv_def)
  show ?thesis
  proof (cases "cons s = CDone")
    case True
    then show ?thesis using ctl by (auto simp: pipe_ctl_def)
  next
    case False
    then show ?thesis using ctl by (intro exI [of _ 0]) (simp add: pipe_ctl_def)
  qed
qed

section \<open>Properties\<close>

text \<open>
  C3. What the client receives, in any interleaving with cancellation: the responses for a prefix of the
  upstream blocks, in order and without gaps, then one and the same error for ever; and the
  error is \<open>io.EOF\<close> only if upstream had ended and every block before its end was received.
\<close>

theorem stream_no_silent_truncation:
  assumes "reachable (\<lambda>s. s = start_pipe ups) (pipe_step env exs contracts) s"
  shows "(\<exists>d rest. ups = map Resp d @ rest \<and> map (image env exs contracts) d = map Some (received s) \<and>
            (Inr (Some EOF) \<in> set (results s) \<longrightarrow> (\<exists>rest'. rest = Eof # rest'))) \<and>
     (\<exists>n err. results s = map Inl (received s) @ replicate n (Inr (Some err)))"
  using stream_prefix [OF assms] stream_results [OF assms] by blast

text \<open>
  C27. The client is never left waiting: as long as no block crashes the extraction and upstream ends
  its stream, every call of \<open>Recv\<close> can return from every reachable state, without cancellation.
\<close>

theorem stream_recv_completes:
  assumes "reachable (\<lambda>s. s = start_pipe ups) (pipe_step env exs contracts) s" and "\<not> crashed s"
    and "ups \<noteq> []" and "\<And>r. last ups \<noteq> Resp r"
    and "\<And>r b. Resp r \<in> set ups \<Longrightarrow> r_Block r = Inr (Some b) \<Longrightarrow> extract_block env exs contracts b \<noteq> Panic"
  shows "can_recv env exs contracts s"
proof -
  obtain d e where ctl: "pipe_ctl s" and data: "pipe_data env exs contracts ups s d e"
    using pipe.reachable_inv [OF assms(1)] by (auto simp: pipe_inv_def)
  have "upstream s \<noteq> []"
  proof
    assume "upstream s = []"
    then have "ups = map Resp (d @ e)" using data by (simp add: pipe_data_def)
    then show False using assms(3,4) by (metis last_map map_is_Nil_conv)
  qed
  then obtain x xs where up: "upstream s = x # xs" by (cases "upstream s") auto
  show ?thesis
  proof (cases "cons s")
    case CSelect
    show ?thesis
    proof (cases "prod s")
      case PRecv
      have "x = Resp r \<Longrightarrow> Resp r \<in> set ups" for r using data up by (auto simp: pipe_data_def)
      then show ?thesis by (intro recv_can_recv [OF assms(2) CSelect PRecv up] assms(5))
    next
      case (PSend r b)
      then have "e = [r]" "r_Block r = Inr (Some b)"
        using data ctl assms(2) CSelect by (simp_all add: pipe_data_def pipe_ctl_def on_offer_def)
      then show ?thesis
        using offer_can_recv [OF assms(2) CSelect PSend] assms(5) [of r b] data by (simp add: pipe_data_def)
    next
      case PDone
      then show ?thesis using ended_can_recv [OF assms(2) CSelect] ctl by (simp add: pipe_ctl_def)
    qed
  next
    case (CSend out)
    then show ?thesis using assms(2) by (rule send_can_recv [rotated])
  next
    case CDone
    then show ?thesis using ctl assms(2) by (simp add: pipe_ctl_def closed_can_recv)
  qed
qed

section \<open>A concrete run\<close>

definition empty_block :: sf_block where
  "empty_block = \<lparr>sf_Number = 4, sf_Hash = [], Header = Some 0, TransactionTraces = []\<rparr>"

definition demo_ups :: "recv list" where
  "demo_ups = [Resp \<lparr>r_Block = Inr (Some empty_block), r_Cursor = ''block[4]'', r_Step = 0\<rparr>, Eof]"

lemma empty_block_extracts:
  "extract_block demo_eth_env [] [] empty_block = Ret \<lparr>b_Number = 4, TimeStamp = 0, b_Hash = [], Transactions = []\<rparr>"
  by (simp add: extract_block_def empty_block_def)

definition demo_out :: block_response where
  "demo_out = \<lparr>o_Block = \<lparr>b_Number = 4, TimeStamp = 0, b_Hash = [], Transactions = []\<rparr>, o_Cursor = ''block[4]'',
     FirehoseBlock = empty_block, FirehoseStep = 0\<rparr>"

abbreviation "demo_reachable \<equiv> reachable (\<lambda>s. s = start_pipe demo_ups) (pipe_step demo_eth_env [] [])"

lemmas demo_pipe_defs = start_pipe_def demo_ups_def prod_recv_def prod_return_def events_block_def events_return_def
  Recv_block_def Recv_closed_def empty_block_extracts

lemma demo_run: "\<exists>s. demo_reachable s \<and> results s = [Inl demo_out, Inr (Some EOF)] \<and> \<not> crashed s \<and> \<not> cancelled s"
proof -
  let ?r = "\<lparr>r_Block = Inr (Some empty_block), r_Cursor = ''block[4]'', r_Step = 0\<rparr>"
  let ?s0 = "start_pipe demo_ups"
  let ?s1 = "prod_recv (Resp ?r) ?s0"
  let ?s2 = "events_block demo_eth_env [] [] ?r empty_block (?s1\<lparr>prod := PRecv\<rparr>)"
  let ?s3 = "Recv_block demo_out ?s2"
  let ?s4 = "prod_recv Eof ?s3"
  let ?s5 = "events_return (blocks_err ?s4) ?s4"
  have "demo_reachable ?s0" by (rule reachable_init) simp
  then have "demo_reachable ?s1"
    by (rule reachable_step) (rule recv_up [of _ _ "[Eof]"], simp_all add: demo_pipe_defs)
  then have "demo_reachable ?s2"
    by (rule reachable_step) (rule pass_block, simp_all add: demo_pipe_defs)
  then have "demo_reachable ?s3"
    by (rule reachable_step) (rule client_block, simp_all add: demo_pipe_defs demo_out_def)
  then have "demo_reachable ?s4"
    by (rule reachable_step) (rule recv_up [of _ _ "[]"], simp_all add: demo_pipe_defs)
  then have "demo_reachable ?s5"
    by (rule reachable_step) (rule events_end, simp_all add: demo_pipe_defs)
  then have "demo_reachable (Recv_closed ?s5)"
    by (rule reachable_step) (rule client_closed, simp_all add: demo_pipe_defs)
  moreover have "results (Recv_closed ?s5) = [Inl demo_out, Inr (Some EOF)] \<and> \<not> crashed (Recv_closed ?s5) \<and> \<not> cancelled (Recv_closed ?s5)"
    by (simp add: demo_pipe_defs)
  ultimately show ?thesis by blast
qed

theorem stream_no_silent_truncation_witness:
  "\<exists>s d. demo_reachable s \<and> results s = [Inl demo_out, Inr (Some EOF)] \<and>
     map (image demo_eth_env [] []) d = [Some demo_out]"
proof -
  obtain s where s: "demo_reachable s" "results s = [Inl demo_out, Inr (Some EOF)]" using demo_run by blast
  then have "received s = [demo_out]" by (simp add: received_def)
  moreover have "\<exists>d. map (image demo_eth_env [] []) d = map Some (received s)"
    using stream_no_silent_truncation [OF s(1)] by blast
  ultimately show ?thesis using s by auto
qed

theorem stream_recv_completes_witness:
  "\<exists>s. demo_reachable s \<and> results s = [Inl demo_out, Inr (Some EOF)] \<and> can_recv demo_eth_env [] [] s"
proof -
  obtain s where s: "demo_reachable s" "results s = [Inl demo_out, Inr (Some EOF)]" "\<not> crashed s" using demo_run by blast
  have "extract_block demo_eth_env [] [] b \<noteq> Panic" if "Resp r \<in> set demo_ups" "r_Block r = Inr (Some b)" for r b
    using that by (simp add: demo_ups_def empty_block_extracts)
  then have "can_recv demo_eth_env [] [] s"
    using stream_recv_completes [OF s(1,3)] by (simp add: demo_ups_def)
  then show ?thesis using s by blast
qed

end
