(* ===== verification/FirehoseTest.thy ===== *)
theory FirehoseTest
  imports HydrantStream
begin

text \<open>
  Test doubles for the Firehose service (\<open>go/firehose/firehosetest/firehosetest.go\<close>): blocks that are mined on a
  simulated chain are queued, and a fake server sends them to the clients of the Hydrant service.
  Composed with the stream of Hydrant events, what a test collects is determined by the mined blocks.
\<close>

section \<open>Mining\<close>

text \<open>Logs and blocks of go-ethereum, as far as they are copied.\<close>

record geth_log =
  g_Address :: bytes
  g_Topics :: "bytes list"
  g_Data :: bytes
  g_Index :: u64

record geth_receipt =
  g_TxHash :: bytes
  g_Logs :: "geth_log list"

record geth_block =
  g_Hash :: bytes
  g_Number :: u64
  g_Time :: u64
  g_Transactions :: "bytes list"

text \<open>The block that a commit mines, by its hash, and receipts by transaction hash; errors are fatal to the test.\<close>

record 'c geth_chain =
  ChainCommit :: "'c \<Rightarrow> bytes \<times> 'c"
  BlockByHash :: "'c \<Rightarrow> bytes \<Rightarrow> string + geth_block"
  TransactionReceipt :: "'c \<Rightarrow> bytes \<Rightarrow> string + geth_receipt"

definition convert_log :: "geth_log \<Rightarrow> log_msg" where
  "convert_log l = \<lparr>l_address = g_Address l, Topics = g_Topics l, Data = g_Data l, Index = ucast (g_Index l)\<rparr>"

fun convert_txs :: "(bytes \<Rightarrow> string + geth_receipt) \<Rightarrow> bytes list \<Rightarrow> (string, tx_trace list) outcome" where
  "convert_txs receipt [] = Ret []"
| "convert_txs receipt (tx # txs) =
     (case receipt tx of
        Inl e \<Rightarrow> Fail e
      | Inr r \<Rightarrow>
          obind (convert_txs receipt txs) (\<lambda>rest.
            Ret (\<lparr>tx_hash = g_TxHash r, Receipt = Some (map convert_log (g_Logs r))\<rparr> # rest)))"

text \<open>The fake: the chain and the blocks that the server has.\<close>

record 'c fake =
  chain :: 'c
  hose_blocks :: "sf_block list"

definition MineBlock :: "'c geth_chain \<Rightarrow> 'c fake \<Rightarrow> (string, geth_block \<times> 'c fake) outcome" where
  "MineBlock g f =
     (case ChainCommit g (chain f) of (blockHash, c) \<Rightarrow>
        case BlockByHash g c blockHash of
          Inl e \<Rightarrow> Fail e
        | Inr block \<Rightarrow>
            obind (convert_txs (TransactionReceipt g c) (g_Transactions block)) (\<lambda>txs.
              Ret (block,
                   f\<lparr>chain := c,
                     hose_blocks := hose_blocks f @
                       [\<lparr>sf_Number = g_Number block, sf_Hash = g_Hash block, Header = Some (sint (g_Time block)),
                         TransactionTraces = txs\<rparr>]\<rparr>)))"

section \<open>The fake server\<close>

definition blockCursor :: "u64 \<Rightarrow> string" where
  "blockCursor num = ''block['' @ Text (uint num) 10 @ '']''"

definition Cursor_of :: "geth_block \<Rightarrow> string" where
  "Cursor_of b = blockCursor (g_Number b)"

datatype hose_error = NegativeStart int | AnyNew string | Send string

definition block_resp :: "sf_block \<Rightarrow> response" where
  "block_resp b = \<lparr>r_Block = Inr (Some b), r_Cursor = blockCursor (sf_Number b), r_Step = 0\<rparr>"

text \<open>What was sent, and the error.\<close>

fun hose_loop ::
  "(sf_block \<Rightarrow> string option) \<Rightarrow> (response \<Rightarrow> string option) \<Rightarrow> u64 \<Rightarrow> u64 \<Rightarrow> sf_block list \<Rightarrow>
   response list \<times> hose_error option" where
  "hose_loop anyNew srvSend start stop [] = ([], None)"
| "hose_loop anyNew srvSend start stop (b # bs) =
     (if sf_Number b < start then hose_loop anyNew srvSend start stop bs
      else if stop \<noteq> 0 \<and> sf_Number b > stop then ([], None)
      else case anyNew b of
             Some e \<Rightarrow> ([], Some (AnyNew e))
           | None \<Rightarrow>
               (case srvSend (block_resp b) of
                  Some e \<Rightarrow> ([], Some (Send e))
                | None \<Rightarrow> (case hose_loop anyNew srvSend start stop bs of (rs, err) \<Rightarrow> (block_resp b # rs, err))))"

definition hose_Blocks ::
  "(sf_block \<Rightarrow> string option) \<Rightarrow> (response \<Rightarrow> string option) \<Rightarrow> block_request \<Rightarrow> sf_block list \<Rightarrow>
   response list \<times> hose_error option" where
  "hose_Blocks anyNew srvSend req bs =
     (if hose_Start req < 0 then ([], Some (NegativeStart (hose_Start req)))
      else hose_loop anyNew srvSend (word_of_int (hose_Start req)) (hose_Stop req) bs)"

text \<open>The client side of the stream: the responses, then the end or the status of the error.\<close>

definition hose_stream :: "(hose_error \<Rightarrow> string) \<Rightarrow> response list \<times> hose_error option \<Rightarrow> recv list" where
  "hose_stream status r = map Resp (fst r) @ [case snd r of None \<Rightarrow> Eof | Some e \<Rightarrow> RecvErr (status e)]"

section \<open>Collecting\<close>

text \<open>\<open>Recv\<close> is called until it returns an error; without one the loop does not end.\<close>

fun CollectAll :: "(block_response + stream_error option) list \<Rightarrow> block_response list \<Rightarrow>
    (stream_error option, block_response list) outcome option" where
  "CollectAll [] got = None"
| "CollectAll (Inl b # rest) got = CollectAll rest (got @ [b])"
| "CollectAll (Inr err # rest) got = Some (if err = Some EOF then Ret got else Fail err)"

definition Arg :: "'u u256_api \<Rightarrow> string \<Rightarrow> 'u dyn \<Rightarrow> bool \<Rightarrow> (proto_error, argument) outcome" where
  "Arg api name val ind = obind (AsValue api val) (\<lambda>v. Ret (NewArgument name v ind))"

section \<open>Facts\<close>

definition in_range :: "u64 \<Rightarrow> u64 \<Rightarrow> sf_block \<Rightarrow> bool" where
  "in_range start stop b \<longleftrightarrow> start \<le> sf_Number b \<and> (stop = 0 \<or> sf_Number b \<le> stop)"

lemma hose_loop_filter:
  assumes "\<And>b. anyNew b = None" "\<And>r. srvSend r = None"
  shows "sorted (map sf_Number bs) \<Longrightarrow>
    hose_loop anyNew srvSend start stop bs = (map block_resp (filter (in_range start stop) bs), None)"
proof (induction bs)
  case (Cons b bs)
  have "filter (in_range start stop) (b # bs) = []" if "stop \<noteq> 0" "sf_Number b > stop"
    using that Cons.prems by (auto simp: filter_empty_conv in_range_def)
  then have stops: "filter (in_range start stop) (b # bs) = []" if "\<not> sf_Number b < start" "stop \<noteq> 0 \<and> sf_Number b > stop"
    using that by blast
  show ?case
  proof (cases "\<not> sf_Number b < start \<and> stop \<noteq> 0 \<and> sf_Number b > stop")
    case True
    then show ?thesis using stops by (simp add: assms)
  next
    case False
    then show ?thesis using Cons by (auto simp: assms in_range_def not_less)
  qed
qed simp

lemma CollectAll_results:
  "CollectAll (map Inl bs @ replicate n (Inr (Some err))) acc =
     (if n = 0 then None else Some (if err = EOF then Ret (acc @ bs) else Fail (Some err)))"
  by (induction bs arbitrary: acc) (cases n; simp)+

text \<open>Mining keeps the queue in order when the chain's block numbers grow.\<close>

lemma MineBlock_sorted:
  assumes "MineBlock g f = Ret (block, f')" "sorted (map sf_Number (hose_blocks f))"
    and "\<And>b. b \<in> set (hose_blocks f) \<Longrightarrow> sf_Number b < g_Number block"
  shows "sorted (map sf_Number (hose_blocks f')) \<and> (\<forall>b \<in> set (hose_blocks f'). sf_Number b \<le> g_Number block)"
  using assms by (auto simp: MineBlock_def outcome_simps sorted_append less_imp_le split: prod.splits sum.splits)

lemma Resp_Eof_prefix: "map Resp d @ Eof # r = map Resp rs @ [Eof] \<Longrightarrow> d = rs"
proof (induction d arbitrary: rs)
  case Nil
  then show ?case by (cases rs) auto
next
  case (Cons x d)
  then show ?case by (cases rs) auto
qed

section \<open>Properties\<close>

text \<open>C17. The test double end to end: for blocks queued in the order of their numbers, whatever the interleaving of the
  goroutines, a test that collects all events without a fatal error gets the extraction of exactly the
  blocks from the requested start up to and including the requested stop, in order.\<close>

theorem fake_end_to_end:
  assumes ok: "\<And>b. anyNew b = None" "\<And>r. srvSend r = None"
    and req: "0 \<le> hose_Start req" and sorted: "sorted (map sf_Number bs)"
    and reach: "reachable (\<lambda>s. s = start_pipe (hose_stream status (hose_Blocks anyNew srvSend req bs)))
      (pipe_step env exs contracts) s"
    and got: "CollectAll (results s) [] = Some (Ret got)"
  shows "map Some got = map (\<lambda>b. image env exs contracts (block_resp b))
    (filter (in_range (word_of_int (hose_Start req)) (hose_Stop req)) bs)"
proof -
  let ?rs = "map block_resp (filter (in_range (word_of_int (hose_Start req)) (hose_Stop req)) bs)"
  have ups: "hose_stream status (hose_Blocks anyNew srvSend req bs) = map Resp ?rs @ [Eof]"
    using req by (simp add: hose_Blocks_def hose_stream_def hose_loop_filter [OF ok sorted])
  obtain n err where res: "results s = map Inl (received s) @ replicate n (Inr (Some err))"
    using stream_results [OF reach] by blast
  then have r: "n \<noteq> 0" "err = EOF" "got = received s"
    using got CollectAll_results [of "received s" n err "[]"] by (auto split: if_splits)
  then have "Inr (Some EOF) \<in> set (results s)" by (simp add: res)
  then obtain d rest where "map Resp ?rs @ [Eof] = map Resp d @ Eof # rest"
    and img: "map (image env exs contracts) d = map Some (received s)"
    using stream_prefix [OF reach] unfolding ups by blast
  then have "d = ?rs" by (intro Resp_Eof_prefix) simp
  then show ?thesis using img r(3) by (simp add: comp_def)
qed

definition demo_req :: block_request where
  "demo_req = \<lparr>EventSignatures = [], Addresses = [], hose_Start = 3, hose_Stop = 4, hose_Cursor = []\<rparr>"

definition demo_blocks :: "sf_block list" where
  "demo_blocks = [empty_block\<lparr>sf_Number := 2\<rparr>, empty_block, empty_block\<lparr>sf_Number := 5\<rparr>]"

theorem fake_end_to_end_witness:
  "\<exists>s. demo_reachable s \<and> CollectAll (results s) [] = Some (Ret [demo_out]) \<and>
     [Some demo_out] = map (\<lambda>b. image demo_eth_env [] [] (block_resp b)) (filter (in_range 3 4) demo_blocks)"
proof -
  obtain s where s: "demo_reachable s" "results s = [Inl demo_out, Inr (Some EOF)]" using demo_run by blast
  have "blockCursor 4 = ''block[4]''" by code_simp
  then have ups: "hose_stream (\<lambda>e. []) (hose_Blocks (\<lambda>b. None) (\<lambda>r. None) demo_req demo_blocks) = demo_ups"
    by (simp add: hose_stream_def hose_Blocks_def demo_req_def demo_blocks_def empty_block_def demo_ups_def block_resp_def)
  have got: "CollectAll (results s) [] = Some (Ret [demo_out])" by (simp add: s(2))
  have "map Some [demo_out] = map (\<lambda>b. image demo_eth_env [] [] (block_resp b))
      (filter (in_range (word_of_int (hose_Start demo_req)) (hose_Stop demo_req)) demo_blocks)"
    using fake_end_to_end [of "\<lambda>b. None" "\<lambda>r. None" demo_req demo_blocks "\<lambda>e. []" demo_eth_env "[]" "[]" s "[demo_out]"]
      s(1) got unfolding ups by (simp add: demo_req_def demo_blocks_def empty_block_def)
  then show ?thesis using s(1) got by (auto simp: demo_req_def)
qed

end
