(* ===== verification/HydrantService.thy ===== *)
theory HydrantService
  imports HydrantStream
begin

text \<open>
  The Hydrant service as a whole (\<open>go/firehose/ethservice.go\<close>, \<open>go/firehose/firehose.go\<close>): connections to Firehose
  and their clean-up, the methods of the server and of the in-process client, which differ in how they
  send, and the loop of \<open>events\<close> as a sequential program that the goroutines of HydrantStream implement.
\<close>

section \<open>Connections\<close>

text \<open>A proxy holds its connection; closing it is what the connection's \<open>Close\<close> returns.\<close>

record 'c proxy =
  conn :: 'c

definition Dial_proxy :: "('o, 'c) dialer \<Rightarrow> string \<Rightarrow> string \<Rightarrow> string \<Rightarrow> 'o list \<Rightarrow> (dial_error, 'c proxy) outcome" where
  "Dial_proxy dl endpointURL tokenURL apiKey opts = obind (Dial dl endpointURL tokenURL apiKey opts) (\<lambda>c. Ret \<lparr>conn = c\<rparr>)"

definition DialETHMainnet :: "('o, 'c) dialer \<Rightarrow> string \<Rightarrow> 'o list \<Rightarrow> (dial_error, 'c proxy) outcome" where
  "DialETHMainnet dl apiKey opts = Dial_proxy dl ETHMainnetURL TokenURL apiKey opts"

definition DialETHGoerli :: "('o, 'c) dialer \<Rightarrow> string \<Rightarrow> 'o list \<Rightarrow> (dial_error, 'c proxy) outcome" where
  "DialETHGoerli dl apiKey opts = Dial_proxy dl ETHGoerliURL TokenURL apiKey opts"

definition Proxy_Close :: "('c \<Rightarrow> string option) \<Rightarrow> 'c proxy \<Rightarrow> string option" where
  "Proxy_Close close_conn p = close_conn (conn p)"

text \<open>A handler with its clean-up, a no-op when dialling failed.\<close>

record 'c eth_handler =
  hproxy :: "'c proxy"

type_synonym ('h) with_cleanup = "(dial_error, 'h) outcome \<times> string option"

definition dial_handler ::
  "('o, 'c) dialer \<Rightarrow> ('c \<Rightarrow> string option) \<Rightarrow> string \<Rightarrow> string \<Rightarrow> string \<Rightarrow> 'o list \<Rightarrow> 'c eth_handler with_cleanup" where
  "dial_handler dl close_conn endpointURL tokenURL apiKey opts =
     (case Dial_proxy dl endpointURL tokenURL apiKey opts of
        Ret p \<Rightarrow> (Ret \<lparr>hproxy = p\<rparr>, Proxy_Close close_conn p)
      | Fail e \<Rightarrow> (Fail (Dialling e), None)
      | Panic \<Rightarrow> (Panic, None))"

definition ETHServer ::
  "('o, 'c) dialer \<Rightarrow> ('c \<Rightarrow> string option) \<Rightarrow> string \<Rightarrow> string \<Rightarrow> string \<Rightarrow> 'o list \<Rightarrow> 'c eth_handler with_cleanup" where
  "ETHServer dl close_conn endpointURL tokenURL apiKey opts =
     dial_handler dl close_conn endpointURL tokenURL apiKey opts"

definition ETHMainnetServer ::
  "('o, 'c) dialer \<Rightarrow> ('c \<Rightarrow> string option) \<Rightarrow> string \<Rightarrow> 'o list \<Rightarrow> 'c eth_handler with_cleanup" where
  "ETHMainnetServer dl close_conn apiKey opts = ETHServer dl close_conn ETHMainnetURL TokenURL apiKey opts"

definition ETHGoerliServer ::
  "('o, 'c) dialer \<Rightarrow> ('c \<Rightarrow> string option) \<Rightarrow> string \<Rightarrow> 'o list \<Rightarrow> 'c eth_handler with_cleanup" where
  "ETHGoerliServer dl close_conn apiKey opts = ETHServer dl close_conn ETHGoerliURL TokenURL apiKey opts"

text \<open>The in-process client has the same handler and clean-up.\<close>

definition ETHClient_handler ::
  "('o, 'c) dialer \<Rightarrow> ('c \<Rightarrow> string option) \<Rightarrow> string \<Rightarrow> string \<Rightarrow> string \<Rightarrow> 'o list \<Rightarrow> 'c eth_handler with_cleanup" where
  "ETHClient_handler dl close_conn endpointURL tokenURL apiKey opts =
     dial_handler dl close_conn endpointURL tokenURL apiKey opts"

text \<open>Tokens of the authentication service.\<close>

record dfuseToken =
  Payload :: string
  ExpiresAt :: int

record oauth2_token =
  AccessToken :: string
  TokenType :: string
  Expiry :: int

definition AsToken :: "dfuseToken \<Rightarrow> oauth2_token" where
  "AsToken t = \<lparr>AccessToken = Payload t, TokenType = ''Bearer'', Expiry = ExpiresAt t\<rparr>"

section \<open>The loop of events\<close>

text \<open>
  What \<open>events\<close> does with the upstream responses when nobody cancels: the responses that were sent and how it
  ends. \<open>Blocked\<close>: upstream has not answered yet. \<open>send\<close> is the error of sending a response.
\<close>

datatype stream_end = Blocked | Ended "stream_error option" | Crashed

fun emit :: "'a \<Rightarrow> 'a list \<times> stream_end \<Rightarrow> 'a list \<times> stream_end" where
  "emit x (xs, en) = (x # xs, en)"

fun events_loop ::
  "('t, 'u) eth_env \<Rightarrow> 't extractors \<Rightarrow> bytes list \<Rightarrow> (block_response \<Rightarrow> stream_error option) \<Rightarrow> recv list \<Rightarrow>
   block_response list \<times> stream_end" where
  "events_loop env exs contracts send [] = ([], Blocked)"
| "events_loop env exs contracts send (Eof # xs) = ([], Ended None)"
| "events_loop env exs contracts send (RecvErr e # xs) = ([], Ended (Some (StreamRecv e)))"
| "events_loop env exs contracts send (Resp r # xs) =
     (case r_Block r of
        Inl e \<Rightarrow> ([], Ended (Some (UnmarshalNew e)))
      | Inr None \<Rightarrow> ([], Ended (Some WrongBlockType))
      | Inr (Some b) \<Rightarrow>
          (case extract_block env exs contracts b of
             Ret blk \<Rightarrow>
               let out = \<lparr>o_Block = blk, o_Cursor = r_Cursor r, FirehoseBlock = b, FirehoseStep = r_Step r\<rparr> in
               (case send out of
                  Some e \<Rightarrow> ([], Ended (Some e))
                | None \<Rightarrow> emit out (events_loop env exs contracts send xs))
           | Fail e \<Rightarrow> ([], Ended (Some (ExtractError e)))
           | Panic \<Rightarrow> ([], Crashed)))"

text \<open>
  The whole of \<open>events\<close>: set-up, opening the stream, the loop. \<open>hose\<close> is what the Firehose client answers to
  a request: an error, or what its stream delivers.
\<close>

datatype events_error = SetupError hydrant_error | OpenBlocks string | InStream stream_error

definition Proxy_Blocks :: "(block_request \<Rightarrow> string + recv list) \<Rightarrow> block_request \<Rightarrow> (events_error, recv list) outcome" where
  "Proxy_Blocks hose req = attempt OpenBlocks (hose req)"

declare Proxy_Blocks_def [simp]

definition events ::
  "('t, 'u) eth_env \<Rightarrow> (events_request \<Rightarrow> string option) \<Rightarrow> (block_request \<Rightarrow> string + recv list) \<Rightarrow>
   (block_response \<Rightarrow> stream_error option) \<Rightarrow> events_request \<Rightarrow> (events_error, block_response list \<times> stream_end) outcome" where
  "events env validateReq hose send req =
     obind (map_fail SetupError (events_setup env validateReq req)) (\<lambda>(exs, contracts, blockReq).
     obind (Proxy_Blocks hose blockReq) (\<lambda>ups.
       Ret (events_loop env exs contracts send ups)))"

text \<open>The methods of the server send to the gRPC stream; the one for transfers stores the signature in the request that it was given.\<close>

definition server_Events ::
  "('t, 'u) eth_env \<Rightarrow> (events_request \<Rightarrow> string option) \<Rightarrow> (block_request \<Rightarrow> string + recv list) \<Rightarrow>
   (block_response \<Rightarrow> stream_error option) \<Rightarrow> events_request \<Rightarrow> (events_error, block_response list \<times> stream_end) outcome" where
  "server_Events env validateReq hose respSend req = events env validateReq hose respSend req"

definition server_ERC721TransferEvents ::
  "('t, 'u) eth_env \<Rightarrow> (events_request \<Rightarrow> string option) \<Rightarrow> (block_request \<Rightarrow> string + recv list) \<Rightarrow>
   (block_response \<Rightarrow> stream_error option) \<Rightarrow> events_request \<Rightarrow>
   (events_error, block_response list \<times> stream_end) outcome \<times> events_request" where
  "server_ERC721TransferEvents env validateReq hose respSend req =
     (case withERC721TransferSig req of
        Ret req' \<Rightarrow> (events env validateReq hose respSend req', req')
      | Fail e \<Rightarrow> (Fail (SetupError e), req)
      | Panic \<Rightarrow> (Panic, req))"

text \<open>
  The client starts the goroutine of the adaptor. Where \<open>events\<close> fails before its loop, the adaptor is
  closed with the error; otherwise it starts as in HydrantStream. Set-up errors have a stream error of their own.
\<close>

datatype adaptor = Closed_with events_error | Piped "recv list"

definition newETHAdaptor ::
  "('t, 'u) eth_env \<Rightarrow> (events_request \<Rightarrow> string option) \<Rightarrow> (block_request \<Rightarrow> string + recv list) \<Rightarrow>
   events_request \<Rightarrow> (unit, adaptor \<times> 't extractors \<times> bytes list) outcome" where
  "newETHAdaptor env validateReq hose req =
     (case map_fail SetupError (events_setup env validateReq req) of
        Fail e \<Rightarrow> Ret (Closed_with e, [], [])
      | Panic \<Rightarrow> Panic
      | Ret (exs, contracts, blockReq) \<Rightarrow>
          (case Proxy_Blocks hose blockReq of
             Fail e \<Rightarrow> Ret (Closed_with e, exs, contracts)
           | Panic \<Rightarrow> Panic
           | Ret ups \<Rightarrow> Ret (Piped ups, exs, contracts)))"

definition client_Events ::
  "('t, 'u) eth_env \<Rightarrow> (events_request \<Rightarrow> string option) \<Rightarrow> (block_request \<Rightarrow> string + recv list) \<Rightarrow>
   events_request \<Rightarrow> (hydrant_error, adaptor \<times> 't extractors \<times> bytes list) outcome" where
  "client_Events env validateReq hose req =
     (case newETHAdaptor env validateReq hose req of Ret a \<Rightarrow> Ret a | _ \<Rightarrow> Panic)"

definition client_ERC721TransferEvents ::
  "('t, 'u) eth_env \<Rightarrow> (events_request \<Rightarrow> string option) \<Rightarrow> (block_request \<Rightarrow> string + recv list) \<Rightarrow>
   events_request \<Rightarrow> (hydrant_error, adaptor \<times> 't extractors \<times> bytes list) outcome \<times> events_request" where
  "client_ERC721TransferEvents env validateReq hose req =
     (case withERC721TransferSig req of
        Ret req' \<Rightarrow> (client_Events env validateReq hose req', req')
      | Fail e \<Rightarrow> (Fail e, req)
      | Panic \<Rightarrow> (Panic, req))"

text \<open>\<open>Recv\<close> on an adaptor that is closed from the start.\<close>

definition Recv_failed :: "events_error \<Rightarrow> (events_error, block_response) outcome" where
  "Recv_failed e = Fail e"

section \<open>The goroutines implement the loop\<close>

abbreviation seq_events :: "('t, 'u) eth_env \<Rightarrow> 't extractors \<Rightarrow> bytes list \<Rightarrow> recv list \<Rightarrow> block_response list \<times> stream_end" where
  "seq_events env exs contracts \<equiv> events_loop env exs contracts (\<lambda>_. None)"

definition after :: "block_response list \<Rightarrow> block_response list \<times> stream_end \<Rightarrow> block_response list \<times> stream_end" where
  "after bs p = (bs @ fst p, snd p)"

definition seq_inv :: "('t, 'u) eth_env \<Rightarrow> 't extractors \<Rightarrow> bytes list \<Rightarrow> recv list \<Rightarrow> pipe \<Rightarrow> bool" where
  "seq_inv env exs contracts ups s \<longleftrightarrow> cancelled s \<or> crashed s \<or>
     (if cons s = CDone
      then \<exists>e. seq_events env exs contracts ups = (received s, Ended e) \<and> a_err s = Some (case e of None \<Rightarrow> EOF | Some x \<Rightarrow> x)
      else if prod s = PDone then seq_events env exs contracts ups = (received s @ in_hand s, Ended (blocks_err s))
      else seq_events env exs contracts ups =
             after (received s @ in_hand s) (seq_events env exs contracts (map Resp (on_offer s) @ upstream s)))"

lemma seq_inv_start: "seq_inv env exs contracts ups (start_pipe ups)"
  by (simp add: seq_inv_def start_pipe_def pipe_views after_def)

lemma emit_parts [simp]: "fst (emit x p) = x # fst p" "snd (emit x p) = snd p"
  by (cases p; simp)+

lemma prod_return_inject [simp]: "prod_return e s = prod_return e' s \<longleftrightarrow> e = e'"
  by (metis prod_return_def pipe.select_convs(4) pipe.surjective pipe.update_convs(3,4,5))

lemma prod_recv_ends:
  assumes "prod_recv x s = prod_return err s" and "\<not> (\<exists>r b. x = Resp r \<and> r_Block r = Inr (Some b))"
  shows "seq_events env exs contracts (x # xs) = ([], Ended err)"
proof (cases x)
  case (Resp r)
  then show ?thesis using assms by (auto simp: prod_recv_def split: sum.splits option.splits)
qed (use assms in \<open>auto simp: prod_recv_def\<close>)

text \<open>The views of a state after each operation.\<close>

lemma views_return [simp]:
  "in_hand (prod_return e s) = in_hand s" "cons (prod_return e s) = cons s" "prod (prod_return e s) = PDone"
  "blocks_err (prod_return e s) = e" "a_err (prod_return e s) = a_err s"
  "cancelled (prod_return e s) = cancelled s" "crashed (prod_return e s) = crashed s"
  by (simp_all add: prod_return_def in_hand_def)

lemma seq_inv_step:
  assumes "pipe_step env exs contracts s t" and "seq_inv env exs contracts ups s" and "pipe_ctl s"
  shows "seq_inv env exs contracts ups t"
  using assms
proof (induction rule: pipe_step.induct)
  case (recv_up s x xs)
  show ?case
  proof (cases "\<exists>r b. x = Resp r \<and> r_Block r = Inr (Some b)")
    case True
    then show ?thesis using recv_up by (auto simp: seq_inv_def prod_recv_def pipe_views)
  next
    case False
    then obtain err where err: "prod_recv x s = prod_return err s" using prod_recv_returns by blast
    then show ?thesis
      using recv_up prod_recv_ends [OF err False, of env exs contracts xs]
      by (auto simp: seq_inv_def on_offer_def after_def)
  qed
next
  case (pass_block s r b)
  then have b: "r_Block r = Inr (Some b)" by (simp add: pipe_ctl_def)
  show ?case
    using pass_block b
    by (cases "extract_block env exs contracts b") (auto simp: seq_inv_def events_block_def events_return_def pipe_views after_def split: prod.splits)
next
  case (client_block s out)
  then show ?case by (auto simp: seq_inv_def Recv_block_def pipe_views)
next
  case (client_closed s)
  then show ?case by (auto simp: seq_inv_def Recv_closed_def pipe_views)
next
  case (events_end s)
  then show ?case by (auto simp: seq_inv_def events_return_def pipe_views pipe_ctl_def)
next
  case (prod_quit s r b)
  then show ?case by (auto simp: seq_inv_def pipe_ctl_def)
qed (auto simp: seq_inv_def events_return_def prod_return_def)

interpretation seq: invariant_system "\<lambda>s. s = start_pipe ups" "pipe_step env exs contracts"
  "\<lambda>s. pipe_inv env exs contracts ups s \<and> seq_inv env exs contracts ups s"
  for ups env exs contracts
proof unfold_locales
  fix s t
  assume "pipe_step env exs contracts s t" "pipe_inv env exs contracts ups s \<and> seq_inv env exs contracts ups s"
  then show "pipe_inv env exs contracts ups t \<and> seq_inv env exs contracts ups t"
    using pipe_inv_step seq_inv_step by (metis pipe_inv_def)
qed (simp add: start_inv seq_inv_start)

lemma closed_results:
  assumes "pipe_ctl s" and "Inr err \<in> set (results s)"
  shows "cons s = CDone \<and> err = a_err s"
proof -
  have "cons s = CDone"
  proof (rule ccontr)
    assume "cons s \<noteq> CDone"
    then have "results s = map Inl (received s)" using assms(1) by (simp add: pipe_ctl_def)
    then have "Inr err \<in> Inl ` set (received s)" using assms(2) by (metis set_map)
    then show False by auto
  qed
  moreover obtain n where "results s = map Inl (received s) @ replicate n (Inr (a_err s))"
    using assms(1) by (auto simp: pipe_ctl_def)
  then have "Inr err \<in> Inl ` set (received s) \<union> set (replicate n (Inr (a_err s)))"
    using assms(2) by (metis set_append set_map)
  ultimately show ?thesis by (auto split: if_splits)
qed

lemma stream_loop:
  assumes "reachable (\<lambda>s. s = start_pipe ups) (pipe_step env exs contracts) s" and "\<not> cancelled s" and "\<not> crashed s"
  shows "(\<exists>rest. fst (events_loop env exs contracts (\<lambda>_. None) ups) = received s @ rest) \<and>
    (\<forall>err. Inr err \<in> set (results s) \<longrightarrow>
       (\<exists>e. events_loop env exs contracts (\<lambda>_. None) ups = (received s, Ended e) \<and>
            err = Some (case e of None \<Rightarrow> EOF | Some x \<Rightarrow> x)))"
proof -
  have ctl: "pipe_ctl s" and inv: "seq_inv env exs contracts ups s"
    using seq.reachable_inv [OF assms(1)] by (auto simp: pipe_inv_def)
  have "\<exists>rest. fst (seq_events env exs contracts ups) = received s @ rest"
    using inv assms(2,3) by (auto simp: seq_inv_def after_def split: if_splits)
  moreover have "\<exists>e. seq_events env exs contracts ups = (received s, Ended e) \<and> err = Some (case e of None \<Rightarrow> EOF | Some x \<Rightarrow> x)"
    if "Inr err \<in> set (results s)" for err
    using inv closed_results [OF ctl that] assms(2,3) by (auto simp: seq_inv_def)
  ultimately show ?thesis by blast
qed

section \<open>Properties\<close>

text \<open>C4. The goroutines compute what the sequential loop of \<open>events\<close> computes: in every interleaving without cancellation, the
  client has received a prefix of the responses that the loop sends, and once it receives an error, it has
  received all of them and the error is the one the loop ends with, \<open>io.EOF\<close> when it ends with none.\<close>

theorem stream_implements_loop:
  assumes "reachable (\<lambda>s. s = start_pipe ups) (pipe_step env exs contracts) s" and "\<not> cancelled s" and "\<not> crashed s"
  shows "(\<exists>rest. fst (events_loop env exs contracts (\<lambda>_. None) ups) = received s @ rest) \<and>
    (\<forall>err. Inr err \<in> set (results s) \<longrightarrow>
       (\<exists>e. events_loop env exs contracts (\<lambda>_. None) ups = (received s, Ended e) \<and>
            err = Some (case e of None \<Rightarrow> EOF | Some x \<Rightarrow> x)))"
  using stream_loop [OF assms] .

theorem stream_implements_loop_witness:
  "\<exists>s. demo_reachable s \<and> events_loop demo_eth_env [] [] (\<lambda>_. None) demo_ups = (received s, Ended None) \<and> received s = [demo_out]"
proof -
  obtain s where s: "demo_reachable s" "results s = [Inl demo_out, Inr (Some EOF)]" "\<not> crashed s" "\<not> cancelled s"
    using demo_run by blast
  have "\<exists>e. events_loop demo_eth_env [] [] (\<lambda>_. None) demo_ups = (received s, Ended e)"
    using stream_implements_loop [OF s(1,4,3)] s(2) by auto
  moreover have "events_loop demo_eth_env [] [] (\<lambda>_. None) demo_ups = ([demo_out], Ended None)"
    by (simp add: demo_ups_def demo_out_def empty_block_extracts)
  ultimately show ?thesis using s(1) by auto
qed

text \<open>Server and client agree: for a request whose stream opens, what the server sends, when sending does not fail, is what a
  client that nobody cancels receives before its first error; a request that is refused, or whose stream does not
  open, fails with the same error on both.\<close>

theorem server_client_agree:
  "(\<forall>e. server_Events env v hose (\<lambda>_. None) req = Fail e \<longleftrightarrow> (\<exists>x y. client_Events env v hose req = Ret (Closed_with e, x, y))) \<and>
   (\<forall>out en. server_Events env v hose (\<lambda>_. None) req = Ret (out, en) \<longrightarrow>
      (\<exists>ups exs contracts. client_Events env v hose req = Ret (Piped ups, exs, contracts) \<and>
         (\<forall>s err. reachable (\<lambda>s. s = start_pipe ups) (pipe_step env exs contracts) s \<and> \<not> cancelled s \<and> \<not> crashed s \<and>
             Inr err \<in> set (results s) \<longrightarrow> received s = out \<and> (\<exists>e. en = Ended e \<and> err = Some (case e of None \<Rightarrow> EOF | Some x \<Rightarrow> x)))))"
proof (cases "events_setup env v req")
  case (Ret x)
  obtain exs contracts breq where x: "x = (exs, contracts, breq)" by (cases x)
  show ?thesis
  proof (cases "hose breq")
    case (Inl e)
    then show ?thesis using Ret x
      by (simp add: server_Events_def events_def client_Events_def newETHAdaptor_def attempt_def)
  next
    case (Inr ups)
    then have ev: "server_Events env v hose (\<lambda>_. None) req = Ret (events_loop env exs contracts (\<lambda>_. None) ups)"
      and cl: "client_Events env v hose req = Ret (Piped ups, exs, contracts)"
      using Ret x by (simp_all add: server_Events_def events_def client_Events_def newETHAdaptor_def attempt_def)
    show ?thesis unfolding ev cl using stream_loop [of ups env exs contracts] by fastforce
  qed
qed (simp_all add: server_Events_def events_def client_Events_def newETHAdaptor_def)

theorem server_client_agree_witness:
  "\<exists>exs contracts. client_Events demo_eth_env (\<lambda>_. None) (\<lambda>_. Inr demo_ups)
       \<lparr>Signatures = [], Contracts = [], StartBlockNum = 0, StopBlockNum = 0, Cursor = []\<rparr> = Ret (Piped demo_ups, exs, contracts)"
proof -
  let ?req = "\<lparr>Signatures = [], Contracts = [], StartBlockNum = 0, StopBlockNum = 0, Cursor = []\<rparr>"
  have "server_Events demo_eth_env (\<lambda>_. None) (\<lambda>_. Inr demo_ups) (\<lambda>_. None) ?req = Ret ([demo_out], Ended None)"
    by (simp add: server_Events_def events_def events_setup_def attempt_def demo_ups_def demo_out_def empty_block_extracts)
  then obtain ups exs contracts where
    "client_Events demo_eth_env (\<lambda>_. None) (\<lambda>_. Inr demo_ups) ?req = Ret (Piped ups, exs, contracts)"
    using server_client_agree [of demo_eth_env "\<lambda>_. None" "\<lambda>_. Inr demo_ups" ?req] by blast
  then show ?thesis
    by (simp add: client_Events_def newETHAdaptor_def events_setup_def attempt_def)
qed

text \<open>A request for transfers can be used once: the signature is stored in the caller's request, so that a second call with it,
  to the server or to the client, is refused.\<close>

theorem transfer_request_used_up:
  "let req' = snd (client_ERC721TransferEvents env v hose req) in
     snd (server_ERC721TransferEvents env v hose send req) = req' \<and>
     fst (client_ERC721TransferEvents env v hose req') = Fail SignaturesGiven \<and>
    fst (server_ERC721TransferEvents env v hose send req') = Fail (SetupError SignaturesGiven)"
  by (simp add: client_ERC721TransferEvents_def server_ERC721TransferEvents_def withERC721TransferSig_def Let_def)

end
