(* ===== verification/EthSigner.thy ===== *)
theory EthSigner
  imports GoText
begin

text \<open>
  Signers (\<open>go/eth/signer.go\<close>): private keys from seed phrases and pseudorandom functions, and the
  signing of messages. The packages for ECDSA, Keccak-256, BIP-39, HD wallets and PRFs are
  arguments; a call of the system's random source is represented by what it returned.
\<close>

section \<open>The packages\<close>

record 'k crypto_api =
  Keccak256 :: "bytes \<Rightarrow> bytes"
  crypto_Sign :: "bytes \<Rightarrow> 'k \<Rightarrow> string + bytes"
  PubkeyToAddress :: "'k \<Rightarrow> bytes"

record ('w, 'p, 'k) wallet_api =
  NewEntropy :: "int \<Rightarrow> string + bytes"
  bip_NewMnemonic :: "bytes \<Rightarrow> string + string"
  NewSeedWithErrorChecking :: "string \<Rightarrow> string \<Rightarrow> string + bytes"
  NewFromSeed :: "bytes \<Rightarrow> string + 'w"
  ParseDerivationPath :: "string \<Rightarrow> string + 'p"
  Derive :: "'w \<Rightarrow> 'p \<Rightarrow> string + 'p"
  PrivateKey :: "'w \<Rightarrow> 'p \<Rightarrow> string + 'k"
  NewMnemonicFromEntropy :: "bytes \<Rightarrow> string + string"

section \<open>Keys\<close>

record 'k signer =
  key :: 'k
  mnemonic :: string

datatype signer_error =
    GenerateEntropy string
  | EntropyToMnemonic string
  | CreateSeed string
  | CreateWallet string
  | ParsePath string
  | DeriveAccount string
  | ObtainKey string
  | ComputeEntropy string
  | DeriveMnemonic string
  | ReadRandom nat
  | SignError string

definition NewMnemonic :: "('w, 'p, 'k) wallet_api \<Rightarrow> int \<Rightarrow> (signer_error, string) outcome" where
  "NewMnemonic api bitSize =
     obind (attempt GenerateEntropy (NewEntropy api bitSize)) (\<lambda>buf.
     attempt EntropyToMnemonic (bip_NewMnemonic api buf))"

definition DefaultHDPathPrefix :: string where
  "DefaultHDPathPrefix = ''m/44'' @ [CHR 0x27] @ ''/60'' @ [CHR 0x27] @ ''/0'' @ [CHR 0x27] @ ''/0/''"

definition SignerFromSeedPhrase ::
  "('w, 'p, 'k) wallet_api \<Rightarrow> string \<Rightarrow> string \<Rightarrow> string \<Rightarrow> nat \<Rightarrow> (signer_error, 'k signer) outcome" where
  "SignerFromSeedPhrase api hdp mn password account =
     obind (attempt CreateSeed (NewSeedWithErrorChecking api mn password)) (\<lambda>seed.
     obind (attempt CreateWallet (NewFromSeed api seed)) (\<lambda>wallet.
     obind (attempt ParsePath (ParseDerivationPath api (hdp @ Text (int account) 10))) (\<lambda>path.
     obind (attempt DeriveAccount (Derive api wallet path)) (\<lambda>acc.
     obind (attempt ObtainKey (PrivateKey api wallet acc)) (\<lambda>k.
       Ret \<lparr>key = k, mnemonic = mn\<rparr>)))))"

definition NewSigner :: "('w, 'p, 'k) wallet_api \<Rightarrow> int \<Rightarrow> (signer_error, 'k signer) outcome" where
  "NewSigner api bitSize =
     obind (NewMnemonic api bitSize) (\<lambda>m. SignerFromSeedPhrase api DefaultHDPathPrefix m [] 0)"

definition SignerFromPRF ::
  "('w, 'p, 'k) wallet_api \<Rightarrow> string \<Rightarrow> (bytes \<Rightarrow> nat \<Rightarrow> string + bytes) \<Rightarrow> bytes \<Rightarrow> nat \<Rightarrow> (signer_error, 'k signer) outcome" where
  "SignerFromPRF api hdp computePRF inp account =
     obind (attempt ComputeEntropy (computePRF inp 32)) (\<lambda>entropy.
     obind (attempt DeriveMnemonic (NewMnemonicFromEntropy api entropy)) (\<lambda>mn.
       SignerFromSeedPhrase api hdp mn [] account))"

text \<open>The primary PRF of a set; a missing one is a nil interface, whose method call panics.\<close>

definition SignerFromPRFSet ::
  "('w, 'p, 'k) wallet_api \<Rightarrow> string \<Rightarrow> (u32 \<times> (bytes \<Rightarrow> nat \<Rightarrow> string + bytes)) list \<Rightarrow> u32 \<Rightarrow> bytes \<Rightarrow> nat \<Rightarrow>
   (signer_error, 'k signer) outcome" where
  "SignerFromPRFSet api hdp prfs primary inp account =
     (case map_of prfs primary of None \<Rightarrow> Panic | Some f \<Rightarrow> SignerFromPRF api hdp f inp account)"

definition Address_of :: "'k crypto_api \<Rightarrow> 'k signer \<Rightarrow> bytes" where
  "Address_of api s = PubkeyToAddress api (key s)"

text \<open>The printed form, the mnemonic, and a transactor; printing of addresses and transactors are arguments.\<close>

definition Signer_String :: "'k crypto_api \<Rightarrow> (bytes \<Rightarrow> string) \<Rightarrow> 'k signer \<Rightarrow> string" where
  "Signer_String api addr_String s = addr_String (Address_of api s)"

definition Mnemonic :: "'k signer \<Rightarrow> string" where
  "Mnemonic s = mnemonic s"

definition TransactorWithChainID :: "('k \<Rightarrow> int \<Rightarrow> string + 't) \<Rightarrow> 'k signer \<Rightarrow> int \<Rightarrow> string + 't" where
  "TransactorWithChainID newKeyedTransactor s chainID = newKeyedTransactor (key s) chainID"

section \<open>Signatures\<close>

text \<open>\<open>rand.Read\<close> returns a count, an error and the bytes it wrote into the 32-byte array.\<close>

record random_read =
  rd_n :: nat
  rd_err :: bool
  rd_bytes :: bytes

definition appendRandomNonce :: "random_read \<Rightarrow> bytes \<Rightarrow> (signer_error, bytes \<times> bytes) outcome" where
  "appendRandomNonce rd buf =
     (if rd_n rd \<noteq> 32 \<or> rd_err rd then Fail (ReadRandom (rd_n rd)) else Ret (buf @ rd_bytes rd, rd_bytes rd))"

definition WithPersonalMessagePrefix :: "bytes \<Rightarrow> bytes" where
  "WithPersonalMessagePrefix message =
     text_bytes ([CHR 0x19] @ ''Ethereum Signed Message:'' @ [CHR 0x0A] @ Text (int (length message)) 10) @ message"

record signOpts =
  opt_raw :: bool
  opt_personal :: bool
  opt_withNonce :: bool

definition sign :: "'k crypto_api \<Rightarrow> random_read \<Rightarrow> 'k signer \<Rightarrow> bytes \<Rightarrow> signOpts \<Rightarrow> (signer_error, bytes \<times> bytes option) outcome" where
  "sign api rd s buf opts =
     obind (if opt_withNonce opts then obind (appendRandomNonce rd buf) (\<lambda>(b, n). Ret (b, Some n)) else Ret (buf, None)) (\<lambda>(b1, nonce).
     let b2 = (if opt_personal opts then WithPersonalMessagePrefix b1 else b1);
         b3 = (if opt_raw opts then b2 else Keccak256 api b2)
     in obind (attempt SignError (crypto_Sign api b3 (key s))) (\<lambda>sg.
          if length sg \<le> 64 then Panic else Ret (sg[64 := sg ! 64 + 27], nonce)))"

definition RawSign :: "'k crypto_api \<Rightarrow> random_read \<Rightarrow> 'k signer \<Rightarrow> bytes \<Rightarrow> (signer_error, bytes) outcome" where
  "RawSign api rd s buf =
     obind (sign api rd s buf \<lparr>opt_raw = True, opt_personal = False, opt_withNonce = False\<rparr>) (\<lambda>r. Ret (fst r))"

definition Sign :: "'k crypto_api \<Rightarrow> random_read \<Rightarrow> 'k signer \<Rightarrow> bytes \<Rightarrow> (signer_error, bytes) outcome" where
  "Sign api rd s buf =
     obind (sign api rd s buf \<lparr>opt_raw = False, opt_personal = False, opt_withNonce = False\<rparr>) (\<lambda>r. Ret (fst r))"

definition PersonalSign :: "'k crypto_api \<Rightarrow> random_read \<Rightarrow> 'k signer \<Rightarrow> bytes \<Rightarrow> (signer_error, bytes) outcome" where
  "PersonalSign api rd s buf =
     obind (sign api rd s buf \<lparr>opt_raw = False, opt_personal = True, opt_withNonce = False\<rparr>) (\<lambda>r. Ret (fst r))"

definition PersonalSignWithNonce :: "'k crypto_api \<Rightarrow> random_read \<Rightarrow> 'k signer \<Rightarrow> bytes \<Rightarrow> (signer_error, bytes \<times> bytes) outcome" where
  "PersonalSignWithNonce api rd s buf =
     obind (sign api rd s buf \<lparr>opt_raw = False, opt_personal = True, opt_withNonce = True\<rparr>) (\<lambda>(sg, nonce).
       case nonce of None \<Rightarrow> Panic | Some n \<Rightarrow> Ret (sg, n))"

definition PersonalSignAddress :: "'k crypto_api \<Rightarrow> random_read \<Rightarrow> 'k signer \<Rightarrow> bytes \<Rightarrow> (signer_error, bytes) outcome" where
  "PersonalSignAddress api rd s addr = PersonalSign api rd s addr"

section \<open>Recovery of the signer\<close>

text \<open>
  What \<open>crypto.Sign\<close> documents: 65 bytes, the last one 0 or 1, from which the signer's address can be
  recovered with the hash. A contract's \<open>ecrecover\<close> expects the last byte shifted by 27.
\<close>

definition crypto_ok :: "'k crypto_api \<Rightarrow> (bytes \<Rightarrow> bytes \<Rightarrow> bytes option) \<Rightarrow> bool" where
  "crypto_ok api recover \<longleftrightarrow>
     (\<forall>h k sg. crypto_Sign api h k = Inr sg \<longrightarrow>
        length sg = 65 \<and> (sg ! 64 = 0 \<or> sg ! 64 = 1) \<and> recover h sg = Some (PubkeyToAddress api k))"

definition ecrecover :: "(bytes \<Rightarrow> bytes \<Rightarrow> bytes option) \<Rightarrow> bytes \<Rightarrow> bytes \<Rightarrow> bytes option" where
  "ecrecover recover h sg =
     (if length sg = 65 \<and> (sg ! 64 = 27 \<or> sg ! 64 = 28) then recover h (sg[64 := sg ! 64 - 27]) else None)"

lemma sign_recovers:
  assumes "crypto_ok api recover" and "sign api rd s buf opts = Ret (sg, nonce)" and "\<not> opt_raw opts"
  shows "ecrecover recover
     (Keccak256 api (if opt_personal opts then WithPersonalMessagePrefix (buf @ (case nonce of None \<Rightarrow> [] | Some n \<Rightarrow> n))
                     else buf @ (case nonce of None \<Rightarrow> [] | Some n \<Rightarrow> n))) sg = Some (Address_of api s)"
proof -
  let ?b = "buf @ (case nonce of None \<Rightarrow> [] | Some n \<Rightarrow> n)"
  let ?h = "Keccak256 api (if opt_personal opts then WithPersonalMessagePrefix ?b else ?b)"
  obtain r where r: "crypto_Sign api ?h (key s) = Inr r" and sg: "sg = r[64 := r ! 64 + 27]"
    using assms(2,3)
    by (cases "opt_withNonce opts")
       (auto simp: sign_def attempt_def appendRandomNonce_def outcome_simps Let_def split: if_splits sum.splits prod.splits)
  have k: "length r = 65" "r ! 64 = 0 \<or> r ! 64 = 1" "recover ?h r = Some (PubkeyToAddress api (key s))"
    using assms(1) r by (auto simp: crypto_ok_def)
  then have "sg[64 := sg ! 64 - 27] = r" by (simp add: sg)
  moreover have "length sg = 65" "sg ! 64 = 27 \<or> sg ! 64 = 28" using k(1,2) by (auto simp: sg)
  ultimately show ?thesis using k(3) by (simp add: ecrecover_def Address_of_def)
qed

section \<open>Properties\<close>

text \<open>
  The prefix of signed messages is unambiguous: no two messages have the same prefixed form, so that a
  signature of one can never be taken for a signature of another.
\<close>

theorem personal_prefix_injective:
  "WithPersonalMessagePrefix a = WithPersonalMessagePrefix b \<longleftrightarrow> a = b"
proof
  assume eq: "WithPersonalMessagePrefix a = WithPersonalMessagePrefix b"
  let ?t = "\<lambda>n. length (text_nat 10 n)"
  have len: "?t (length a) + length a = ?t (length b) + length b"
    using arg_cong [OF eq, of length] by (simp add: WithPersonalMessagePrefix_def Text_def)
  have mono: "m < n \<Longrightarrow> ?t m + m < ?t n + n" for m n
    using length_text_nat_mono [of 10 m n] by simp
  have "length a = length b" using len mono by (metis linorder_neqE_nat less_irrefl)
  then show "a = b" using eq by (simp add: WithPersonalMessagePrefix_def)
qed simp

text \<open>
  A personal signature with a nonce is accepted on chain: recovering from the hash of the prefixed
  message with its nonce appended gives the signer's own address.
\<close>

theorem PersonalSignWithNonce_recovers:
  assumes "crypto_ok api recover" and "PersonalSignWithNonce api rd s buf = Ret (sg, n)"
  shows "ecrecover recover (Keccak256 api (WithPersonalMessagePrefix (buf @ n))) sg = Some (Address_of api s)"
proof -
  have "sign api rd s buf \<lparr>opt_raw = False, opt_personal = True, opt_withNonce = True\<rparr> = Ret (sg, Some n)"
    using assms(2) by (auto simp: PersonalSignWithNonce_def outcome_simps split: option.splits)
  from sign_recovers [OF assms(1) this] show ?thesis by simp
qed

text \<open>A toy instance of the packages: a signature is the hash, padded, and its key.\<close>

definition toy_crypto :: "u8 crypto_api" where
  "toy_crypto = \<lparr>Keccak256 = (\<lambda>b. [of_nat (length b)]), crypto_Sign = (\<lambda>h k. Inr (replicate 63 0 @ [k, 1])),
     PubkeyToAddress = (\<lambda>k. [k])\<rparr>"

lemma toy_crypto_ok: "crypto_ok toy_crypto (\<lambda>h sg. Some [sg ! 63])"
  by (simp add: crypto_ok_def toy_crypto_def nth_append)


theorem PersonalSignWithNonce_recovers_witness:
  "\<exists>sg. PersonalSignWithNonce toy_crypto \<lparr>rd_n = 32, rd_err = False, rd_bytes = replicate 32 5\<rparr> \<lparr>key = 9, mnemonic = []\<rparr> [1] =
     Ret (sg, replicate 32 5) \<and>
     ecrecover (\<lambda>h sg. Some [sg ! 63]) (Keccak256 toy_crypto (WithPersonalMessagePrefix ([1] @ replicate 32 5))) sg = Some [9]"
proof -
  let ?rd = "\<lparr>rd_n = 32, rd_err = False, rd_bytes = replicate 32 5\<rparr>" and ?s = "\<lparr>key = 9, mnemonic = []\<rparr>"
  have "\<exists>sg. PersonalSignWithNonce toy_crypto ?rd ?s [1] = Ret (sg, replicate 32 5)"
    by (simp add: PersonalSignWithNonce_def sign_def appendRandomNonce_def attempt_def toy_crypto_def Let_def)
  then obtain sg where sg: "PersonalSignWithNonce toy_crypto ?rd ?s [1] = Ret (sg, replicate 32 5)" by blast
  show ?thesis
    using PersonalSignWithNonce_recovers [OF toy_crypto_ok sg] sg by (simp add: Address_of_def toy_crypto_def)
qed

end
