(* ===== verification/Secrets.thy ===== *)
theory Secrets
  imports GoText
begin

text \<open>
  Secrets and guarded calls: identifiers of secrets and their resolution (\<open>go/secrets\<close>), and the gRPC
  interceptors that validate messages (\<open>go/protovalid\<close>). Environment variables, the secret
  manager and generated validators are arguments.
\<close>

section \<open>Identifiers of secrets\<close>

definition Raw :: string where "Raw = ''not-secret''"
definition GCP :: string where "GCP = ''gcp''"
definition Environment :: string where "Environment = ''env''"

record secret =
  Source :: string
  ID :: string

datatype secret_error =
    InvalidSecret string
  | InvalidSource string
  | NotSet string
  | Unimplemented string
  | ManagerError string

definition Secret_String :: "secret \<Rightarrow> string" where
  "Secret_String s = Source s @ ''://'' @ ID s"

text \<open>\<open>strings.SplitN(raw, "://", 2)\<close>.\<close>

fun split_scheme :: "string \<Rightarrow> (string \<times> string) option" where
  "split_scheme [] = None"
| "split_scheme (c # cs) =
     (if HasPrefix (c # cs) ''://'' then Some ([], drop 3 (c # cs))
      else map_option (\<lambda>(a, b). (c # a, b)) (split_scheme cs))"

definition known_source :: "string \<Rightarrow> bool" where
  "known_source src \<longleftrightarrow> src \<in> {Raw, GCP, Environment}"

text \<open>An unknown source is an error, but by then it has been stored.\<close>

definition Secret_Set :: "secret \<Rightarrow> string \<Rightarrow> secret_error option \<times> secret" where
  "Secret_Set s raw =
     (case split_scheme raw of
        None \<Rightarrow> (Some (InvalidSecret raw), s)
      | Some (src, sid) \<Rightarrow>
          if known_source src then (None, s\<lparr>Source := src, ID := sid\<rparr>)
          else (Some (InvalidSource src), s\<lparr>Source := src\<rparr>))"

text \<open>Options that are not meant for the source are dropped.\<close>

datatype 'g secret_option = GCPOption 'g | OtherOption

fun filterOptions :: "'g secret_option list \<Rightarrow> 'g list" where
  "filterOptions [] = []"
| "filterOptions (GCPOption g # r) = g # filterOptions r"
| "filterOptions (OtherOption # r) = filterOptions r"

record 'g secret_env =
  LookupEnv :: "string \<Rightarrow> string option"
  AccessSecret :: "'g list \<Rightarrow> string \<Rightarrow> string + bytes"

definition gcp :: "'g secret_env \<Rightarrow> string \<Rightarrow> 'g list \<Rightarrow> (secret_error, bytes) outcome" where
  "gcp env name opts = (case AccessSecret env opts name of Inl e \<Rightarrow> Fail (ManagerError e) | Inr d \<Rightarrow> Ret d)"

definition Fetch :: "'g secret_env \<Rightarrow> secret \<Rightarrow> 'g secret_option list \<Rightarrow> (secret_error, bytes) outcome" where
  "Fetch env s opts =
     (if Source s = GCP then gcp env (ID s) (filterOptions opts)
      else if Source s = Raw then Ret (text_bytes (ID s))
      else if Source s = Environment
      then (case LookupEnv env (ID s) of None \<Rightarrow> Fail (NotSet (ID s)) | Some v \<Rightarrow> Ret (text_bytes v))
      else Fail (Unimplemented (Source s)))"

lemma HasPrefix_Cons: "HasPrefix (c # cs) (d # ds) \<longleftrightarrow> c = d \<and> HasPrefix cs ds"
  by (auto simp: HasPrefix_def)

lemma HasPrefix_Nil [simp]: "HasPrefix s []"
  by (simp add: HasPrefix_def)

lemma split_scheme_first:
  "CHR '':'' \<notin> set a \<Longrightarrow> split_scheme (a @ ''://'' @ b) = Some (a, b)"
  by (induction a) (auto simp: HasPrefix_Cons)

section \<open>Guarded calls\<close>

text \<open>A message with validation methods has the error of its validation, if any; others have none.\<close>

datatype status_code = InvalidArgument | Internal | HandlerCode nat

definition validate :: "('m \<Rightarrow> string option option) \<Rightarrow> 'm \<Rightarrow> status_code \<Rightarrow> (status_code \<times> string) option" where
  "validate validator m code =
     (case validator m of
        None \<Rightarrow> None
      | Some r \<Rightarrow> map_option (\<lambda>e. (code, e)) r)"

definition UnaryServerInterceptor ::
  "('m \<Rightarrow> string option option) \<Rightarrow> ('m \<Rightarrow> (status_code \<times> string) + 'm) \<Rightarrow> 'm \<Rightarrow> (status_code \<times> string) + 'm" where
  "UnaryServerInterceptor validator h req =
     (case validate validator req InvalidArgument of
        Some e \<Rightarrow> Inl e
      | None \<Rightarrow>
          (case h req of
             Inl e \<Rightarrow> Inl e
           | Inr reply \<Rightarrow>
               (case validate validator reply Internal of Some e \<Rightarrow> Inl e | None \<Rightarrow> Inr reply)))"

definition UnaryClientInterceptor ::
  "('m \<Rightarrow> string option option) \<Rightarrow> ('m \<Rightarrow> (status_code \<times> string) option) \<Rightarrow> 'm \<Rightarrow> (status_code \<times> string) option" where
  "UnaryClientInterceptor validator invoker req =
     (case validate validator req InvalidArgument of Some e \<Rightarrow> Some e | None \<Rightarrow> invoker req)"

definition valid :: "('m \<Rightarrow> string option option) \<Rightarrow> 'm \<Rightarrow> bool" where
  "valid validator m \<longleftrightarrow> (case validator m of Some (Some e) \<Rightarrow> False | _ \<Rightarrow> True)"

lemma validate_valid: "valid validator m \<Longrightarrow> validate validator m code = None"
  by (auto simp: validate_def valid_def split: option.splits)

lemma validate_invalid: "\<not> valid validator m \<Longrightarrow> \<exists>e. validate validator m code = Some (code, e)"
  by (auto simp: validate_def valid_def split: option.splits)

text \<open>
  A call through both interceptors: the client validates, then the server does. What a client can rely
  on is stated once for every validator and handler.
\<close>

locale guarded_call =
  fixes validator :: "'m \<Rightarrow> string option option"
    and call :: "('m \<Rightarrow> (status_code \<times> string) + 'm) \<Rightarrow> 'm \<Rightarrow> (status_code \<times> string) + 'm"
  assumes rejects: "\<not> valid validator req \<Longrightarrow> \<exists>e. call h req = Inl (InvalidArgument, e)"
    and accepts: "valid validator req \<Longrightarrow> call h req = Inr reply \<longleftrightarrow> h req = Inr reply \<and> valid validator reply"
begin

lemma reply_valid: "call h req = Inr reply \<Longrightarrow> valid validator req \<and> valid validator reply \<and> h req = Inr reply"
  by (metis accepts rejects sum.distinct(1))

lemma handler_isolated: "(\<And>m. valid validator m \<Longrightarrow> h m = h' m) \<Longrightarrow> call h req = Inr reply \<longleftrightarrow> call h' req = Inr reply"
  by (metis accepts rejects sum.distinct(1))

end

interpretation server_guard: guarded_call validator "UnaryServerInterceptor validator" for validator
proof unfold_locales
  show "\<exists>e. UnaryServerInterceptor validator h req = Inl (InvalidArgument, e)" if "\<not> valid validator req" for req h
    using validate_invalid [OF that, of InvalidArgument] by (auto simp: UnaryServerInterceptor_def)
  show "UnaryServerInterceptor validator h req = Inr reply \<longleftrightarrow> h req = Inr reply \<and> valid validator reply"
    if "valid validator req" for req h reply
  proof (cases "h req")
    case (Inr r)
    then show ?thesis
      using validate_valid [OF that] validate_valid [of validator r Internal] validate_invalid [of validator r Internal]
      by (cases "valid validator r") (auto simp: UnaryServerInterceptor_def)
  qed (simp add: UnaryServerInterceptor_def validate_valid [OF that])
qed

lemma split_scheme_text: "split_scheme raw = Some (a, b) \<Longrightarrow> raw = a @ ''://'' @ b"
proof (induction raw arbitrary: a)
  case (Cons c cs)
  show ?case
  proof (cases "HasPrefix (c # cs) ''://''")
    case True
    then have "take 3 (c # cs) = ''://''" by (simp add: HasPrefix_def numeral_3_eq_3)
    then have "c # cs = ''://'' @ drop 3 (c # cs)" by (metis append_take_drop_id)
    then show ?thesis using Cons.prems True by auto
  qed (use Cons in auto)
qed simp

lemma known_source_no_colon: "known_source src \<Longrightarrow> CHR '':'' \<notin> set src"
  by (auto simp: known_source_def Raw_def GCP_def Environment_def)

section \<open>Properties\<close>

text \<open>
  Secrets survive their textual form: setting a flag to the text of a secret with a known source gives
  that secret, and any other text is rejected.
\<close>

theorem Secret_roundtrip:
  "(known_source (Source s) \<longrightarrow> Secret_Set old (Secret_String s) = (None, s)) \<and>
   (\<forall>raw s'. Secret_Set old raw = (None, s') \<longrightarrow> raw = Secret_String s' \<and> known_source (Source s'))"
proof (intro conjI impI allI)
  assume "known_source (Source s)"
  then show "Secret_Set old (Secret_String s) = (None, s)"
    using split_scheme_first [OF known_source_no_colon, of "Source s" "ID s"]
    by (simp add: Secret_Set_def Secret_String_def)
next
  fix raw s' assume "Secret_Set old raw = (None, s')"
  then obtain src sid where "split_scheme raw = Some (src, sid)" "known_source src" "s' = old\<lparr>Source := src, ID := sid\<rparr>"
    by (auto simp: Secret_Set_def split: option.splits if_splits)
  then show "raw = Secret_String s'" "known_source (Source s')"
    using split_scheme_text by (auto simp: Secret_String_def)
qed

theorem Secret_roundtrip_witness:
  "Secret_Set \<lparr>Source = [], ID = []\<rparr> ''env://KEY'' = (None, \<lparr>Source = ''env'', ID = ''KEY''\<rparr>)"
  using Secret_roundtrip [of "\<lparr>Source = ''env'', ID = ''KEY''\<rparr>" "\<lparr>Source = [], ID = []\<rparr>"]
  by (simp add: Secret_String_def known_source_def Environment_def)

text \<open>
  Validation cannot be bypassed: through the server interceptor a handler is never run on an invalid
  request, no client receives an invalid reply, and every valid exchange passes unchanged.
\<close>

theorem interceptor_guards:
  "(UnaryServerInterceptor validator h req = Inr reply \<longleftrightarrow>
      valid validator req \<and> h req = Inr reply \<and> valid validator reply) \<and>
   (valid validator req \<or> (\<exists>e. \<forall>h'. UnaryServerInterceptor validator h' req = Inl (InvalidArgument, e) \<and>
                                (\<forall>inv. UnaryClientInterceptor validator inv req = Some (InvalidArgument, e))))"
proof (cases "valid validator req")
  case True
  then show ?thesis using server_guard.accepts [OF True, of h reply] by blast
next
  case False
  obtain e where "validate validator req InvalidArgument = Some (InvalidArgument, e)"
    using validate_invalid [OF False] by (rule exE)
  then show ?thesis using False by (simp add: UnaryServerInterceptor_def UnaryClientInterceptor_def)
qed

end
