(* ===== verification/EntropyServer.thy ===== *)
theory EntropyServer
  imports EthSigner Secrets
begin

text \<open>
  The entropy server (\<open>contracts/entropy/entropyserver/main.go\<close>): it signs the number of a block exactly
  if the block has been mined. Requests run concurrently and share the cached block number, so
  a request is a sequence of atomic steps. The node, the rate limiter, \<open>math.U256Bytes\<close> and
  SHA-256 are arguments or choices of the environment.
\<close>

section \<open>Requests and replies\<close>

record 'k entropy_env =
  crypto :: "'k crypto_api"
  U256Bytes :: "nat \<Rightarrow> bytes"
  Sum256 :: "string \<Rightarrow> bytes"

record 'k source =
  src_signer :: "'k signer"
  src_chainID :: u64
  limiter_every :: int
  limiter_burst :: nat

record http_request =
  Method :: string
  Path :: string

datatype entropy_error =
    errOnlyGetMethod
  | errNonNumericBlock
  | errNegativeBlock
  | errBlockNotMined
  | LatestBlockError string
  | SigningFailed signer_error
  | WriteError string

definition signerAddrEndpoint :: string where
  "signerAddrEndpoint = ''/signer''"

text \<open>The checks of \<open>sign\<close> before it asks whether the block has been mined.\<close>

definition requested_block :: "http_request \<Rightarrow> (nat \<times> entropy_error) + u64" where
  "requested_block r =
     (if Method r \<noteq> ''GET'' then Inl (405, errOnlyGetMethod)
      else case Atoi (TrimPrefix (Path r) ''/'') of
             None \<Rightarrow> Inl (400, errNonNumericBlock)
           | Some n \<Rightarrow> if n < 0 then Inl (400, errNegativeBlock) else Inr (of_int n))"

definition uint256Bytes :: "'k entropy_env \<Rightarrow> u64 \<Rightarrow> bytes" where
  "uint256Bytes env x = U256Bytes env (unat x)"

definition signed_message :: "'k entropy_env \<Rightarrow> 'k source \<Rightarrow> u64 \<Rightarrow> bytes" where
  "signed_message env src block = uint256Bytes env block @ uint256Bytes env (src_chainID src)"

text \<open>
  The end of \<open>sign\<close> once it knows whether the block has been mined; \<open>wr\<close> is the error of writing the
  response, \<open>rd\<close> the unused random source. The body is what was written.
\<close>

definition finish_sign ::
  "'k entropy_env \<Rightarrow> 'k source \<Rightarrow> random_read \<Rightarrow> string option \<Rightarrow> u64 \<Rightarrow> entropy_error + bool \<Rightarrow>
   (unit, string \<times> nat \<times> entropy_error option) outcome" where
  "finish_sign env src rd wr block mined =
     (case mined of
        Inl e \<Rightarrow> Ret ([], 500, Some e)
      | Inr False \<Rightarrow> Ret ([], 403, Some errBlockNotMined)
      | Inr True \<Rightarrow>
          (case PersonalSign (crypto env) rd (src_signer src) (signed_message env src block) of
             Ret sg \<Rightarrow> Ret (case wr of None \<Rightarrow> (hex_encode sg, 200, None) | Some e \<Rightarrow> ([], 500, Some (WriteError e)))
           | Fail e \<Rightarrow> Ret ([], 500, Some (SigningFailed e))
           | Panic \<Rightarrow> Panic))"

definition signerAddr :: "'k entropy_env \<Rightarrow> 'k source \<Rightarrow> string option \<Rightarrow> string \<times> nat \<times> entropy_error option" where
  "signerAddr env src wr =
     (case wr of None \<Rightarrow> (hex_encode (Address_of (crypto env) (src_signer src)), 200, None)
               | Some e \<Rightarrow> ([], 500, Some (WriteError e)))"

text \<open>
  \<open>ServeHTTP\<close> answers with the body for 200, the text of an error for the codes that it names and
  otherwise the first bytes of the hash of the error's text.
\<close>

definition serve ::
  "'k entropy_env \<Rightarrow> (entropy_error \<Rightarrow> string) \<Rightarrow> string \<times> nat \<times> entropy_error option \<Rightarrow> (unit, nat \<times> string) outcome" where
  "serve env errText res =
     (case res of (body, code, err) \<Rightarrow>
        if code = 200 then Ret (code, body)
        else case err of
               None \<Rightarrow> Panic
             | Some e \<Rightarrow>
                 if code \<in> {405, 400, 403} then Ret (code, body @ errText e)
                 else Ret (code, body @ ''Uh oh; please report '' @ hex_encode (take 8 (Sum256 env (errText e)))))"

text \<open>The reply to a request, given what \<open>blockMined\<close> answers for its block.\<close>

definition ServeHTTP ::
  "'k entropy_env \<Rightarrow> (entropy_error \<Rightarrow> string) \<Rightarrow> 'k source \<Rightarrow> random_read \<Rightarrow> string option \<Rightarrow> (u64 \<Rightarrow> entropy_error + bool) \<Rightarrow>
   http_request \<Rightarrow> (unit, nat \<times> string) outcome" where
  "ServeHTTP env errText src rd wr blockMined r =
     (if Method r = ''GET'' \<and> Path r = signerAddrEndpoint then serve env errText (signerAddr env src wr)
      else case requested_block r of
             Inl (code, e) \<Rightarrow> serve env errText ([], code, Some e)
           | Inr block \<Rightarrow> obind (finish_sign env src rd wr block (blockMined block)) (serve env errText))"

section \<open>Starting the server\<close>

record entropy_config =
  ent_port :: int
  ethRPCURL :: secret
  blockInterval :: int

datatype entropy_run_error =
    FetchNodeURL secret_error
  | DialNode string
  | ChainIDError string
  | HotSignerError string
  | ListenAndServeError string

text \<open>The node and the key service; a chain ID is a \<open>big.Int\<close>, and \<open>Uint64\<close> is its low 64 bits.\<close>

record ('c, 'k) entropy_world =
  DialContext :: "string \<Rightarrow> string + 'c"
  node_ChainID :: "'c \<Rightarrow> string + int"
  hotsigner_New :: "bytes \<Rightarrow> nat \<Rightarrow> string + 'k signer"
  ListenAndServe :: "string \<Rightarrow> 'k source \<Rightarrow> string"

definition big_Uint64 :: "int \<Rightarrow> u64" where
  "big_Uint64 c = word_of_int \<bar>c\<bar>"

definition newSource :: "int \<Rightarrow> 'k signer \<Rightarrow> u64 \<Rightarrow> (entropy_run_error, 'k source) outcome" where
  "newSource interval s chainID = Ret \<lparr>src_signer = s, src_chainID = chainID, limiter_every = interval, limiter_burst = 4\<rparr>"

text \<open>\<open>run\<close> up to listening: the address and the source it serves.\<close>

definition entropy_setup ::
  "'g secret_env \<Rightarrow> ('c, 'k) entropy_world \<Rightarrow> 'k entropy_env \<Rightarrow> entropy_config \<Rightarrow> (entropy_run_error, string \<times> 'k source) outcome" where
  "entropy_setup senv world env cfg =
     obind (map_fail FetchNodeURL (Fetch senv (ethRPCURL cfg) [])) (\<lambda>nodeURL.
     obind (attempt DialNode (DialContext world (bytes_text nodeURL))) (\<lambda>c.
     obind (attempt ChainIDError (node_ChainID world c)) (\<lambda>i.
     obind (attempt HotSignerError (hotsigner_New world (uint256Bytes env (big_Uint64 i)) 0)) (\<lambda>s.
     obind (newSource (blockInterval cfg) s (big_Uint64 i)) (\<lambda>src.
       Ret ('':'' @ Text (ent_port cfg) 10, src))))))"

text \<open>\<open>http.ListenAndServe\<close> always returns an error, and so does \<open>run\<close>.\<close>

definition entropy_run ::
  "'g secret_env \<Rightarrow> ('c, 'k) entropy_world \<Rightarrow> 'k entropy_env \<Rightarrow> entropy_config \<Rightarrow> (entropy_run_error, unit) outcome" where
  "entropy_run senv world env cfg =
     obind (entropy_setup senv world env cfg) (\<lambda>(addr, src). Fail (ListenAndServeError (ListenAndServe world addr src)))"

section \<open>The cached block number\<close>

text \<open>
  \<open>blockMined\<close>: load the cache; if it does not suffice, ask the limiter, then the node, and replace the
  cache if nobody else has; the answer is the node's.
\<close>

definition cache_hit :: "u64 \<Rightarrow> u64 \<Rightarrow> bool" where
  "cache_hit cached block \<longleftrightarrow> block \<le> cached"

definition compareAndSwap :: "u64 \<Rightarrow> u64 \<Rightarrow> u64 \<Rightarrow> u64" where
  "compareAndSwap old new curr_value = (if curr_value = old then new else curr_value)"

datatype request_pc =
    Waiting
  | Limiting u64 u64
  | Fetching u64 u64
  | Swapping u64 u64 u64
  | Answered u64 "entropy_error + bool"

text \<open>The height of the chain is part of the world, and only grows.\<close>

record server =
  head :: u64
  currBlock :: u64
  reqs :: "nat \<Rightarrow> request_pc"

definition set_pc :: "nat \<Rightarrow> request_pc \<Rightarrow> server \<Rightarrow> server" where
  "set_pc t pc s = s\<lparr>reqs := (reqs s)(t := pc)\<rparr>"

definition blockMined_load :: "nat \<Rightarrow> u64 \<Rightarrow> server \<Rightarrow> server" where
  "blockMined_load t block s =
     (if cache_hit (currBlock s) block then set_pc t (Answered block (Inr True)) s
      else set_pc t (Limiting block (currBlock s)) s)"

definition blockMined_limit :: "nat \<Rightarrow> u64 \<Rightarrow> u64 \<Rightarrow> bool \<Rightarrow> server \<Rightarrow> server" where
  "blockMined_limit t block old allow s =
     (if allow then set_pc t (Fetching block old) s else set_pc t (Answered block (Inr False)) s)"

definition blockMined_fetch :: "nat \<Rightarrow> u64 \<Rightarrow> u64 \<Rightarrow> string + u64 \<Rightarrow> server \<Rightarrow> server" where
  "blockMined_fetch t block old r s =
     (case r of Inl e \<Rightarrow> set_pc t (Answered block (Inl (LatestBlockError e))) s
              | Inr latest \<Rightarrow> set_pc t (Swapping block old latest) s)"

definition blockMined_swap :: "nat \<Rightarrow> u64 \<Rightarrow> u64 \<Rightarrow> u64 \<Rightarrow> server \<Rightarrow> server" where
  "blockMined_swap t block old latest s =
     set_pc t (Answered block (Inr (block \<le> latest))) (s\<lparr>currBlock := compareAndSwap old latest (currBlock s)\<rparr>)"

text \<open>A node never reports a block that has not been mined.\<close>

inductive server_step :: "server \<Rightarrow> server \<Rightarrow> bool" where
  mine: "head s \<le> h \<Longrightarrow> server_step s (s\<lparr>head := h\<rparr>)"
| load: "reqs s t = Waiting \<Longrightarrow> requested_block r = Inr block \<Longrightarrow> server_step s (blockMined_load t block s)"
| limit: "reqs s t = Limiting block old \<Longrightarrow> server_step s (blockMined_limit t block old allow s)"
| fetch: "reqs s t = Fetching block old \<Longrightarrow> (case r of Inl e \<Rightarrow> True | Inr latest \<Rightarrow> latest \<le> head s) \<Longrightarrow>
    server_step s (blockMined_fetch t block old r s)"
| swap: "reqs s t = Swapping block old latest \<Longrightarrow> server_step s (blockMined_swap t block old latest s)"
| finished: "reqs s t = Answered block a \<Longrightarrow> server_step s (set_pc t Waiting s)"

definition server_init :: "server \<Rightarrow> bool" where
  "server_init s \<longleftrightarrow> currBlock s = 0 \<and> reqs s = (\<lambda>_. Waiting)"

fun pc_ok :: "u64 \<Rightarrow> request_pc \<Rightarrow> bool" where
  "pc_ok h (Swapping block old latest) \<longleftrightarrow> latest \<le> h"
| "pc_ok h (Answered block (Inr True)) \<longleftrightarrow> block \<le> h"
| "pc_ok h _ \<longleftrightarrow> True"

definition server_inv :: "server \<Rightarrow> bool" where
  "server_inv s \<longleftrightarrow> currBlock s \<le> head s \<and> (\<forall>t. pc_ok (head s) (reqs s t))"

lemma pc_ok_mono: "pc_ok h pc \<Longrightarrow> h \<le> h' \<Longrightarrow> pc_ok h' pc"
  by (cases "(h, pc)" rule: pc_ok.cases) auto

lemma pc_ok_answer [simp]: "pc_ok h (Answered block (Inr b)) \<longleftrightarrow> (b \<longrightarrow> block \<le> h)"
  by (cases b) simp_all

lemma server_inv_set: "server_inv s \<Longrightarrow> pc_ok (head s) pc \<Longrightarrow> server_inv (set_pc t pc s)"
  by (auto simp: server_inv_def set_pc_def)

lemma server_inv_at: "server_inv s \<Longrightarrow> reqs s t = pc \<Longrightarrow> pc_ok (head s) pc"
  by (auto simp: server_inv_def)

lemma server_inv_step: "server_step s s' \<Longrightarrow> server_inv s \<Longrightarrow> server_inv s'"
proof (induction rule: server_step.induct)
  case (mine s h)
  then show ?case
    by (auto simp: server_inv_def intro: pc_ok_mono order_trans)
next
  case (load s t r block)
  then have "cache_hit (currBlock s) block \<Longrightarrow> block \<le> head s" by (auto simp: server_inv_def cache_hit_def)
  then show ?case using load by (simp add: blockMined_load_def server_inv_set)
next
  case (limit s t block old allow)
  then show ?case by (simp add: blockMined_limit_def server_inv_set)
next
  case (fetch s t block old r)
  then show ?case by (cases r) (simp_all add: blockMined_fetch_def server_inv_set)
next
  case (swap s t block old latest)
  then have l: "latest \<le> head s" using server_inv_at [of s t] by simp
  then have "server_inv (s\<lparr>currBlock := compareAndSwap old latest (currBlock s)\<rparr>)"
    using swap by (auto simp: server_inv_def compareAndSwap_def)
  moreover have "block \<le> latest \<Longrightarrow> block \<le> head s" using l by simp
  ultimately show ?case by (simp add: blockMined_swap_def server_inv_set)
next
  case (finished s t block a)
  then show ?case by (simp add: server_inv_set)
qed

interpretation ent: invariant_system server_init server_step server_inv
proof unfold_locales
  show "server_inv s" if "server_init s" for s using that by (simp add: server_init_def server_inv_def)
qed (rule server_inv_step)

text \<open>
  \<open>blockMined\<close> of a request that is alone: the answer, the header that says whether it came from the
  cache, and the cache afterwards. The limiter and the node are asked only when the cache does not suffice.
\<close>

definition isCachedHeader :: string where
  "isCachedHeader = ''X-Cached-Block-Number''"

definition blockMined ::
  "bool \<Rightarrow> string + u64 \<Rightarrow> u64 \<Rightarrow> u64 \<Rightarrow> (entropy_error + bool) \<times> (string \<times> string) \<times> u64" where
  "blockMined allow latestBlock cached block =
     (if cache_hit cached block then (Inr True, (isCachedHeader, ''true''), cached)
      else if \<not> allow then (Inr False, (isCachedHeader, ''true''), cached)
      else case latestBlock of
             Inl e \<Rightarrow> (Inl (LatestBlockError e), (isCachedHeader, ''false''), cached)
           | Inr latest \<Rightarrow> (Inr (block \<le> latest), (isCachedHeader, ''false''), compareAndSwap cached latest cached))"

lemma set_pc_simps [simp]:
  "head (set_pc t pc s) = head s" "currBlock (set_pc t pc s) = currBlock s" "reqs (set_pc t pc s) t = pc"
  "set_pc t pc' (set_pc t pc s) = set_pc t pc' s" "(set_pc t pc s)\<lparr>currBlock := c\<rparr> = set_pc t pc (s\<lparr>currBlock := c\<rparr>)"
  by (simp_all add: set_pc_def)

section \<open>Properties\<close>

text \<open>
  C6. Entropy is never revealed early: in every interleaving of requests, with every behaviour of the rate
  limiter and of a node that reports no future block, a reply that carries a signature is
  for a block that has been mined.
\<close>

theorem entropy_only_for_mined:
  assumes "reachable server_init server_step s" and "reqs s t = Answered block a"
    and "finish_sign env src rd wr block a = Ret (body, 200, err)"
  shows "block \<le> head s"
proof -
  have "a = Inr True"
    using assms(3) by (auto simp: finish_sign_def split: sum.splits bool.splits)
  then show ?thesis using server_inv_at [OF ent.reachable_inv [OF assms(1)] assms(2)] by simp
qed

definition demo_entropy :: "u8 entropy_env" where
  "demo_entropy = \<lparr>crypto = toy_crypto, U256Bytes = be_bytes 32, Sum256 = (\<lambda>_. [])\<rparr>"

definition demo_source :: "u8 source" where
  "demo_source = \<lparr>src_signer = \<lparr>key = 9, mnemonic = []\<rparr>, src_chainID = 1, limiter_every = 12000000000, limiter_burst = 4\<rparr>"

definition no_random :: random_read where
  "no_random = \<lparr>rd_n = 0, rd_err = True, rd_bytes = []\<rparr>"

theorem entropy_only_for_mined_witness:
  "\<exists>s. reachable server_init server_step s \<and> reqs s 0 = Answered 7 (Inr True) \<and> 7 \<le> head s"
proof -
  let ?s0 = "\<lparr>head = 8, currBlock = 0, reqs = \<lambda>_. Waiting\<rparr>"
  let ?s1 = "blockMined_load 0 7 ?s0"
  let ?s2 = "blockMined_limit 0 7 0 True ?s1"
  let ?s3 = "blockMined_fetch 0 7 0 (Inr 8) ?s2"
  let ?s4 = "blockMined_swap 0 7 0 8 ?s3"
  have "Atoi ''7'' = Some 7" by code_simp
  then have req: "requested_block \<lparr>Method = ''GET'', Path = ''/7''\<rparr> = Inr 7"
    by (simp add: requested_block_def TrimPrefix_def HasPrefix_def)
  have "reachable server_init server_step ?s0" by (rule reachable_init) (simp add: server_init_def)
  then have "reachable server_init server_step ?s1"
    by (rule reachable_step) (rule load [OF _ req], simp)
  then have "reachable server_init server_step ?s2"
    by (rule reachable_step) (rule limit, simp add: blockMined_load_def cache_hit_def set_pc_def)
  then have "reachable server_init server_step ?s3"
    by (rule reachable_step) (rule fetch, simp_all add: blockMined_load_def blockMined_limit_def cache_hit_def set_pc_def)
  then have r: "reachable server_init server_step ?s4"
    by (rule reachable_step)
       (rule swap, simp add: blockMined_load_def blockMined_limit_def blockMined_fetch_def cache_hit_def set_pc_def)
  have a: "reqs ?s4 0 = Answered 7 (Inr True)" by (simp add: blockMined_swap_def set_pc_def)
  have "\<exists>body. finish_sign demo_entropy demo_source no_random None 7 (Inr True) = Ret (body, 200, None)"
    by (simp add: finish_sign_def PersonalSign_def sign_def attempt_def demo_entropy_def toy_crypto_def Let_def)
  then show ?thesis using entropy_only_for_mined [OF r a] r a by blast
qed

lemma message_injective:
  assumes "\<And>n. U256Bytes env n = be_bytes 32 n"
    and "signed_message env src block = signed_message env src' block'"
  shows "block = block' \<and> src_chainID src = src_chainID src'"
proof -
  have inj: "x = y" if "uint256Bytes env x = uint256Bytes env y" for x y :: u64
  proof -
    have "unat z < 256 ^ 32" for z :: u64 using unsigned_less [of z, where 'a = nat] by simp
    moreover have "SetBytes (be_bytes 32 (unat x)) = SetBytes (be_bytes 32 (unat y))"
      using that assms(1) by (simp add: uint256Bytes_def)
    ultimately have "unat x = unat y" by (simp only: SetBytes_be_bytes mod_less)
    then show ?thesis by (rule unsigned_word_eqI)
  qed
  have "length (uint256Bytes env x) = 32" for x using assms(1) by (simp add: uint256Bytes_def)
  then show ?thesis using assms(2) inj by (simp add: signed_message_def)
qed

text \<open>
  C28. Servers of different chains never sign the same bytes: two servers that start up on nodes with different chain
  IDs below $2^{64}$ sign different messages for any two blocks, and listen on the ports they are
  configured with; the one of the same chain signs different messages for different blocks.
\<close>

theorem entropy_domain_separation:
  assumes "\<And>n. U256Bytes env n = be_bytes 32 n"
    and "entropy_setup senv world env cfg = Ret (addr, src)" and "entropy_setup senv' world' env cfg' = Ret (addr', src')"
  shows "\<exists>c c' i i'. node_ChainID world c = Inr i \<and> node_ChainID world' c' = Inr i' \<and>
    addr = '':'' @ Text (ent_port cfg) 10 \<and>
    (0 \<le> i \<and> i < 2 ^ 64 \<and> 0 \<le> i' \<and> i' < 2 ^ 64 \<longrightarrow>
       (signed_message env src block = signed_message env src' block' \<longleftrightarrow> i = i' \<and> block = block'))"
proof -
  obtain c i where c: "node_ChainID world c = Inr i" "src_chainID src = big_Uint64 i" "addr = '':'' @ Text (ent_port cfg) 10"
    using assms(2) by (auto simp: entropy_setup_def newSource_def outcome_simps)
  obtain c' i' where c': "node_ChainID world' c' = Inr i'" "src_chainID src' = big_Uint64 i'"
    using assms(3) by (auto simp: entropy_setup_def newSource_def outcome_simps)
  have inj: "x = y" if "big_Uint64 x = big_Uint64 y" "0 \<le> x" "x < 2 ^ 64" "0 \<le> y" "y < 2 ^ 64" for x y
    using that by (simp add: big_Uint64_def word_of_int_eq_iff take_bit_int_eq_self)
  have "signed_message env src block = signed_message env src' block' \<longleftrightarrow>
      src_chainID src = src_chainID src' \<and> block = block'"
    using message_injective [OF assms(1)] by (auto simp: signed_message_def)
  then show ?thesis using c c' inj by metis
qed

definition demo_world :: "(unit, u8) entropy_world" where
  "demo_world = \<lparr>DialContext = \<lambda>_. Inr (), node_ChainID = \<lambda>_. Inr 5, hotsigner_New = \<lambda>_ _. Inr (src_signer demo_source),
     ListenAndServe = \<lambda>_ _. ''closed''\<rparr>"

definition demo_entropy_config :: entropy_config where
  "demo_entropy_config = \<lparr>ent_port = 8080, ethRPCURL = \<lparr>Source = Raw, ID = ''url''\<rparr>, blockInterval = 12\<rparr>"

theorem entropy_domain_separation_witness:
  "\<exists>addr src. entropy_setup (\<lparr>LookupEnv = Map.empty, AccessSecret = \<lambda>_ _. Inl []\<rparr> :: unit secret_env) demo_world demo_entropy demo_entropy_config = Ret (addr, src) \<and>
     signed_message demo_entropy src 7 \<noteq> signed_message demo_entropy src 8"
proof -
  let ?senv = "\<lparr>LookupEnv = Map.empty, AccessSecret = \<lambda>_ _. Inl []\<rparr> :: unit secret_env"
  obtain addr src where started: "entropy_setup ?senv demo_world demo_entropy demo_entropy_config = Ret (addr, src)"
    by (simp add: entropy_setup_def demo_world_def demo_entropy_config_def Fetch_def newSource_def attempt_def Raw_def GCP_def)
  have "U256Bytes demo_entropy n = be_bytes 32 n" for n by (simp add: demo_entropy_def)
  from entropy_domain_separation [OF this started started, of 7 8] started show ?thesis
    by (auto simp: demo_world_def)
qed

text \<open>A request whose block is not in the cache, up to the answer of the node.\<close>

lemma blockMined_uncached:
  assumes "reqs s t = Waiting" and "requested_block r = Inr block" and "\<not> cache_hit (currBlock s) block"
    and "\<forall>latest. latestBlock = Inr latest \<longrightarrow> latest \<le> head s"
  shows "server_step\<^sup>*\<^sup>* s (set_pc t (Answered block (Inr False)) s)"
    and "server_step\<^sup>*\<^sup>* s (blockMined_fetch t block (currBlock s) latestBlock (set_pc t (Fetching block (currBlock s)) s))"
proof -
  let ?lim = "set_pc t (Limiting block (currBlock s)) s"
  let ?fetch = "set_pc t (Fetching block (currBlock s)) s"
  have lim: "server_step s ?lim"
    using server_step.load [OF assms(1,2)] assms(3) by (simp add: blockMined_load_def)
  have limited: "server_step ?lim (set_pc t (if allow then Fetching block (currBlock s) else Answered block (Inr False)) s)" for allow
    using limit [of ?lim t block "currBlock s" allow] by (simp add: blockMined_limit_def split: if_splits)
  have "server_step ?fetch (blockMined_fetch t block (currBlock s) latestBlock ?fetch)"
    using assms(4) by (intro server_step.fetch) (auto split: sum.splits)
  then show "server_step\<^sup>*\<^sup>* s (blockMined_fetch t block (currBlock s) latestBlock ?fetch)"
    using lim limited [of True] by (auto intro: converse_rtranclp_into_rtranclp)
  show "server_step\<^sup>*\<^sup>* s (set_pc t (Answered block (Inr False)) s)"
    using lim limited [of False] by (auto intro: converse_rtranclp_into_rtranclp)
qed

text \<open>
  The concurrent steps implement \<open>blockMined\<close>: a request that runs without interruption reaches the answer and the
  cache that the method computes. Hence a mined block is refused only when the limiter refuses, or the node lags
  behind or fails, and with an answer from the cache neither is asked.
\<close>

theorem blockMined_refined:
  assumes "reqs s t = Waiting" and "requested_block r = Inr block"
    and "\<And>latest. latestBlock = Inr latest \<Longrightarrow> latest \<le> head s"
    and "blockMined allow latestBlock (currBlock s) block = (ans, header, cache)"
  shows "server_step\<^sup>*\<^sup>* s (set_pc t (Answered block ans) (s\<lparr>currBlock := cache\<rparr>)) \<and>
    (ans = Inr False \<longrightarrow> \<not> allow \<or> (\<exists>latest. latestBlock = Inr latest \<and> latest < block)) \<and>
    (header = (isCachedHeader, ''true'') \<longleftrightarrow> block \<le> currBlock s \<or> \<not> allow)"
proof -
  have load: "server_step s (blockMined_load t block s)" by (rule server_step.load [OF assms(1,2)])
  show ?thesis
  proof (cases "cache_hit (currBlock s) block")
    case True
    then show ?thesis using assms(4) load by (auto simp: blockMined_def blockMined_load_def cache_hit_def isCachedHeader_def)
  next
    case False
    have "\<forall>latest. latestBlock = Inr latest \<longrightarrow> latest \<le> head s" using assms(3) by blast
    note uncached = blockMined_uncached [OF assms(1,2) False this]
    show ?thesis
    proof (cases allow)
      case True
      show ?thesis
      proof (cases latestBlock)
        case (Inl e)
        then show ?thesis using assms(4) False True uncached(2)
          by (auto simp: blockMined_def blockMined_fetch_def cache_hit_def isCachedHeader_def)
      next
        case (Inr latest)
        let ?swap = "set_pc t (Swapping block (currBlock s) latest) s"
        have "server_step\<^sup>*\<^sup>* s (blockMined_swap t block (currBlock s) latest ?swap)"
          using uncached(2) swap [of ?swap t block "currBlock s" latest] Inr
          by (auto simp: blockMined_fetch_def intro: rtranclp.rtrancl_into_rtrancl)
        then show ?thesis using assms(4) False True Inr
          by (auto simp: blockMined_def blockMined_swap_def cache_hit_def isCachedHeader_def)
      qed
    qed (use assms(4) False uncached(1) in \<open>auto simp: blockMined_def cache_hit_def\<close>)
  qed
qed

theorem blockMined_refined_witness:
  "\<exists>s'. server_step\<^sup>*\<^sup>* \<lparr>head = 8, currBlock = 3, reqs = \<lambda>_. Waiting\<rparr> s' \<and> reqs s' 0 = Answered 7 (Inr True) \<and> currBlock s' = 8"
proof -
  have "Atoi ''7'' = Some 7" by code_simp
  then have "requested_block \<lparr>Method = ''GET'', Path = ''/7''\<rparr> = Inr 7"
    by (simp add: requested_block_def TrimPrefix_def HasPrefix_def)
  from blockMined_refined [of "\<lparr>head = 8, currBlock = 3, reqs = \<lambda>_. Waiting\<rparr>" 0, OF _ this, of "Inr 8" True]
  show ?thesis
    by (intro exI [of _ "set_pc 0 (Answered 7 (Inr True)) \<lparr>head = 8, currBlock = 8, reqs = \<lambda>_. Waiting\<rparr>"])
      (simp add: blockMined_def cache_hit_def compareAndSwap_def)
qed

end
