(* ===== verification/Flagtype.thy ===== *)
theory Flagtype
  imports GoText "HOL-Library.List_Lexorder" "HOL-Library.Char_ord"
begin

text \<open>
  Flag types (\<open>go/flagtype/flagtype.go\<close>): sets of strings, maps of such sets, addresses and dates, with
  the \<open>Set\<close> and \<open>String\<close> methods of the flag packages. A Go map is the list of its entries in some
  order; \<open>sort.Strings\<close> is the lexicographic order of bytes. The checks and conversions of
  addresses and \<open>time.Parse\<close> are arguments.
\<close>

section \<open>Sets of strings\<close>

type_synonym string_set = "string list"

definition add_key :: "string_set \<Rightarrow> string \<Rightarrow> string_set" where
  "add_key s v = (if v \<in> set s then s else s @ [v])"

definition NewStringSet :: "string list \<Rightarrow> string_set" where
  "NewStringSet vals = foldl add_key [] vals"

definition StringSet_String :: "string_set \<Rightarrow> string" where
  "StringSet_String s = join CHR '','' (sort s)"

text \<open>All elements are deleted first, so the old set does not matter.\<close>

definition StringSet_Set :: "string_set \<Rightarrow> string \<Rightarrow> string_set" where
  "StringSet_Set s raw = (if raw = [] then [] else foldl add_key [] (split_char CHR '','' raw))"

section \<open>Maps of sets\<close>

type_synonym string_set_map = "(string \<times> string_set) list"

definition entry_text :: "string_set_map \<Rightarrow> string \<Rightarrow> string" where
  "entry_text m k = k @ CHR ''='' # StringSet_String (case map_of m k of None \<Rightarrow> [] | Some s \<Rightarrow> s)"

definition StringToStringSet_String :: "string_set_map \<Rightarrow> string" where
  "StringToStringSet_String m = join CHR '';'' (map (entry_text m) (sort (map fst m)))"

text \<open>\<open>strings.SplitN(s, "=", 2)\<close>: everything before the first separator and, if there is one, the rest.\<close>

fun split_first :: "char \<Rightarrow> string \<Rightarrow> string \<times> string option" where
  "split_first d [] = ([], None)"
| "split_first d (c # cs) = (if c = d then ([], Some cs) else case split_first d cs of (a, b) \<Rightarrow> (c # a, b))"

text \<open>A part without an equals sign has no second field, and indexing it panics.\<close>

fun set_entries :: "string list \<Rightarrow> string_set_map \<Rightarrow> (unit, string_set_map) outcome" where
  "set_entries [] m = Ret m"
| "set_entries (p # ps) m =
     (case split_first CHR ''='' p of
        (k, None) \<Rightarrow> Panic
      | (k, Some v) \<Rightarrow> set_entries ps (AList.update k (StringSet_Set [] v) m))"

definition StringToStringSet_Set :: "string_set_map \<Rightarrow> string \<Rightarrow> (unit, string_set_map) outcome" where
  "StringToStringSet_Set m raw = (if raw = [] then Ret [] else set_entries (split_char CHR '';'' raw) [])"

section \<open>Addresses and dates\<close>

record address_api =
  IsHexAddress :: "string \<Rightarrow> bool"
  HexToAddress :: "string \<Rightarrow> bytes"
  Address_String :: "bytes \<Rightarrow> string"

datatype flag_error = NotETHAddress string | TimeParse string

definition ETHAddress_Set :: "address_api \<Rightarrow> string \<Rightarrow> (flag_error, bytes) outcome" where
  "ETHAddress_Set api raw = (if \<not> IsHexAddress api raw then Fail (NotETHAddress raw) else Ret (HexToAddress api raw))"

text \<open>The slice is extended, not replaced, and keeps what was added before an error.\<close>

fun add_addresses :: "address_api \<Rightarrow> string list \<Rightarrow> bytes list \<Rightarrow> flag_error option \<times> bytes list" where
  "add_addresses api [] as = (None, as)"
| "add_addresses api (v # vs) as =
     (case ETHAddress_Set api v of
        Ret a \<Rightarrow> add_addresses api vs (as @ [a])
      | Fail e \<Rightarrow> (Some e, as)
      | Panic \<Rightarrow> (None, as))"

definition ETHAddressSlice_Set :: "address_api \<Rightarrow> bytes list \<Rightarrow> string \<Rightarrow> flag_error option \<times> bytes list" where
  "ETHAddressSlice_Set api as raw =
     (if raw = [] then (None, as) else add_addresses api (split_char CHR '','' raw) as)"

definition ETHAddressSlice_String :: "address_api \<Rightarrow> bytes list \<Rightarrow> string" where
  "ETHAddressSlice_String api as = join CHR '','' (map (Address_String api) as)"

record 't time_api =
  time_Parse :: "string \<Rightarrow> string \<Rightarrow> string + 't"
  time_Format :: "'t \<Rightarrow> string \<Rightarrow> string"
  zero_time :: 't

definition dateLayout :: string where
  "dateLayout = ''2006-01-02''"

definition Date_Set :: "'t time_api \<Rightarrow> string \<Rightarrow> (flag_error, 't) outcome" where
  "Date_Set api raw = (case time_Parse api dateLayout raw of Inl e \<Rightarrow> Fail (TimeParse e) | Inr t \<Rightarrow> Ret t)"

definition AsTime :: "'t time_api \<Rightarrow> 't option \<Rightarrow> 't" where
  "AsTime api d = (case d of None \<Rightarrow> zero_time api | Some t \<Rightarrow> t)"

definition Date_String :: "'t time_api \<Rightarrow> 't option \<Rightarrow> string" where
  "Date_String api d = time_Format api (AsTime api d) dateLayout"

section \<open>Facts\<close>

lemma add_keys_new: "distinct (s @ xs) \<Longrightarrow> foldl add_key s xs = s @ xs"
proof (induction xs arbitrary: s)
  case (Cons x xs)
  then show ?case using Cons.IH [of "s @ [x]"] by (simp add: add_key_def)
qed simp

lemma add_keys_distinct: "distinct s \<Longrightarrow> distinct (foldl add_key s xs) \<and> set (foldl add_key s xs) = set s \<union> set xs"
proof (induction xs arbitrary: s)
  case (Cons x xs)
  then show ?case using Cons.IH [of "add_key s x"] by (auto simp: add_key_def)
qed simp

text \<open>The sets that survive printing and parsing: no commas, and not the set of only the empty string.\<close>

definition printable :: "string_set \<Rightarrow> bool" where
  "printable s \<longleftrightarrow> distinct s \<and> list_all (\<lambda>v. CHR '','' \<notin> set v) s \<and> s \<noteq> [[]]"

lemma join_empty_iff: "join d ws = [] \<longleftrightarrow> ws = [] \<or> ws = [[]]"
  by (cases "(d, ws)" rule: join.cases) auto

lemma sort_eq_singleton: "sort s = [x] \<longleftrightarrow> s = [x]"
  by (metis length_sort length_0_conv length_Suc_conv list.set(2) list.simps(15) set_sort sort_key_simps(2)
      insort_key.simps(1) sort_key_simps(1))

lemma StringSet_roundtrip: "printable s \<Longrightarrow> StringSet_Set old (StringSet_String s) = sort s"
proof -
  assume s: "printable s"
  then have d: "distinct (sort s)" "list_all (\<lambda>v. CHR '','' \<notin> set v) (sort s)"
    by (simp_all add: printable_def list_all_iff)
  show ?thesis
  proof (cases "s = []")
    case False
    then have "sort s \<noteq> []" by (metis set_empty set_sort)
    then show ?thesis
      using d s split_join [of "sort s" "CHR '',''"] add_keys_new [of "[]" "sort s"]
      by (auto simp: StringSet_Set_def StringSet_String_def join_empty_iff sort_eq_singleton printable_def)
  qed (simp add: StringSet_Set_def StringSet_String_def)
qed

interpretation sset: codec StringSet_String "\<lambda>raw. (Ret (StringSet_Set old raw) :: (unit, string_set) outcome)"
  "\<lambda>s. printable s \<and> sorted s" for old
  by unfold_locales (simp add: StringSet_roundtrip sorted_sort_id)

lemma split_first_append: "d \<notin> set k \<Longrightarrow> split_first d (k @ d # v) = (k, Some v)"
  by (induction k) auto

lemma split_first_None: "snd (split_first d p) = None \<longleftrightarrow> d \<notin> set p"
  by (induction p) (auto split: prod.splits)

lemma set_entries_panic: "set_entries ps m = Panic \<longleftrightarrow> (\<exists>p \<in> set ps. CHR ''='' \<notin> set p)"
proof (induction ps arbitrary: m)
  case (Cons p ps)
  then show ?case
    using split_first_None [of "CHR ''=''" p] by (auto split: prod.splits option.splits)
qed simp

lemma join_chars: "set (join d ws) \<subseteq> insert d (\<Union> (set ` set ws))"
  by (induction d ws rule: join.induct) auto

definition element :: "string_set_map \<Rightarrow> string \<Rightarrow> string_set" where
  "element m k = (case map_of m k of None \<Rightarrow> [] | Some s \<Rightarrow> s)"

lemma entry_text_element: "entry_text m k = k @ CHR ''='' # StringSet_String (element m k)"
  by (simp add: entry_text_def element_def)

lemma set_entries_entries:
  "distinct (map fst acc @ ks) \<Longrightarrow> list_all (\<lambda>k. CHR ''='' \<notin> set k \<and> printable (element m k)) ks \<Longrightarrow>
   set_entries (map (entry_text m) ks) acc = Ret (acc @ map (\<lambda>k. (k, sort (element m k))) ks)"
proof (induction ks arbitrary: acc)
  case (Cons k ks)
  then have "split_first CHR ''='' (entry_text m k) = (k, Some (StringSet_String (element m k)))"
    "StringSet_Set [] (StringSet_String (element m k)) = sort (element m k)"
    by (simp_all add: entry_text_element split_first_append StringSet_roundtrip)
  moreover have "AList.update k (sort (element m k)) acc = acc @ [(k, sort (element m k))]"
    using Cons.prems(1) by (intro update_fresh) auto
  ultimately show ?case
    using Cons.IH [of "acc @ [(k, sort (element m k))]"] Cons.prems by simp
qed simp

text \<open>The maps that survive: keys without separators, printable sets of strings without semicolons.\<close>

definition printable_map :: "string_set_map \<Rightarrow> bool" where
  "printable_map m \<longleftrightarrow> distinct (map fst m) \<and>
     list_all (\<lambda>(k, s). CHR '';'' \<notin> set k \<and> CHR ''='' \<notin> set k \<and> printable s \<and> list_all (\<lambda>v. CHR '';'' \<notin> set v) s) m"

lemma printable_entry:
  assumes "printable_map m" "k \<in> fst ` set m"
  shows "CHR '';'' \<notin> set k \<and> CHR ''='' \<notin> set k \<and> printable (element m k) \<and> CHR '';'' \<notin> set (entry_text m k)"
proof -
  obtain s where s: "(k, s) \<in> set m" "element m k = s"
    using assms by (force simp: printable_map_def element_def)
  then have k: "CHR '';'' \<notin> set k" "CHR ''='' \<notin> set k" "printable s" "\<forall>v \<in> set s. CHR '';'' \<notin> set v"
    using assms(1) by (auto simp: printable_map_def list_all_iff)
  moreover have "CHR '';'' \<notin> set (StringSet_String s)"
    using join_chars [of "CHR '',''" "sort s"] k(4) by (auto simp: StringSet_String_def)
  ultimately show ?thesis using s(2) by (simp add: entry_text_element)
qed

section \<open>Properties\<close>

text \<open>
  Flags survive printing and parsing: setting a map of string sets to the text of another gives the
  other's entries, keys and sets in ascending order, provided that no key has a separator, no
  element a comma or semicolon, and no set is that of only the empty string. A text with a
  part that lacks the equals sign makes \<open>Set\<close> panic.
\<close>

theorem StringToStringSet_roundtrip:
  assumes "printable_map m"
  shows "StringToStringSet_Set old (StringToStringSet_String m) =
       Ret (map (\<lambda>k. (k, sort (element m k))) (sort (map fst m))) \<and>
     (\<forall>raw. StringToStringSet_Set old raw = Panic \<longleftrightarrow>
        raw \<noteq> [] \<and> list_ex (\<lambda>p. CHR ''='' \<notin> set p) (split_char CHR '';'' raw))"
proof -
  let ?ks = "sort (map fst m)" and ?ps = "map (entry_text m) (sort (map fst m))"
  have ok: "list_all (\<lambda>k. CHR ''='' \<notin> set k \<and> printable (element m k)) ?ks" "list_all (\<lambda>p. CHR '';'' \<notin> set p) ?ps"
    using printable_entry [OF assms] by (auto simp: list_all_iff)
  have "StringToStringSet_Set old (StringToStringSet_String m) = Ret (map (\<lambda>k. (k, sort (element m k))) ?ks)"
  proof (cases "m = []")
    case False
    then have ne: "?ps \<noteq> []" by (metis list.map_disc_iff set_empty set_sort)
    then have "join CHR '';'' ?ps \<noteq> []"
      by (auto simp: join_empty_iff entry_text_element map_eq_Cons_conv)
    then show ?thesis
      using split_join [OF ne ok(2)] set_entries_entries [of "[]" ?ks m] ok(1) assms
      by (simp add: StringToStringSet_Set_def StringToStringSet_String_def printable_map_def)
  qed (simp add: StringToStringSet_Set_def StringToStringSet_String_def)
  then show ?thesis
    by (auto simp: StringToStringSet_Set_def set_entries_panic list_ex_iff)
qed

theorem StringToStringSet_roundtrip_witness:
  "StringToStringSet_Set [] (StringToStringSet_String [(''foo'', [''b'', ''a'']), (''bar'', [])]) =
   Ret [(''bar'', []), (''foo'', [''a'', ''b''])]"
proof -
  have "printable_map [(''foo'', [''b'', ''a'']), (''bar'', [])]" by (simp add: printable_map_def printable_def)
  from StringToStringSet_roundtrip [OF this, of "[]"] show ?thesis
    by (simp add: element_def insort_key.simps less_list_code less_eq_list_code less_char_def less_eq_char_def)
qed

end
