(* ===== verification/Spawner.thy ===== *)
theory Spawner
  imports GoText
begin

text \<open>
  The spawner service (\<open>go/spawner\<close>): PostgreSQL containers launched for tests, registered under random
  identifiers and killed by them. Docker, the database driver, UUIDs and the file system are
  represented by what they answer; the containers that run are part of the state. A mutex
  makes every access of the table atomic.
\<close>

section \<open>Requests\<close>

record postgres_request =
  DockerTag :: string
  DbName :: string
  Ttl :: int

datatype process = Postgres postgres_request | UnsetProcess

record postgres_response =
  Dsn :: string
  User :: string
  Password :: string
  HostAndPort :: string
  Host :: string
  Port :: int
  resp_DbName :: string

record spawn_response =
  Process :: postgres_response
  ToKill :: bytes

datatype spawn_error =
    InvalidProcess
  | MkdirTemp string
  | RunWithOptions string
  | Retry string
  | DbClose string
  | SplitHostPort string
  | ParsePort string
  | Spawning spawn_error
  | NewRandom string
  | FailedToKill spawn_error spawn_error
  | Purge
  | BadProcId
  | NotFound
  | SpawnerNew string
  | SpawnCall spawn_error

section \<open>The world\<close>

text \<open>What the environment answers to one launch.\<close>

record 'r launch_env =
  env_MkdirTemp :: "string + string"
  env_Run :: "string + 'r"
  env_HostPort :: string
  env_Retry :: "string option"
  env_DbClose :: "string option"
  env_SplitHostPort :: "string + string \<times> string"
  env_PathEscape :: "string \<Rightarrow> string"
  env_UUID :: "string + bytes"
  env_Purge :: "string option"

record 'r spawner =
  resources :: "(bytes \<times> 'r) list"
  live :: "'r list"

section \<open>Launching\<close>

definition db_name :: "postgres_request \<Rightarrow> string" where
  "db_name req = (if DbName req = [] then ''dbname'' else DbName req)"

definition dsn_text :: "'r launch_env \<Rightarrow> postgres_request \<Rightarrow> string" where
  "dsn_text env req =
     ''postgres://user:password@'' @ env_HostPort env @ ''/'' @ env_PathEscape env (db_name req) @ ''?sslmode=disable''"

text \<open>Once the container runs, no error path stops it: the resource is not returned.\<close>

definition postgres :: "'r launch_env \<Rightarrow> postgres_request \<Rightarrow> 'r spawner \<Rightarrow> 'r spawner \<times> (spawn_error, 'r \<times> postgres_response) outcome" where
  "postgres env req s =
     (case env_MkdirTemp env of
        Inl e \<Rightarrow> (s, Fail (MkdirTemp e))
      | Inr dataDir \<Rightarrow>
          (case env_Run env of
             Inl e \<Rightarrow> (s, Fail (RunWithOptions e))
           | Inr res \<Rightarrow>
               (s\<lparr>live := res # live s\<rparr>,
                case env_Retry env of
                  Some e \<Rightarrow> Fail (Retry e)
                | None \<Rightarrow>
                    (case env_DbClose env of
                       Some e \<Rightarrow> Fail (DbClose e)
                     | None \<Rightarrow>
                         (case env_SplitHostPort env of
                            Inl e \<Rightarrow> Fail (SplitHostPort e)
                          | Inr (host, portStr) \<Rightarrow>
                              (case Atoi portStr of
                                 None \<Rightarrow> Fail (ParsePort portStr)
                               | Some port \<Rightarrow>
                                   Ret (res, \<lparr>Dsn = dsn_text env req, User = ''user'', Password = ''password'',
                                              HostAndPort = env_HostPort env, Host = host, Port = port,
                                              resp_DbName = db_name req\<rparr>)))))))"

definition kill :: "string option \<Rightarrow> 'r \<Rightarrow> 'r spawner \<Rightarrow> 'r spawner \<times> spawn_error option" where
  "kill purge res s =
     (case purge of Some e \<Rightarrow> (s, Some Purge) | None \<Rightarrow> (s\<lparr>live := remove1 res (live s)\<rparr>, None))"

definition Spawn :: "'r launch_env \<Rightarrow> process \<Rightarrow> 'r spawner \<Rightarrow> 'r spawner \<times> (spawn_error, spawn_response) outcome" where
  "Spawn env p s =
     (case p of
        UnsetProcess \<Rightarrow> (s, Fail InvalidProcess)
      | Postgres req \<Rightarrow>
          (case postgres env req s of
             (s1, Fail e) \<Rightarrow> (s1, Fail (Spawning e))
           | (s1, Panic) \<Rightarrow> (s1, Panic)
           | (s1, Ret (res, resp)) \<Rightarrow>
               (case env_UUID env of
                  Inl e \<Rightarrow>
                    (case kill (env_Purge env) res s1 of
                       (s2, None) \<Rightarrow> (s2, Fail (NewRandom e))
                     | (s2, Some e') \<Rightarrow> (s2, Fail (FailedToKill (NewRandom e) e')))
                | Inr pid \<Rightarrow>
                    (s1\<lparr>resources := AList.update pid res (resources s1)\<rparr>,
                     Ret \<lparr>Process = resp, ToKill = pid\<rparr>))))"

definition Kill :: "string option \<Rightarrow> bytes \<Rightarrow> 'r spawner \<Rightarrow> 'r spawner \<times> spawn_error option" where
  "Kill purge procId s =
     (if length procId \<noteq> 16 then (s, Some BadProcId)
      else case map_of (resources s) procId of
             None \<Rightarrow> (s, Some NotFound)
           | Some res \<Rightarrow> kill purge res s)"

text \<open>A new spawner and the longest wait of its pool; creating the pool may fail.\<close>

definition New :: "string option \<Rightarrow> int \<Rightarrow> (string, 'r spawner \<times> int) outcome" where
  "New newErr poolMaxWait = (case newErr of Some e \<Rightarrow> Fail e | None \<Rightarrow> Ret (\<lparr>resources = [], live = []\<rparr>, poolMaxWait))"

text \<open>A one-off instance with its own table, and the function that kills it.\<close>

definition NewPostgres ::
  "string option \<Rightarrow> 'r launch_env \<Rightarrow> postgres_request \<Rightarrow>
   'r spawner \<times> (spawn_error, postgres_response \<times> (string option \<Rightarrow> 'r spawner \<Rightarrow> 'r spawner \<times> spawn_error option)) outcome" where
  "NewPostgres newErr env req =
     (case New newErr (30 * 10 ^ 9) of
        Fail e \<Rightarrow> (\<lparr>resources = [], live = []\<rparr>, Fail (SpawnerNew e))
      | Panic \<Rightarrow> (\<lparr>resources = [], live = []\<rparr>, Panic)
      | Ret (s0, _) \<Rightarrow>
          (case Spawn env (Postgres req) s0 of
             (s, Ret resp) \<Rightarrow> (s, Ret (Process resp, \<lambda>purge. Kill purge (ToKill resp)))
           | (s, Fail e) \<Rightarrow> (s, Fail (SpawnCall e))
           | (s, Panic) \<Rightarrow> (s, Panic)))"

section \<open>Sequences of calls\<close>

datatype 'r call = CallSpawn "'r launch_env" process | CallKill "string option" bytes

fun do_call :: "'r call \<Rightarrow> 'r spawner \<Rightarrow> 'r spawner" where
  "do_call (CallSpawn env p) s = fst (Spawn env p s)"
| "do_call (CallKill purge procId) s = fst (Kill purge procId s)"

text \<open>Identifiers are random: no later launch draws the same one.\<close>

fun fresh_for :: "bytes \<Rightarrow> 'r call \<Rightarrow> bool" where
  "fresh_for pid (CallSpawn env p) \<longleftrightarrow> env_UUID env \<noteq> Inr pid"
| "fresh_for pid (CallKill _ _) \<longleftrightarrow> True"

text \<open>The errors after which a container runs that is not in the table: the launch failed later on, or its purge did.\<close>

fun stranding :: "spawn_error \<Rightarrow> bool" where
  "stranding (Spawning e) \<longleftrightarrow> (case e of MkdirTemp _ \<Rightarrow> False | RunWithOptions _ \<Rightarrow> False | _ \<Rightarrow> True)"
| "stranding (FailedToKill _ _) \<longleftrightarrow> True"
| "stranding _ \<longleftrightarrow> False"

lemma Kill_resources: "resources (fst (Kill purge procId s)) = resources s"
  by (simp add: Kill_def kill_def split: option.splits)

lemma Spawn_other:
  "env_UUID env \<noteq> Inr pid \<Longrightarrow> map_of (resources (fst (Spawn env p s))) pid = map_of (resources s) pid"
  by (auto simp: Spawn_def postgres_def kill_def update_conv' split: process.splits sum.splits option.splits outcome.splits)

lemma calls_keep:
  "list_all (fresh_for pid) cs \<Longrightarrow> map_of (resources (fold do_call cs s)) pid = map_of (resources s) pid"
proof (induction cs arbitrary: s)
  case (Cons c cs)
  then show ?case by (cases c) (simp_all add: Spawn_other Kill_resources)
qed simp

lemma Spawn_outcome:
  assumes "Spawn env p s = (s', r)"
  shows "case r of
       Ret resp \<Rightarrow> \<exists>res. env_Run env = Inr res \<and> live s' = res # live s \<and> map_of (resources s') (ToKill resp) = Some res \<and>
          env_UUID env = Inr (ToKill resp)
     | Fail e \<Rightarrow> resources s' = resources s \<and>
          (if stranding e then \<exists>res. env_Run env = Inr res \<and> live s' = res # live s else live s' = live s)
     | Panic \<Rightarrow> False"
  using assms
  by (auto simp: Spawn_def postgres_def kill_def update_conv'
      split: process.splits sum.splits option.splits outcome.splits prod.splits)

section \<open>Properties\<close>

text \<open>
  C30. A spawned container can be killed by the identifier in its response whatever happens in between:
  after any further calls that draw other identifiers, \<open>Kill\<close> addresses that container, and a
  failed spawn leaves a container running only if it failed after starting it.
\<close>

theorem spawned_can_be_killed:
  assumes "Spawn env p s = (s', r)"
  shows "(\<forall>resp. r = Ret resp \<and> length (ToKill resp) = 16 \<longrightarrow>
        (\<exists>res. live s' = res # live s \<and>
          (\<forall>cs purge. list_all (fresh_for (ToKill resp)) cs \<longrightarrow>
             Kill purge (ToKill resp) (fold do_call cs s') = kill purge res (fold do_call cs s')))) \<and>
     (\<forall>e. r = Fail e \<longrightarrow> resources s' = resources s \<and> (\<not> stranding e \<longrightarrow> live s' = live s))"
  using Spawn_outcome [OF assms] by (auto simp: Kill_def calls_keep split: if_splits)

definition demo_launch :: "nat launch_env" where
  "demo_launch = \<lparr>env_MkdirTemp = Inr ''/tmp/x'', env_Run = Inr 5, env_HostPort = ''localhost:1'', env_Retry = None,
     env_DbClose = None, env_SplitHostPort = Inr (''localhost'', ''1''), env_PathEscape = id,
     env_UUID = Inr (replicate 16 1), env_Purge = None\<rparr>"

theorem spawned_can_be_killed_witness:
  "\<exists>s' resp. Spawn demo_launch (Postgres \<lparr>DockerTag = [], DbName = [], Ttl = 0\<rparr>) \<lparr>resources = [], live = []\<rparr> = (s', Ret resp) \<and>
     live (fst (Kill None (ToKill resp) s')) = []"
proof -
  let ?s = "\<lparr>resources = [], live = []\<rparr> :: nat spawner" and ?p = "Postgres \<lparr>DockerTag = [], DbName = [], Ttl = 0\<rparr>"
  have "Atoi ''1'' = Some 1" by code_simp
  then obtain s' resp where sp: "Spawn demo_launch ?p ?s = (s', Ret resp)" and len: "length (ToKill resp) = 16"
    by (simp add: Spawn_def postgres_def demo_launch_def)
  from spawned_can_be_killed [OF sp] len
  obtain res where res: "live s' = [res]"
    "\<And>cs purge. list_all (fresh_for (ToKill resp)) cs \<Longrightarrow>
       Kill purge (ToKill resp) (fold do_call cs s') = kill purge res (fold do_call cs s')"
    by auto
  then show ?thesis using sp res(2) [of "[]" None] by (auto simp: kill_def)
qed

text \<open>A database that never answers leaves its container running, unknown to the table.\<close>

lemma Retry_strands:
  "env_MkdirTemp env = Inr d \<Longrightarrow> env_Run env = Inr res \<Longrightarrow> env_Retry env = Some e \<Longrightarrow>
   Spawn env (Postgres req) s = (s\<lparr>live := res # live s\<rparr>, Fail (Spawning (Retry e)))"
  by (simp add: Spawn_def postgres_def)

text \<open>A killed container stays in the table: killing it again purges it again.\<close>

lemma Kill_keeps_entry: "Kill purge procId (fst (Kill purge' procId s)) =
  (if length procId \<noteq> 16 then (s, Some BadProcId)
   else case map_of (resources s) procId of
          None \<Rightarrow> (s, Some NotFound)
        | Some res \<Rightarrow> kill purge res (fst (kill purge' res s)))"
  by (auto simp: Kill_def kill_def split: option.splits)

end
