(* ===== verification/RestApis.thy ===== *)
theory RestApis
  imports Secrets
begin

text \<open>
  Clients of two REST services: Flipside (\<open>go/flipside/common.go\<close>, \<open>createQueryRun.go\<close>, \<open>getQueryRun.go\<close>,
  \<open>getQueryRunResults.go\<close>) and Tenderly (\<open>go/tenderly/tenderly.go\<close>). The HTTP client and the clock act on a
  world that every call passes on, so that the answer to a request may change between calls. JSON
  encoding and decoding, the joining of URL paths and dialling are arguments.
\<close>

section \<open>Requests\<close>

record http_request =
  http_method :: string
  url :: string
  headers :: "(string \<times> string) list"
  content :: string

text \<open>Reading the body of a response may fail.\<close>

record http_response =
  StatusCode :: int
  resp_body :: "string + string"

text \<open>
  \<open>Do\<close> is that of \<open>http.DefaultClient\<close>. \<open>BadRequest\<close> is the error of \<open>http.NewRequestWithContext\<close>.
  \<open>Sleep d\<close> is the \<open>select\<close> between the end of the context, whose error it returns, and a timer.
\<close>

record 'w client =
  BadRequest :: "string \<Rightarrow> string \<Rightarrow> string option"
  Do :: "http_request \<Rightarrow> 'w \<Rightarrow> (string + http_response) \<times> 'w"
  Sleep :: "int \<Rightarrow> 'w \<Rightarrow> string option \<times> 'w"

datatype rest_error =
    FetchError secret_error
  | EncodeError string
  | NewRequestError string
  | DoError string
  | StatusError int string
  | ReadError int string
  | DecodeError string
  | ApiError string
  | ContextError string
  | Unsuccessful string
  | JoinError string
  | DialError string

definition wbind ::
  "('w \<Rightarrow> ('e, 'a) outcome \<times> 'w) \<Rightarrow> ('a \<Rightarrow> 'w \<Rightarrow> ('e, 'b) outcome \<times> 'w) \<Rightarrow> 'w \<Rightarrow> ('e, 'b) outcome \<times> 'w" where
  "wbind m f w =
     (case m w of
        (Ret x, w') \<Rightarrow> f x w'
      | (Fail e, w') \<Rightarrow> (Fail e, w')
      | (Panic, w') \<Rightarrow> (Panic, w'))"

definition check_status :: "http_response \<Rightarrow> (rest_error, string + string) outcome" where
  "check_status resp =
     (if StatusCode resp \<noteq> 200
      then (case resp_body resp of
              Inl e \<Rightarrow> Fail (ReadError (StatusCode resp) e)
            | Inr b \<Rightarrow> Fail (StatusError (StatusCode resp) b))
      else Ret (resp_body resp))"

definition send ::
  "'w client \<Rightarrow> (string \<times> string) list \<Rightarrow> string \<Rightarrow> string \<Rightarrow> string + string \<Rightarrow> 'w \<Rightarrow>
   (rest_error, string + string) outcome \<times> 'w" where
  "send cl hs meth addr encoded w =
     (case encoded of
        Inl e \<Rightarrow> (Fail (EncodeError e), w)
      | Inr b \<Rightarrow>
          (case BadRequest cl meth addr of
             Some e \<Rightarrow> (Fail (NewRequestError e), w)
           | None \<Rightarrow>
               (case Do cl \<lparr>http_method = meth, url = addr, headers = hs, content = b\<rparr> w of
                  (Inl e, w') \<Rightarrow> (Fail (DoError e), w')
                | (Inr resp, w') \<Rightarrow> (check_status resp, w'))))"

section \<open>Flipside\<close>

record config =
  APIKey :: string
  APIURL :: string

text \<open>The key is the fetched secret as a string.\<close>

definition NewFromSecret :: "string \<Rightarrow> 'g secret_env \<Rightarrow> secret \<Rightarrow> (rest_error, config) outcome" where
  "NewFromSecret apiURL env apiKey =
     obind (map_fail FetchError (Fetch env apiKey [])) (\<lambda>key. Ret \<lparr>APIKey = bytes_text key, APIURL = apiURL\<rparr>)"

definition flipside_apiURL :: string where
  "flipside_apiURL = ''https://api-v2.flipsidecrypto.xyz/json-rpc''"

datatype params =
    CreateQueryRunParams (SQL: string) (ResultsTTL: int) (MaxAge: int) (Tags: "(string \<times> string) list")
      (DataSource: string) (DataProvider: string)
  | GetQueryRunParams (RunID: string)
  | GetQueryRunResultsParams (RunID: string) (Format: string) (PageNumber: int) (PageSize: int)

record request =
  JSONRPC :: string
  Method :: string
  ReqID :: int
  Params :: "params list"

record 'u rpc_response =
  Result :: 'u
  RpcError :: "string option"

text \<open>
  Query runs, requests and statements. Times are seconds of the epoch; a value of any JSON type is kept
  as its text.
\<close>

type_synonym tags = "(string \<times> string) list"

record query_run =
  run_id :: string
  run_SQLStatementID :: string
  State :: string
  run_Path :: string
  FileCount :: int
  LastFileNumber :: "int option"
  FileNames :: string
  ErrorName :: string
  ErrorMessage :: string
  ErrorData :: string
  DataSourceQueryID :: string
  DataSourceSessionID :: string
  run_StartedAt :: int
  QueryRunningEndedAt :: int
  QueryStreamingEndedAt :: int
  run_EndedAt :: int
  RowCount :: int
  TotalSize :: string
  run_Tags :: tags
  DataSourceID :: string
  run_UserID :: string
  run_CreatedAt :: int
  run_UpdatedAt :: int
  ArchivedAt :: int

record query_request =
  req_ID :: string
  req_SQLStatementID :: string
  req_UserID :: string
  req_Tags :: tags
  MaxAgeMinutes :: int
  ResultsTTLHours :: int
  UserSkipCache :: bool
  TriggeredQueryRun :: bool
  QueryRunID :: string
  req_CreatedAt :: int
  req_UpdatedAt :: int

record sql_statement =
  stmt_ID :: string
  StatementHash :: string
  stmt_SQL :: string
  ColumnMetadata :: string
  stmt_UserID :: string
  stmt_Tags :: tags
  stmt_CreatedAt :: int
  stmt_UpdatedAt :: int

record create_response =
  created_request :: query_request
  created_run :: query_run
  created_statement :: sql_statement

text \<open>A page of results; the total may differ between pages. Of the results, what the operations read.\<close>

record 'r results =
  Rows :: "'r list"
  TotalPages :: int

record 'r json_api =
  Encode :: "request \<Rightarrow> string + string"
  DecodeCreated :: "string + string \<Rightarrow> string + create_response rpc_response"
  DecodeRun :: "string + string \<Rightarrow> string + query_run rpc_response"
  DecodeResults :: "string + string \<Rightarrow> string + 'r results rpc_response"

definition addHeaders :: "config \<Rightarrow> (string \<times> string) list" where
  "addHeaders cfg = [(''Content-Type'', ''application/json''), (''x-api-key'', APIKey cfg)]"

definition submitRequest ::
  "'w client \<Rightarrow> 'r json_api \<Rightarrow> config \<Rightarrow> request \<Rightarrow> 'w \<Rightarrow> (rest_error, string + string) outcome \<times> 'w" where
  "submitRequest cl api cfg req = send cl (addHeaders cfg) ''POST'' (APIURL cfg) (Encode api req)"

definition submitParams ::
  "'w client \<Rightarrow> 'r json_api \<Rightarrow> config \<Rightarrow> string \<Rightarrow> params list \<Rightarrow> 'w \<Rightarrow> (rest_error, string + string) outcome \<times> 'w" where
  "submitParams cl api cfg meth ps =
     submitRequest cl api cfg \<lparr>JSONRPC = ''2.0'', Method = meth, ReqID = 1, Params = ps\<rparr>"

definition parseResults :: "(string + string \<Rightarrow> string + 'u rpc_response) \<Rightarrow> string + string \<Rightarrow> (rest_error, 'u) outcome" where
  "parseResults decode r =
     (case decode r of
        Inl e \<Rightarrow> Fail (DecodeError e)
      | Inr resp \<Rightarrow> (case RpcError resp of Some e \<Rightarrow> Fail (ApiError e) | None \<Rightarrow> Ret (Result resp)))"

definition submitParamsAndParseResults ::
  "'w client \<Rightarrow> 'r json_api \<Rightarrow> config \<Rightarrow> (string + string \<Rightarrow> string + 'u rpc_response) \<Rightarrow> string \<Rightarrow> params list \<Rightarrow>
   'w \<Rightarrow> (rest_error, 'u) outcome \<times> 'w" where
  "submitParamsAndParseResults cl api cfg decode meth ps =
     wbind (submitParams cl api cfg meth ps) (\<lambda>raw w. (parseResults decode raw, w))"

text \<open>Durations are in nanoseconds.\<close>

definition CreateQueryRun ::
  "'w client \<Rightarrow> 'r json_api \<Rightarrow> config \<Rightarrow> string \<Rightarrow> 'w \<Rightarrow> (rest_error, create_response) outcome \<times> 'w" where
  "CreateQueryRun cl api cfg sql =
     submitParamsAndParseResults cl api cfg (DecodeCreated api) ''createQueryRun''
       [CreateQueryRunParams sql (10 * 3600 * 10 ^ 9) (10 * 60 * 10 ^ 9) [(''env'', ''proof'')]
          ''snowflake-default'' ''flipside'']"

definition GetQueryRun ::
  "'w client \<Rightarrow> 'r json_api \<Rightarrow> config \<Rightarrow> string \<Rightarrow> 'w \<Rightarrow> (rest_error, query_run) outcome \<times> 'w" where
  "GetQueryRun cl api cfg qid =
     submitParamsAndParseResults cl api cfg (DecodeRun api) ''getQueryRun'' [GetQueryRunParams qid]"

definition final_state :: "string \<Rightarrow> bool" where
  "final_state s \<longleftrightarrow> s \<in> {''QUERY_STATE_SUCCESS'', ''QUERY_STATE_FAILED'', ''QUERY_STATE_CANCELED''}"

text \<open>The polling loop; the next backoff, a floating-point product, is the argument \<open>grow\<close>.\<close>

partial_function (option) AwaitQueryRunExecution ::
  "'w client \<Rightarrow> 'r json_api \<Rightarrow> config \<Rightarrow> string \<Rightarrow> (int \<Rightarrow> int) \<Rightarrow> int \<Rightarrow> 'w \<Rightarrow>
   ((rest_error, query_run) outcome \<times> 'w) option" where
  "AwaitQueryRunExecution cl api cfg qid grow backoff w =
     (case GetQueryRun cl api cfg qid w of
        (Ret qr, w1) \<Rightarrow>
          if final_state (State qr) then Some (Ret qr, w1)
          else (case Sleep cl backoff w1 of
                  (Some e, w2) \<Rightarrow> Some (Fail (ContextError e), w2)
                | (None, w2) \<Rightarrow> AwaitQueryRunExecution cl api cfg qid grow (grow backoff) w2)
      | (Fail e, w1) \<Rightarrow> Some (Fail e, w1)
      | (Panic, w1) \<Rightarrow> Some (Panic, w1))"

definition AwaitQueryRunSuccess ::
  "'w client \<Rightarrow> 'r json_api \<Rightarrow> config \<Rightarrow> string \<Rightarrow> (int \<Rightarrow> int) \<Rightarrow> int \<Rightarrow> 'w \<Rightarrow>
   ((rest_error, unit) outcome \<times> 'w) option" where
  "AwaitQueryRunSuccess cl api cfg qid grow backoff w =
     map_option (\<lambda>(r, w').
       (obind r (\<lambda>qr. if State qr \<noteq> ''QUERY_STATE_SUCCESS'' then Fail (Unsuccessful (State qr)) else Ret ()), w'))
       (AwaitQueryRunExecution cl api cfg qid grow backoff w)"

definition GetQueryRunResults ::
  "'w client \<Rightarrow> 'r json_api \<Rightarrow> config \<Rightarrow> string \<Rightarrow> int \<Rightarrow> 'w \<Rightarrow> (rest_error, 'r results) outcome \<times> 'w" where
  "GetQueryRunResults cl api cfg qid page =
     submitParamsAndParseResults cl api cfg (DecodeResults api) ''getQueryRunResults''
       [GetQueryRunResultsParams qid ''json'' page 100000]"

text \<open>The loop over the pages; every answer sets the number of pages anew.\<close>

partial_function (option) fetch_pages ::
  "'w client \<Rightarrow> 'r json_api \<Rightarrow> config \<Rightarrow> string \<Rightarrow> int \<Rightarrow> int \<Rightarrow> 'r results list \<Rightarrow> 'w \<Rightarrow>
   ((rest_error, 'r results list) outcome \<times> 'w) option" where
  "fetch_pages cl api cfg qid i numPages res w =
     (if i \<le> numPages
      then (case GetQueryRunResults cl api cfg qid i w of
              (Ret r, w') \<Rightarrow> fetch_pages cl api cfg qid (i + 1) (TotalPages r) (res @ [r]) w'
            | (Fail e, w') \<Rightarrow> Some (Fail e, w')
            | (Panic, w') \<Rightarrow> Some (Panic, w'))
      else Some (Ret res, w))"

definition FetchQueryResults ::
  "'w client \<Rightarrow> 'r json_api \<Rightarrow> config \<Rightarrow> string \<Rightarrow> (int \<Rightarrow> int) \<Rightarrow> 'w \<Rightarrow>
   ((rest_error, 'r results list) outcome \<times> 'w) option" where
  "FetchQueryResults cl api cfg qid grow w =
     (case AwaitQueryRunSuccess cl api cfg qid grow (10 ^ 9) w of
        None \<Rightarrow> None
      | Some (Ret _, w') \<Rightarrow> fetch_pages cl api cfg qid 1 1 [] w'
      | Some (Fail e, w') \<Rightarrow> Some (Fail e, w')
      | Some (Panic, w') \<Rightarrow> Some (Panic, w'))"

section \<open>Tenderly\<close>

definition tenderly_apiURL :: string where
  "tenderly_apiURL = ''https://api.tenderly.co''"

definition tenderly_NewFromSecret :: "'g secret_env \<Rightarrow> secret \<Rightarrow> (rest_error, config) outcome" where
  "tenderly_NewFromSecret env apiKey = NewFromSecret tenderly_apiURL env apiKey"

record fork_details =
  ChainConfig_ChainID :: string

record fork =
  ForkID :: string
  fork_Name :: string
  fork_Description :: string
  fork_NetworkID :: string
  fork_BlockNumber :: string
  Details :: fork_details
  Accounts :: "(bytes \<times> string) list"
  NodeURL :: string

record fork_params =
  ProjectSlug :: string
  ForkName :: string
  Description :: string
  NetworkID :: u64
  BlockNumber :: u64

text \<open>\<open>ForkBody\<close> is the JSON of the parameters; \<open>JoinPath\<close> is that of \<open>net/url\<close>.\<close>

record tenderly_api =
  ForkBody :: "fork_params \<Rightarrow> string + string"
  DecodeFork :: "string + string \<Rightarrow> string + fork"
  DecodeEmpty :: "string + string \<Rightarrow> string + unit"
  JoinPath :: "string \<Rightarrow> string list \<Rightarrow> string + string"

definition unmarshalResponse :: "(string + string \<Rightarrow> string + 'u) \<Rightarrow> string + string \<Rightarrow> (rest_error, 'u) outcome" where
  "unmarshalResponse decode b = (case decode b of Inl e \<Rightarrow> Fail (DecodeError e) | Inr r \<Rightarrow> Ret r)"

definition sendRequest ::
  "'w client \<Rightarrow> config \<Rightarrow> (string + string \<Rightarrow> string + 'u) \<Rightarrow> string \<Rightarrow> string \<Rightarrow> string + string \<Rightarrow> 'w \<Rightarrow>
   (rest_error, 'u) outcome \<times> 'w" where
  "sendRequest cl cfg decode meth path encoded =
     wbind (send cl [(''Content-Type'', ''application/json''), (''X-Access-Key'', APIKey cfg)] meth path encoded)
       (\<lambda>b w. (unmarshalResponse decode b, w))"

definition NewFork ::
  "'w client \<Rightarrow> tenderly_api \<Rightarrow> config \<Rightarrow> fork_params \<Rightarrow> 'w \<Rightarrow> (rest_error, fork) outcome \<times> 'w" where
  "NewFork cl api cfg p w =
     (case JoinPath api (APIURL cfg) [''/api/v2/project'', ProjectSlug p, ''forks''] of
        Inl e \<Rightarrow> (Fail (JoinError e), w)
      | Inr path \<Rightarrow> sendRequest cl cfg (DecodeFork api) ''POST'' path (ForkBody api p) w)"

definition DeleteFork ::
  "'w client \<Rightarrow> tenderly_api \<Rightarrow> config \<Rightarrow> string \<Rightarrow> string \<Rightarrow> 'w \<Rightarrow> (rest_error, unit) outcome \<times> 'w" where
  "DeleteFork cl api cfg projectSlug forkID w =
     (case JoinPath api (APIURL cfg) [''/api/v2/project'', projectSlug, ''forks'', forkID] of
        Inl e \<Rightarrow> (Fail (JoinError e), w)
      | Inr path \<Rightarrow> sendRequest cl cfg (DecodeEmpty api) ''DELETE'' path (Inr ''{}'') w)"

text \<open>The client, the clean-up function and the fork.\<close>

definition NewForkClient ::
  "'w client \<Rightarrow> tenderly_api \<Rightarrow> (string \<Rightarrow> string + 'n) \<Rightarrow> config \<Rightarrow> fork_params \<Rightarrow> 'w \<Rightarrow>
   (rest_error, 'n \<times> ('w \<Rightarrow> (rest_error, unit) outcome \<times> 'w) \<times> fork) outcome \<times> 'w" where
  "NewForkClient cl api dial cfg p =
     wbind (NewFork cl api cfg p) (\<lambda>fork w.
       (case dial (NodeURL fork) of
          Inl e \<Rightarrow> Fail (DialError e)
        | Inr n \<Rightarrow> Ret (n, DeleteFork cl api cfg (ProjectSlug p) (ForkID fork), fork), w))"

section \<open>Waiting\<close>

text \<open>
  A context that ends: the number of timers that can still fire before its end is finite. Every timer that
  fires decreases it, and no request increases it.
\<close>

definition bounded_waits :: "'w client \<Rightarrow> ('w \<Rightarrow> nat) \<Rightarrow> bool" where
  "bounded_waits cl left \<longleftrightarrow>
     (\<forall>r w. left (snd (Do cl r w)) \<le> left w) \<and> (\<forall>d w w'. Sleep cl d w = (None, w') \<longrightarrow> left w' < left w)"

lemma send_left: "bounded_waits cl left \<Longrightarrow> send cl hs meth addr enc w = (r, w') \<Longrightarrow> left w' \<le> left w"
  unfolding bounded_waits_def send_def by (auto split: sum.splits option.splits prod.splits) (metis snd_conv)+

lemma send_no_panic: "send cl hs meth addr enc w = (r, w') \<Longrightarrow> r \<noteq> Panic"
  unfolding send_def check_status_def by (auto split: sum.splits option.splits prod.splits if_splits)

lemma GetQueryRun_left:
  assumes "bounded_waits cl left" "GetQueryRun cl api cfg qid w = (r, w')"
  shows "left w' \<le> left w \<and> r \<noteq> Panic"
proof -
  obtain b w1 where s: "submitParams cl api cfg ''getQueryRun'' [GetQueryRunParams qid] w = (b, w1)"
    by (cases "submitParams cl api cfg ''getQueryRun'' [GetQueryRunParams qid] w")
  from s have "left w1 \<le> left w" "b \<noteq> Panic"
    unfolding submitParams_def submitRequest_def by (fact send_left [OF assms(1)], fact send_no_panic)
  then show ?thesis
    using assms(2) s
    by (auto simp: GetQueryRun_def submitParamsAndParseResults_def wbind_def parseResults_def
        split: outcome.splits sum.splits option.splits)
qed

lemma Await_returns:
  assumes b: "bounded_waits cl left"
  shows "\<exists>r w'. AwaitQueryRunExecution cl api cfg qid grow backoff w = Some (r, w') \<and> r \<noteq> Panic \<and>
    (\<forall>qr. r = Ret qr \<longrightarrow> final_state (State qr))"
proof (induction "left w" arbitrary: w backoff rule: less_induct)
  case less
  obtain r1 w1 where g: "GetQueryRun cl api cfg qid w = (r1, w1)" by (cases "GetQueryRun cl api cfg qid w")
  note left1 = GetQueryRun_left [OF b g]
  show ?case
  proof (cases r1)
    case (Ret qr)
    obtain e w2 where sl: "Sleep cl backoff w1 = (e, w2)" by (cases "Sleep cl backoff w1")
    have "left w2 < left w" if "e = None"
      using b sl that left1 unfolding bounded_waits_def by fastforce
    with less [of w2 "grow backoff"] show ?thesis
      by (subst AwaitQueryRunExecution.simps) (cases e; simp add: g Ret sl)
  next
    case (Fail e)
    then show ?thesis by (subst AwaitQueryRunExecution.simps) (simp add: g)
  next
    case Panic
    then show ?thesis using left1 by simp
  qed
qed

lemma fetch_pages_all:
  assumes "\<And>i w. 1 \<le> i \<Longrightarrow> i \<le> max 1 T \<Longrightarrow> fst (GetQueryRunResults cl api cfg qid i w) = Ret (page i)"
    and "\<And>i. 1 \<le> i \<Longrightarrow> TotalPages (page i) = T"
  shows "1 \<le> i \<Longrightarrow> n = (if i = 1 then 1 else T) \<Longrightarrow>
    \<exists>w'. fetch_pages cl api cfg qid i n res w = Some (Ret (res @ map page [i..max 1 T]), w')"
proof (induction "nat (max 1 T + 1 - i)" arbitrary: i n res w rule: less_induct)
  case less
  show ?case
  proof (cases "i \<le> n")
    case True
    then have i: "i \<le> max 1 T" using less.prems by (auto split: if_splits)
    obtain w1 where g: "GetQueryRunResults cl api cfg qid i w = (Ret (page i), w1)"
      using assms(1) [OF less.prems(1) i] by (metis prod.collapse)
    have "[i..max 1 T] = i # [i + 1..max 1 T]" using i by (rule upto_rec1)
    moreover obtain w2 where "fetch_pages cl api cfg qid (i + 1) T (res @ [page i]) w1 =
        Some (Ret ((res @ [page i]) @ map page [i + 1..max 1 T]), w2)"
      using less.hyps [of "i + 1" T "res @ [page i]" w1] less.prems(1) i by auto
    ultimately show ?thesis
      using True by (subst fetch_pages.simps) (simp add: g assms(2) [OF less.prems(1)])
  next
    case False
    then have "[i..max 1 T] = []" using less.prems by (auto split: if_splits)
    then show ?thesis using False by (subst fetch_pages.simps) simp
  qed
qed

section \<open>The requests that were sent\<close>

definition logged :: "'w client \<Rightarrow> ('w \<times> http_request list) client" where
  "logged cl =
     \<lparr>BadRequest = BadRequest cl,
      Do = (\<lambda>r (w, log). case Do cl r w of (resp, w') \<Rightarrow> (resp, w', log @ [r])),
      Sleep = (\<lambda>d (w, log). case Sleep cl d w of (e, w') \<Rightarrow> (e, w', log))\<rparr>"

lemma send_logged:
  "send (logged cl) hs meth addr enc (w, log) = (r, w', log') \<Longrightarrow>
     log' = log \<and> (\<forall>b. r \<noteq> Ret b) \<or>
     (\<exists>c. enc = Inr c \<and> log' = log @ [\<lparr>http_method = meth, url = addr, headers = hs, content = c\<rparr>])"
  unfolding send_def logged_def by (auto split: sum.splits option.splits prod.splits)

lemma send_not_DialError: "send cl hs meth addr enc w \<noteq> (Fail (DialError e), w')"
  unfolding send_def check_status_def by (auto split: sum.splits option.splits prod.splits)

lemma NewFork_not_DialError: "NewFork cl api cfg p w \<noteq> (Fail (DialError e), w')"
  unfolding NewFork_def sendRequest_def wbind_def unmarshalResponse_def
  by (auto simp: send_not_DialError split: sum.splits prod.splits outcome.splits)

section \<open>Properties\<close>

text \<open>With a context that ends, waiting for a query run always returns: with an error, or with a run in one
  of the three final states. Waiting for success returns without error exactly if that state is success.\<close>

theorem AwaitQueryRun_terminates:
  assumes "bounded_waits cl left"
  shows "\<exists>r w'. AwaitQueryRunExecution cl api cfg qid grow backoff w = Some (r, w') \<and> r \<noteq> Panic \<and>
    (\<forall>qr. r = Ret qr \<longrightarrow> final_state (State qr)) \<and>
    (AwaitQueryRunSuccess cl api cfg qid grow backoff w = Some (Ret (), w') \<longleftrightarrow>
       (\<exists>qr. r = Ret qr \<and> State qr = ''QUERY_STATE_SUCCESS''))"
proof -
  from Await_returns [OF assms, of api cfg qid grow backoff w] obtain r w'
    where r: "AwaitQueryRunExecution cl api cfg qid grow backoff w = Some (r, w')" "r \<noteq> Panic"
      "\<forall>qr. r = Ret qr \<longrightarrow> final_state (State qr)" by blast
  then show ?thesis by (intro exI [of _ r] exI [of _ w']) (cases r; simp add: AwaitQueryRunSuccess_def)
qed

text \<open>A run that succeeds after two more polls; every page has one row, its number.\<close>

definition demo_client :: "nat client" where
  "demo_client =
     \<lparr>BadRequest = (\<lambda>m u. None),
      Do = (\<lambda>r w. (Inr \<lparr>StatusCode = 200, resp_body = Inr (if content r = ''run'' then replicate w (CHR ''.'') else content r)\<rparr>, w)),
      Sleep = (\<lambda>d w. if w = 0 then (Some ''deadline'', 0) else (None, w - 1))\<rparr>"

definition demo_run :: "string \<Rightarrow> query_run" where
  "demo_run st =
     \<lparr>run_id = ''q'', run_SQLStatementID = [], State = st, run_Path = [], FileCount = 0, LastFileNumber = None, FileNames = [],
      ErrorName = [], ErrorMessage = [], ErrorData = [], DataSourceQueryID = [], DataSourceSessionID = [], run_StartedAt = 0,
      QueryRunningEndedAt = 0, QueryStreamingEndedAt = 0, run_EndedAt = 0, RowCount = 0, TotalSize = [], run_Tags = [],
      DataSourceID = [], run_UserID = [], run_CreatedAt = 0, run_UpdatedAt = 0, ArchivedAt = 0\<rparr>"

lemma demo_run_State [simp]: "State (demo_run st) = st"
  by (simp add: demo_run_def)

definition demo_api :: "nat json_api" where
  "demo_api =
     \<lparr>Encode = (\<lambda>r. case Params r of
         [GetQueryRunResultsParams q f n s] \<Rightarrow> Inr (replicate (nat n) (CHR ''p''))
       | _ \<Rightarrow> Inr ''run''),
      DecodeCreated = (\<lambda>b. Inl ''unused''),
      DecodeRun = (\<lambda>b. Inr \<lparr>Result =
         demo_run (if b = Inr [] then ''QUERY_STATE_SUCCESS'' else ''QUERY_STATE_RUNNING''), RpcError = None\<rparr>),
      DecodeResults = (\<lambda>b. Inr \<lparr>Result = \<lparr>Rows = [case b of Inl e \<Rightarrow> 0 | Inr t \<Rightarrow> length t], TotalPages = 3\<rparr>, RpcError = None\<rparr>)\<rparr>"

definition demo_config :: config where
  "demo_config = \<lparr>APIKey = ''key'', APIURL = flipside_apiURL\<rparr>"

lemmas demo_simps = demo_client_def demo_api_def send_def check_status_def submitRequest_def submitParams_def
  parseResults_def submitParamsAndParseResults_def GetQueryRun_def GetQueryRunResults_def wbind_def

theorem AwaitQueryRun_terminates_witness:
  "\<exists>r w'. AwaitQueryRunExecution demo_client demo_api demo_config ''q'' (\<lambda>b. 2 * b) 1 2 = Some (r, w') \<and> r \<noteq> Panic"
proof -
  have "bounded_waits demo_client (\<lambda>w. w)"
    by (auto simp: bounded_waits_def demo_client_def split: if_splits)
  from AwaitQueryRun_terminates [OF this, of demo_api demo_config "''q''" "\<lambda>b. 2 * b" 1 2]
  show ?thesis by blast
qed

text \<open>When the run succeeds and the service answers every request for a page with that page and one and the
  same total, the fetched results are all pages, in order, each exactly once; without pages, the first page alone.\<close>

theorem FetchQueryResults_complete:
  assumes "AwaitQueryRunSuccess cl api cfg qid grow (10 ^ 9) w = Some (Ret (), w0)"
    and "\<And>i w. 1 \<le> i \<Longrightarrow> i \<le> max 1 T \<Longrightarrow> fst (GetQueryRunResults cl api cfg qid i w) = Ret (page i)"
    and "\<And>i. 1 \<le> i \<Longrightarrow> TotalPages (page i) = T"
  shows "\<exists>w'. FetchQueryResults cl api cfg qid grow w = Some (Ret (map page [1..max 1 T]), w')"
  unfolding FetchQueryResults_def assms(1)
  using fetch_pages_all [OF assms(2,3), where i = 1 and n = 1 and res = "[]" and w = w0] by simp

theorem FetchQueryResults_complete_witness:
  "\<exists>w'. FetchQueryResults demo_client demo_api demo_config ''q'' (\<lambda>b. 2 * b) 2 =
     Some (Ret [\<lparr>Rows = [1], TotalPages = 3\<rparr>, \<lparr>Rows = [2], TotalPages = 3\<rparr>, \<lparr>Rows = [3], TotalPages = 3\<rparr>], w')"
proof -
  have "AwaitQueryRunSuccess demo_client demo_api demo_config ''q'' (\<lambda>b. 2 * b) (10 ^ 9) 2 = Some (Ret (), 0)"
    by (simp add: AwaitQueryRunSuccess_def AwaitQueryRunExecution.simps demo_simps final_state_def numeral_2_eq_2)
  moreover have "fst (GetQueryRunResults demo_client demo_api demo_config ''q'' i w) = Ret \<lparr>Rows = [nat i], TotalPages = 3\<rparr>"
    if "1 \<le> i" "i \<le> max 1 3" for i w
  proof -
    have "i = 1 \<or> i = 2 \<or> i = 3" using that by auto
    then show ?thesis by (auto simp: demo_simps numeral_eq_Suc)
  qed
  ultimately obtain w' where "FetchQueryResults demo_client demo_api demo_config ''q'' (\<lambda>b. 2 * b) 2 =
      Some (Ret (map (\<lambda>i. \<lparr>Rows = [nat i], TotalPages = 3\<rparr>) [1..max 1 3]), w')"
    by (rule FetchQueryResults_complete [where T = 3, THEN exE]) auto
  then show ?thesis by (simp add: upto.simps)
qed

text \<open>A fork client comes with a clean-up function: creating it sends one POST, and a clean-up that succeeds
  sends exactly one DELETE, for the fork that was created. When dialling the new fork fails, nothing but the
  POST was sent: the fork is left behind, and the caller has no clean-up function for it.\<close>

theorem NewForkClient_requests:
  assumes "NewForkClient (logged cl) api dial cfg p (w, log) = (r, w', log')"
  shows "(\<forall>n cleanup f. r = Ret (n, cleanup, f) \<longrightarrow>
      dial (NodeURL f) = Inr n \<and> map http_method log' = map http_method log @ [''POST''] \<and>
      (\<forall>w1 log1 w2 log2. cleanup (w1, log1) = (Ret (), w2, log2) \<longrightarrow>
        (\<exists>path hs b. JoinPath api (APIURL cfg) [''/api/v2/project'', ProjectSlug p, ''forks'', ForkID f] = Inr path \<and>
           log2 = log1 @ [\<lparr>http_method = ''DELETE'', url = path, headers = hs, content = b\<rparr>]))) \<and>
    (\<forall>e. r = Fail (DialError e) \<longrightarrow> map http_method log' = map http_method log @ [''POST''])"
proof -
  have post: "map http_method log1 = map http_method log @ [''POST'']"
    if "NewFork (logged cl) api cfg p (w, log) = (Ret f, w1, log1)" for f w1 log1
    using that send_logged [of cl _ _ _ _ w log]
    by (fastforce simp: NewFork_def sendRequest_def wbind_def split: sum.splits prod.splits outcome.splits)
  have del: "\<exists>path hs b. JoinPath api (APIURL cfg) [''/api/v2/project'', ProjectSlug p, ''forks'', ForkID f] = Inr path \<and>
      log2 = log1 @ [\<lparr>http_method = ''DELETE'', url = path, headers = hs, content = b\<rparr>]"
    if "DeleteFork (logged cl) api cfg (ProjectSlug p) (ForkID f) (w1, log1) = (Ret (), w2, log2)" for f w1 log1 w2 log2
    using that send_logged [of cl _ _ _ _ w1 log1]
    by (fastforce simp: DeleteFork_def sendRequest_def wbind_def split: sum.splits prod.splits outcome.splits)
  show ?thesis
    using assms post del
    by (auto simp: NewForkClient_def wbind_def NewFork_not_DialError split: sum.splits prod.splits outcome.splits)
qed

definition demo_tenderly :: tenderly_api where
  "demo_tenderly =
     \<lparr>ForkBody = (\<lambda>p. Inr (ForkName p)), DecodeFork = (\<lambda>b. Inr \<lparr>ForkID = ''f'', fork_Name = ''n'', fork_Description = [], fork_NetworkID = ''1'', fork_BlockNumber = ''2'',
        Details = \<lparr>ChainConfig_ChainID = ''1''\<rparr>, Accounts = [], NodeURL = ''u''\<rparr>),
      DecodeEmpty = (\<lambda>b. Inr ()), JoinPath = (\<lambda>b ps. Inr (b @ concat ps))\<rparr>"

definition demo_params :: fork_params where
  "demo_params = \<lparr>ProjectSlug = ''p'', ForkName = ''n'', Description = [], NetworkID = 1, BlockNumber = 2\<rparr>"

theorem NewForkClient_requests_witness:
  "\<exists>log. NewForkClient (logged demo_client) demo_tenderly (\<lambda>u. Inl ''down'' :: string + unit) demo_config demo_params (0, []) =
       (Fail (DialError ''down''), 0, log) \<and> map http_method log = [''POST'']"
proof -
  have "\<exists>log. NewForkClient (logged demo_client) demo_tenderly (\<lambda>u. Inl ''down'' :: string + unit) demo_config demo_params (0, []) =
      (Fail (DialError ''down''), 0, log)"
    by (simp add: NewForkClient_def NewFork_def sendRequest_def unmarshalResponse_def logged_def demo_tenderly_def demo_simps)
  then obtain log where run: "NewForkClient (logged demo_client) demo_tenderly (\<lambda>u. Inl ''down'' :: string + unit)
      demo_config demo_params (0, []) = (Fail (DialError ''down''), 0, log)" ..
  from NewForkClient_requests [OF this] run show ?thesis by simp
qed

end
