(* ===== verification/OauthSrc.thy ===== *)
theory OauthSrc
  imports RestApis
begin

text \<open>
  The source of OAuth2 tokens (\<open>go/oauthsrc/oauthsrc.go\<close>). The value that JSON is decoded into is the one that
  was given to \<open>NewHTTP\<close>: reflection returns the same pointer. It is therefore part of the state that
  successive calls of \<open>Token\<close> pass on. Decoding writes the fields that occur in the JSON text.
\<close>

section \<open>The token source\<close>

record 't http_source =
  src_method :: string
  tokenURL :: string
  src_body :: string
  empty :: 't

datatype token_error =
    TokenRequest string
  | TokenDo string
  | TokenStatus int string
  | TokenDecode string

definition NewHTTP :: "string \<Rightarrow> string \<Rightarrow> string \<Rightarrow> 't \<Rightarrow> 't http_source" where
  "NewHTTP meth addr b emptyJSONToken = \<lparr>src_method = meth, tokenURL = addr, src_body = b, empty = emptyJSONToken\<rparr>"

text \<open>The decoder returns its error, if any, and what the value has become.\<close>

definition Token ::
  "'w client \<Rightarrow> (string + string \<Rightarrow> 't \<Rightarrow> string option \<times> 't) \<Rightarrow> ('t \<Rightarrow> 'o) \<Rightarrow> 't http_source \<times> 'w \<Rightarrow>
   (string \<times> token_error, 'o) outcome \<times> 't http_source \<times> 'w" where
  "Token cl decode asToken s =
     (case s of (src, w) \<Rightarrow>
        case BadRequest cl (src_method src) (tokenURL src) of
          Some e \<Rightarrow> (Fail (tokenURL src, TokenRequest e), src, w)
        | None \<Rightarrow>
            (case Do cl \<lparr>http_method = src_method src, url = tokenURL src, headers = [], content = src_body src\<rparr> w of
               (Inl e, w') \<Rightarrow> (Fail (tokenURL src, TokenDo e), src, w')
             | (Inr resp, w') \<Rightarrow>
                 if StatusCode resp \<noteq> 200
                 then (Fail (tokenURL src, TokenStatus (StatusCode resp)
                         (case resp_body resp of Inl e \<Rightarrow> ''[error reading response body: '' @ e @ '']'' | Inr b \<Rightarrow> b)), src, w')
                 else (case decode (resp_body resp) (empty src) of
                         (Some e, t) \<Rightarrow> (Fail (tokenURL src, TokenDecode e), src\<lparr>empty := t\<rparr>, w')
                       | (None, t) \<Rightarrow> (Ret (asToken t), src\<lparr>empty := t\<rparr>, w'))))"

section \<open>Properties\<close>

text \<open>
  The fields of a JSON object written over those of a value, as association lists; fields that the text
  does not mention keep their value.
\<close>

definition merge_fields :: "(string \<times> string) list \<Rightarrow> (string \<rightharpoonup> string) \<Rightarrow> (string \<rightharpoonup> string)" where
  "merge_fields js t = t ++ map_of js"

text \<open>The decoding of \<open>encoding/json\<close> into a struct with text fields.\<close>

definition struct_decoder ::
  "(string \<Rightarrow> (string \<times> string) list option) \<Rightarrow> (string + string \<Rightarrow> (string \<rightharpoonup> string) \<Rightarrow> string option \<times> (string \<rightharpoonup> string)) \<Rightarrow> bool" where
  "struct_decoder parse decode \<longleftrightarrow>
     (\<forall>b js t. parse b = Some js \<longrightarrow> decode (Inr b) t = (None, merge_fields js t))"

text \<open>A token is not always decoded into a new value: after a second successful call, every field that the second
  response does not mention still has the value of the first response.\<close>

theorem Token_keeps_stale_fields:
  assumes "struct_decoder parse decode" and "BadRequest cl (src_method src) (tokenURL src) = None"
    and "Do cl \<lparr>http_method = src_method src, url = tokenURL src, headers = [], content = src_body src\<rparr> w =
           (Inr \<lparr>StatusCode = 200, resp_body = Inr b1\<rparr>, w1)" and "parse b1 = Some js1"
    and "Do cl \<lparr>http_method = src_method src, url = tokenURL src, headers = [], content = src_body src\<rparr> w1 =
           (Inr \<lparr>StatusCode = 200, resp_body = Inr b2\<rparr>, w2)" and "parse b2 = Some js2"
  shows "\<exists>t. fst (Token cl decode id (snd (Token cl decode id (src, w)))) = Ret t \<and>
    (\<forall>k. t k = (if map_of js2 k \<noteq> None then map_of js2 k
                else if map_of js1 k \<noteq> None then map_of js1 k else empty src k))"
proof -
  have "decode (Inr b1) t = (None, merge_fields js1 t)" "decode (Inr b2) t = (None, merge_fields js2 t)" for t
    using assms(1,4,6) by (simp_all add: struct_decoder_def)
  then show ?thesis
    using assms(2,3,5) by (auto simp: Token_def merge_fields_def map_add_def split: option.splits)
qed

definition oauth_client :: "nat client" where
  "oauth_client =
     \<lparr>BadRequest = (\<lambda>m u. None),
      Do = (\<lambda>r w. (Inr \<lparr>StatusCode = 200, resp_body = Inr (if w = 0 then ''first'' else ''second'')\<rparr>, w + 1)),
      Sleep = (\<lambda>d w. (None, w))\<rparr>"

definition oauth_parse :: "string \<Rightarrow> (string \<times> string) list option" where
  "oauth_parse b = Some (if b = ''first'' then [(''access'', ''a1''), (''refresh'', ''r1'')] else [(''access'', ''a2'')])"

definition oauth_decode :: "string + string \<Rightarrow> (string \<rightharpoonup> string) \<Rightarrow> string option \<times> (string \<rightharpoonup> string)" where
  "oauth_decode b t =
     (case b of Inl e \<Rightarrow> (Some e, t) | Inr s \<Rightarrow> (None, merge_fields (the (oauth_parse s)) t))"

theorem Token_keeps_stale_fields_witness:
  "\<exists>t. fst (Token oauth_client oauth_decode id (snd (Token oauth_client oauth_decode id (NewHTTP ''POST'' ''u'' [] Map.empty, 0)))) = Ret t \<and>
     t ''access'' = Some ''a2'' \<and> t ''refresh'' = Some ''r1''"
proof -
  have "struct_decoder oauth_parse oauth_decode" by (simp add: struct_decoder_def oauth_decode_def)
  then have "\<exists>t. fst (Token oauth_client oauth_decode id (snd (Token oauth_client oauth_decode id (NewHTTP ''POST'' ''u'' [] Map.empty, 0)))) = Ret t \<and>
      (\<forall>k. t k = (if map_of [(''access'', ''a2'')] k \<noteq> None then map_of [(''access'', ''a2'')] k
         else if map_of [(''access'', ''a1''), (''refresh'', ''r1'')] k \<noteq> None then map_of [(''access'', ''a1''), (''refresh'', ''r1'')] k
         else empty (NewHTTP ''POST'' ''u'' [] Map.empty) k))"
    by (rule Token_keeps_stale_fields [where ?b1.0 = "''first''" and ?w1.0 = 1 and ?b2.0 = "''second''" and ?w2.0 = 2])
       (simp_all add: oauth_client_def oauth_parse_def)
  then show ?thesis by force
qed

end
