(* ===== verification/EthKms.thy ===== *)
theory EthKms
  imports EthProto
begin

text \<open>
  Transactions signed by a cloud key (\<open>go/ethkms\<close>). The key management service, ASN.1 and PEM
  decoding, the curve and go-ethereum's transactions are arguments; a transaction is abstract.
\<close>

section \<open>The packages\<close>

record ('c, 't) kms_api =
  NewClient :: "string + 'c"
  GetPublicKey :: "'c \<Rightarrow> string \<Rightarrow> string + bool \<times> string"
  pem_Decode :: "string \<Rightarrow> bytes option"
  unmarshal_key :: "bytes \<Rightarrow> string + nat list \<times> bytes \<times> nat"
  elliptic_Unmarshal :: "bytes \<Rightarrow> int \<times> int"
  AsymmetricSign :: "'c \<Rightarrow> string \<Rightarrow> bytes \<Rightarrow> string + bytes"
  unmarshal_sig :: "bytes \<Rightarrow> string + (int \<times> int) \<times> nat"
  pubkey_address :: "int \<times> int \<Rightarrow> bytes"
  tx_hash :: "'t \<Rightarrow> bytes"
  WithSignature :: "'t \<Rightarrow> bytes \<Rightarrow> string + 't"
  Sender :: "'t \<Rightarrow> string + bytes"
  group_order :: int

datatype kms_error =
    NewKeyManagementClient string
  | GetPublicKeyError string
  | WrongAlgorithm
  | PemDecode
  | KeyUnmarshal nat
  | NotECDSA
  | SignCall string
  | SigUnmarshal nat
  | WithSignatureError string
  | SenderError string
  | WrongSender bytes

record 'c gcp_signer =
  client :: 'c
  keyID :: string
  pubKey :: "int \<times> int"

definition oidECDSAPubKey :: "nat list" where
  "oidECDSAPubKey = [1, 2, 840, 10045, 2, 1]"

definition curveOrder :: "('c, 't) kms_api \<Rightarrow> int" where
  "curveOrder api = group_order api"

definition NewGCP :: "('c, 't) kms_api \<Rightarrow> string \<Rightarrow> (kms_error, 'c gcp_signer) outcome" where
  "NewGCP api k =
     (case NewClient api of
        Inl e \<Rightarrow> Fail (NewKeyManagementClient e)
      | Inr c \<Rightarrow>
          (case GetPublicKey api c k of
             Inl e \<Rightarrow> Fail (GetPublicKeyError e)
           | Inr (secp256k1, pem) \<Rightarrow>
               if \<not> secp256k1 then Fail WrongAlgorithm
               else (case pem_Decode api pem of
                       None \<Rightarrow> Fail PemDecode
                     | Some block \<Rightarrow>
                         (case unmarshal_key api block of
                            Inl e \<Rightarrow> Fail (KeyUnmarshal 0)
                          | Inr (oid, key, leftover) \<Rightarrow>
                              if 0 < leftover then Fail (KeyUnmarshal leftover)
                              else if oid \<noteq> oidECDSAPubKey then Fail NotECDSA
                              else Ret \<lparr>client = c, keyID = k, pubKey = elliptic_Unmarshal api key\<rparr>))))"

definition gcp_Address :: "('c, 't) kms_api \<Rightarrow> 'c gcp_signer \<Rightarrow> bytes" where
  "gcp_Address api g = pubkey_address api (pubKey g)"

definition gcp_Close :: "('c \<Rightarrow> string option) \<Rightarrow> 'c gcp_signer \<Rightarrow> string option" where
  "gcp_Close close_client g = close_client (client g)"

section \<open>Signing\<close>

text \<open>The half of the curve that EIP-2 allows; \<open>Rsh\<close> by one is division by two.\<close>

definition low_s :: "('c, 't) kms_api \<Rightarrow> int \<Rightarrow> int" where
  "low_s api s = (if curveOrder api div 2 < s then curveOrder api - s else s)"

text \<open>\<open>copy\<close> puts the minimal bytes of each number at the front of its 32 bytes.\<close>

definition signature_bytes :: "int \<Rightarrow> int \<Rightarrow> u8 \<Rightarrow> bytes" where
  "signature_bytes r s v = left_aligned 32 (big_bytes (nat \<bar>r\<bar>)) @ left_aligned 32 (big_bytes (nat \<bar>s\<bar>)) @ [v]"

fun try_parities :: "('c, 't) kms_api \<Rightarrow> bytes \<Rightarrow> 't \<Rightarrow> int \<Rightarrow> int \<Rightarrow> u8 list \<Rightarrow> (kms_error, 't) outcome" where
  "try_parities api addr tx r s [] = Fail (WrongSender addr)"
| "try_parities api addr tx r s (v # vs) =
     (case WithSignature api tx (signature_bytes r s v) of
        Inl e \<Rightarrow> Fail (WithSignatureError e)
      | Inr stx \<Rightarrow>
          (case Sender api stx of
             Inl e \<Rightarrow> Fail (SenderError e)
           | Inr sender \<Rightarrow> if sender = addr then Ret stx else try_parities api addr tx r s vs))"

definition SignTx :: "('c, 't) kms_api \<Rightarrow> 'c gcp_signer \<Rightarrow> 't \<Rightarrow> (kms_error, 't) outcome" where
  "SignTx api g tx =
     (case AsymmetricSign api (client g) (keyID g) (tx_hash api tx) of
        Inl e \<Rightarrow> Fail (SignCall e)
      | Inr resp \<Rightarrow>
          (case unmarshal_sig api resp of
             Inl e \<Rightarrow> Fail (SigUnmarshal 0)
           | Inr ((r, s), leftover) \<Rightarrow>
               if 0 < leftover then Fail (SigUnmarshal leftover)
               else try_parities api (gcp_Address api g) tx r (low_s api s) [0, 1]))"

section \<open>Facts\<close>

text \<open>The loop over the two parities.\<close>

lemma try_parities_01:
  assumes "try_parities api addr tx r s [0, 1] = Ret stx"
  shows "\<exists>v. WithSignature api tx (signature_bytes r s v) = Inr stx \<and> Sender api stx = Inr addr \<and>
    (v = 0 \<or> v = 1 \<and> (\<exists>other a. WithSignature api tx (signature_bytes r s 0) = Inr other \<and> Sender api other = Inr a \<and> a \<noteq> addr))"
  using assms by (auto split: sum.splits if_splits)

lemma right_aligned_big_bytes: "n < 256 ^ k \<Longrightarrow> right_aligned k (big_bytes n) = be_bytes k n"
proof -
  assume n: "n < 256 ^ k"
  then have len: "length (big_bytes n) \<le> k" by (simp add: length_big_bytes)
  have "SetBytes (replicate m 0 @ b) = SetBytes b" for m b
    by (induction m) (simp_all add: SetBytes_def)
  then have "SetBytes (right_aligned k (big_bytes n)) = n" using len by (simp add: right_aligned_def)
  then show ?thesis using be_bytes_SetBytes [of "right_aligned k (big_bytes n)"] by simp
qed

lemma big_bytes_zeros: "set (big_bytes n) \<subseteq> {0} \<longleftrightarrow> n = 0"
proof
  assume "set (big_bytes n) \<subseteq> {0}"
  then have "big_bytes n = replicate (length (big_bytes n)) 0" by (rule zeros_replicate)
  moreover have "SetBytes (replicate m 0) = 0" for m by (induction m) (simp_all add: SetBytes_def)
  ultimately show "n = 0" by (metis SetBytes_big_bytes)
qed simp

text \<open>Numbers of up to 256 bits that have the 32-byte big-endian form at the front.\<close>

lemma left_aligned_32:
  assumes "n < 2 ^ 256"
  shows "left_aligned 32 (big_bytes n) = be_bytes 32 n \<longleftrightarrow> n = 0 \<or> 2 ^ 248 \<le> n"
proof -
  have n: "n < 256 ^ 32" using assms by simp
  then have len: "length (big_bytes n) \<le> 32" by (simp add: length_big_bytes)
  have "left_aligned 32 (big_bytes n) = be_bytes 32 n \<longleftrightarrow> length (big_bytes n) = 32 \<or> n = 0"
    using alignments_agree [OF len] right_aligned_big_bytes [OF n] by (simp add: big_bytes_zeros)
  moreover have "length (big_bytes n) = 32 \<longleftrightarrow> \<not> length (big_bytes n) \<le> 31" using len by auto
  moreover have "length (big_bytes n) \<le> 31 \<longleftrightarrow> n < 256 ^ 31" by (simp add: length_big_bytes)
  ultimately show ?thesis by auto
qed

text \<open>The number that is used is one of the two that sign the message, and the lower one.\<close>

lemma low_s_cases:
  "low_s api s \<in> {s, curveOrder api - s} \<and> 2 * low_s api s \<le> curveOrder api \<and>
   (0 \<le> s \<and> s \<le> curveOrder api \<longrightarrow> 0 \<le> low_s api s)"
  by (auto simp: low_s_def)

section \<open>Properties\<close>

text \<open>
  C13. Soundness of cloud signatures: a transaction that \<open>SignTx\<close> returns comes from the answer (r, s) of the service for
  the hash of the given transaction. It is that transaction with the signature of r, of s or its complement in the group, whichever is in
  the lower half as EIP-2 demands, and of a parity, 0 or 1; and its recovered sender is the key's own address. Parity 1 is used only when
  parity 0 recovers another sender.
\<close>

theorem SignTx_sound:
  assumes "SignTx api g tx = Ret stx"
  shows "\<exists>resp r s s' v.
     AsymmetricSign api (client g) (keyID g) (tx_hash api tx) = Inr resp \<and> unmarshal_sig api resp = Inr ((r, s), 0) \<and>
     s' \<in> {s, curveOrder api - s} \<and> 2 * s' \<le> curveOrder api \<and> (0 \<le> s \<and> s \<le> curveOrder api \<longrightarrow> 0 \<le> s') \<and>
     WithSignature api tx (signature_bytes r s' v) = Inr stx \<and> Sender api stx = Inr (gcp_Address api g) \<and>
     (v = 0 \<or> v = 1 \<and> (\<exists>other a. WithSignature api tx (signature_bytes r s' 0) = Inr other \<and>
                            Sender api other = Inr a \<and> a \<noteq> gcp_Address api g))"
proof -
  obtain resp r s where answer: "AsymmetricSign api (client g) (keyID g) (tx_hash api tx) = Inr resp"
      "unmarshal_sig api resp = Inr ((r, s), 0)"
    and run: "try_parities api (gcp_Address api g) tx r (low_s api s) [0, 1] = Ret stx"
    using assms by (auto simp: SignTx_def split: sum.splits prod.splits if_splits)
  obtain v where v: "WithSignature api tx (signature_bytes r (low_s api s) v) = Inr stx"
      "Sender api stx = Inr (gcp_Address api g)"
      "v = 0 \<or> v = 1 \<and> (\<exists>other a. WithSignature api tx (signature_bytes r (low_s api s) 0) = Inr other \<and>
                            Sender api other = Inr a \<and> a \<noteq> gcp_Address api g)"
    using try_parities_01 [OF run] by blast
  show ?thesis
    using low_s_cases [of api s] answer v
    by (intro exI [of _ resp] exI [of _ r] exI [of _ s] exI [of _ "low_s api s"] exI [of _ v] conjI) simp_all
qed

text \<open>
  C24. The layout of the signature: it has 65 bytes, of which the first 32 are the 32-byte big-endian form of R exactly when R is 0 or at least
  2^248, so has no leading zero byte; the next 32 likewise for S; the last is the parity. A smaller non-zero number is aligned at the wrong end, so that the
  bytes are those of another number.
\<close>

theorem signature_layout:
  assumes "0 \<le> r" and "r < 2 ^ 256" and "0 \<le> s" and "s < 2 ^ 256"
  shows "length (signature_bytes r s v) = 65 \<and>
    (take 32 (signature_bytes r s v) = be_bytes 32 (nat r) \<longleftrightarrow> r = 0 \<or> 2 ^ 248 \<le> r) \<and>
    (take 32 (drop 32 (signature_bytes r s v)) = be_bytes 32 (nat s) \<longleftrightarrow> s = 0 \<or> 2 ^ 248 \<le> s) \<and>
    drop 64 (signature_bytes r s v) = [v]"
proof -
  have halves: "take 32 (signature_bytes r s v) = left_aligned 32 (big_bytes (nat r))"
    "take 32 (drop 32 (signature_bytes r s v)) = left_aligned 32 (big_bytes (nat s))"
    using assms(1,3) by (simp_all add: signature_bytes_def)
  have "left_aligned 32 (big_bytes (nat x)) = be_bytes 32 (nat x) \<longleftrightarrow> x = 0 \<or> 2 ^ 248 \<le> x"
    if "0 \<le> x" "x < 2 ^ 256" for x :: int
    using left_aligned_32 [of "nat x"] that by (auto simp: nat_less_iff le_nat_iff)
  then show ?thesis unfolding halves using assms by (simp add: signature_bytes_def)
qed

theorem signature_layout_witness:
  "take 32 (signature_bytes 1 (2 ^ 255) 0) \<noteq> be_bytes 32 1 \<and>
   take 32 (drop 32 (signature_bytes 1 (2 ^ 255) 0)) = be_bytes 32 (nat (2 ^ 255))"
  using signature_layout [of 1 "2 ^ 255" 0] by simp

definition toy_kms :: "(unit, nat) kms_api" where
  "toy_kms = \<lparr>NewClient = Inr (), GetPublicKey = (\<lambda>_ _. Inr (True, [])), pem_Decode = (\<lambda>_. Some []),
     unmarshal_key = (\<lambda>_. Inr (oidECDSAPubKey, [], 0)), elliptic_Unmarshal = (\<lambda>_. (3, 4)),
     AsymmetricSign = (\<lambda>_ _ _. Inr []), unmarshal_sig = (\<lambda>_. Inr ((5, 90), 0)), pubkey_address = (\<lambda>_. [7]),
     tx_hash = (\<lambda>_. []), WithSignature = (\<lambda>t sg. Inr (t + unat (last sg))), Sender = (\<lambda>t. Inr [of_nat t]), group_order = 101\<rparr>"

theorem SignTx_sound_witness:
  "SignTx toy_kms \<lparr>client = (), keyID = [], pubKey = (3, 4)\<rparr> 6 = Ret 7 \<and>
   (\<exists>s' v. s' \<in> {90, 11} \<and> 2 * s' \<le> 101 \<and> WithSignature toy_kms 6 (signature_bytes 5 s' v) = Inr 7 \<and> Sender toy_kms 7 = Inr [7])"
proof -
  have s: "SignTx toy_kms \<lparr>client = (), keyID = [], pubKey = (3, 4)\<rparr> 6 = Ret 7"
    by (simp add: SignTx_def toy_kms_def signature_bytes_def gcp_Address_def)
  have answer: "AsymmetricSign toy_kms x y z = Inr []" "unmarshal_sig toy_kms [] = Inr ((5, 90), 0)"
    "curveOrder toy_kms = 101" "gcp_Address toy_kms g = [7]" for x y z g
    by (simp_all add: toy_kms_def curveOrder_def gcp_Address_def)
  show ?thesis using SignTx_sound [OF s] s by (auto simp: answer)
qed

end
