(* ===== verification/EthBlocks.thy ===== *)
theory EthBlocks
  imports GoText
begin

text \<open>
  Ethereum helpers (\<open>go/eth/eth.go\<close>, \<open>converters.go\<close>): the binary search for the last block by a
  time, the reading of address lists, the seed of a hash, and amounts in Wei. The node is a
  function from block numbers to blocks or errors. \<open>int\<close> is 64 bits wide.
\<close>

unbundle bit_operations_syntax

section \<open>sort.Search\<close>

text \<open>
  The standard library's binary search, with a predicate that keeps a state and may stop the
  search with an error (the code panics and recovers). Indices are those of a slice, so
  \<open>i + j\<close> does not overflow an unsigned word.
\<close>

function search_loop ::
  "(int \<Rightarrow> 's \<Rightarrow> ('e, bool \<times> 's) outcome) \<Rightarrow> int \<Rightarrow> int \<Rightarrow> 's \<Rightarrow> ('e, int \<times> 's) outcome" where
  "search_loop f i j s =
     (if i < j
      then let h = (i + j) div 2 in
           obind (f h s) (\<lambda>(b, s'). if b then search_loop f i h s' else search_loop f (h + 1) j s')
      else Ret (i, s))"
  by pat_completeness auto
termination
  by (relation "measure (\<lambda>(f, i, j, s). nat (j - i))") auto

declare search_loop.simps [simp del]

definition sort_Search :: "int \<Rightarrow> (int \<Rightarrow> 's \<Rightarrow> ('e, bool \<times> 's) outcome) \<Rightarrow> 's \<Rightarrow> ('e, int \<times> 's) outcome" where
  "sort_Search n f s = search_loop f 0 n s"

section \<open>LastBlockBy\<close>

record block =
  number :: u64
  btime :: u64

record BlockRange =
  First :: u64
  Last :: u64

datatype block_error =
    BlockNumberError string
  | TooLarge u64
  | BlockByNumberError int string
  | ErrBlockNotFound
  | BrokenInvariant

definition probe ::
  "(int \<Rightarrow> string + block) \<Rightarrow> u64 \<Rightarrow> u64 \<Rightarrow> int \<Rightarrow> block option \<Rightarrow> (block_error, bool \<times> block option) outcome" where
  "probe blockByNumber minedBy first num res =
     (case blockByNumber (num + sint first) of
        Inl e \<Rightarrow> Fail (BlockByNumberError (num + sint first) e)
      | Inr b \<Rightarrow>
          let mined = btime b \<le> minedBy;
              res' = (if mined \<and> (case res of None \<Rightarrow> True | Some r \<Rightarrow> btime r < btime b) then Some b else res)
          in Ret (\<not> mined, res'))"

text \<open>The range that is searched: the hint, completed by the latest block.\<close>

definition block_range :: "string + u64 \<Rightarrow> BlockRange option \<Rightarrow> (block_error, u64 \<times> u64) outcome" where
  "block_range blockNumber hint =
     (let h = (case hint of None \<Rightarrow> \<lparr>First = 0, Last = 0\<rparr> | Some r \<Rightarrow> r) in
      if Last h = 0
      then (case blockNumber of
              Inl e \<Rightarrow> Fail (BlockNumberError e)
            | Inr latest \<Rightarrow> if 2 ^ 63 - 1 \<le> unat latest then Fail (TooLarge latest) else Ret (First h, latest))
      else Ret (First h, Last h))"

definition LastBlockBy ::
  "(int \<Rightarrow> string + block) \<Rightarrow> string + u64 \<Rightarrow> u64 \<Rightarrow> BlockRange option \<Rightarrow> (block_error, block) outcome" where
  "LastBlockBy blockByNumber blockNumber minedBy hint =
     obind (block_range blockNumber hint) (\<lambda>(first, lst).
     obind (sort_Search (sint (lst - first + 1)) (probe blockByNumber minedBy first) None) (\<lambda>(i, res).
       case res of
         None \<Rightarrow> Fail ErrBlockNotFound
       | Some b \<Rightarrow>
           if number b \<noteq> word_of_int (i + sint first - 1) then Fail BrokenInvariant
           else Ret b))"

section \<open>Addresses, seeds and amounts\<close>

datatype address_error = InvalidAddress string | ScanError string

definition is_space :: "char \<Rightarrow> bool" where
  "is_space c \<longleftrightarrow> (let n = (of_char c :: nat) in n = 32 \<or> (9 \<le> n \<and> n \<le> 13))"

definition TrimSpace :: "string \<Rightarrow> string" where
  "TrimSpace s = rev (dropWhile is_space (rev (dropWhile is_space s)))"

text \<open>The chunks that the scanner yields, and the error it ends with, if any.\<close>

fun addresses_loop ::
  "(string \<Rightarrow> bool) \<Rightarrow> (string \<Rightarrow> 'a) \<Rightarrow> string list \<Rightarrow> string option \<Rightarrow> 'a list \<Rightarrow> (address_error, 'a list) outcome" where
  "addresses_loop isHex hexToAddress [] err addrs =
     (case err of Some e \<Rightarrow> Fail (ScanError e) | None \<Rightarrow> Ret addrs)"
| "addresses_loop isHex hexToAddress (c # cs) err addrs =
     (let raw = TrimSpace c in
      if raw = [] then addresses_loop isHex hexToAddress cs err addrs
      else if \<not> isHex raw then Fail (InvalidAddress raw)
      else addresses_loop isHex hexToAddress cs err (addrs @ [hexToAddress raw]))"

definition AddressesFromReader ::
  "(string \<Rightarrow> bool) \<Rightarrow> (string \<Rightarrow> 'a) \<Rightarrow> string list \<times> string option \<Rightarrow> (address_error, 'a list) outcome" where
  "AddressesFromReader isHex hexToAddress r = addresses_loop isHex hexToAddress (fst r) (snd r) []"

text \<open>\<open>bufio.ScanLines\<close>: lines end with a newline, before which a carriage return is dropped.\<close>

definition drop_cr :: "string \<Rightarrow> string" where
  "drop_cr l = (if l \<noteq> [] \<and> last l = CHR 0x0D then butlast l else l)"

fun scan_lines :: "string \<Rightarrow> string \<Rightarrow> string list" where
  "scan_lines cur [] = (if cur = [] then [] else [drop_cr cur])"
| "scan_lines cur (c # cs) =
     (if c = CHR 0x0A then drop_cr cur # scan_lines [] cs else scan_lines (cur @ [c]) cs)"

definition AddressPerLine ::
  "(string \<Rightarrow> bool) \<Rightarrow> (string \<Rightarrow> 'a) \<Rightarrow> string \<times> string option \<Rightarrow> (address_error, 'a list) outcome" where
  "AddressPerLine isHex hexToAddress r = AddressesFromReader isHex hexToAddress (scan_lines [] (fst r), snd r)"

text \<open>The seed of \<open>RandFromHash\<close>: the four 64-bit words of the hash, folded by xor, as an \<open>int64\<close>.\<close>

definition word64 :: "bytes \<Rightarrow> nat \<Rightarrow> u64" where
  "word64 h k = of_nat (SetBytes (take 8 (drop (8 * k) h)))"

definition RandFromHash_seed :: "bytes \<Rightarrow> int" where
  "RandFromHash_seed h = sint (word64 h 3 XOR word64 h 2 XOR word64 h 1 XOR word64 h 0)"

text \<open>\<open>big.Int.Div\<close> is Euclidean division; the constant \<open>params.Ether\<close> is \<open>10^18\<close>.\<close>

definition bigDiv :: "int \<Rightarrow> int \<Rightarrow> ('e, int) outcome" where
  "bigDiv a d = (if d = 0 then Panic else Ret (if 0 < d then a div d else - (a div (- d))))"

definition EtherFraction :: "int \<Rightarrow> int \<Rightarrow> ('e, int) outcome" where
  "EtherFraction numerator denominator = bigDiv (numerator * 10 ^ 18) denominator"

definition Ether :: "int \<Rightarrow> ('e, int) outcome" where
  "Ether e = EtherFraction e 1"

section \<open>The search\<close>

text \<open>
  What the search keeps: everything below \<open>i\<close> was mined by the time, nothing from \<open>j\<close> on was;
  on a strictly increasing chain the result is the block before \<open>i\<close>.
\<close>

definition chain_times :: "(int \<Rightarrow> string + block) \<Rightarrow> int \<Rightarrow> int \<Rightarrow> (int \<Rightarrow> block) \<Rightarrow> bool" where
  "chain_times blockByNumber first lst blk \<longleftrightarrow>
     (\<forall>m. first \<le> m \<and> m \<le> lst \<longrightarrow> blockByNumber m = Inr (blk m) \<and> uint (number (blk m)) = m) \<and>
     (\<forall>m. first \<le> m \<and> m < lst \<longrightarrow> btime (blk m) \<le> btime (blk (m + 1)))"

definition strict_times :: "int \<Rightarrow> int \<Rightarrow> (int \<Rightarrow> block) \<Rightarrow> bool" where
  "strict_times first lst blk \<longleftrightarrow> (\<forall>m. first \<le> m \<and> m < lst \<longrightarrow> btime (blk m) < btime (blk (m + 1)))"

lemma chain_mono:
  assumes "chain_times bn first lst blk" "first \<le> a" "a \<le> b" "b \<le> lst"
  shows "btime (blk a) \<le> btime (blk b)"
  using assms(3,4)
proof (induction rule: int_ge_induct)
  case (step k)
  then have "btime (blk k) \<le> btime (blk (k + 1))"
    using assms(1,2) by (simp add: chain_times_def)
  with step show ?case by simp
qed simp

lemma strict_mono_times:
  assumes "strict_times first lst blk" "first \<le> a" "a < b" "b \<le> lst"
  shows "btime (blk a) < btime (blk b)"
proof -
  have "a + 1 \<le> b" using assms(3) by simp
  then show ?thesis using assms(4)
  proof (induction rule: int_ge_induct)
    case base
    then show ?case using assms(1,2) by (simp add: strict_times_def)
  next
    case (step k)
    then have "btime (blk k) < btime (blk (k + 1))"
      using assms(1,2) by (simp add: strict_times_def)
    with step show ?case by simp
  qed
qed

text \<open>The binary search finds the boundary of a monotone predicate and threads its state.\<close>

lemma search_loop_correct:
  assumes f: "\<And>h s. 0 \<le> h \<Longrightarrow> h < n \<Longrightarrow> f h s = Ret (q h, u h s)"
    and mono: "\<And>a b. 0 \<le> a \<Longrightarrow> a \<le> b \<Longrightarrow> b < n \<Longrightarrow> q a \<Longrightarrow> q b"
    and up: "\<And>i h s. 0 \<le> i \<Longrightarrow> i \<le> h \<Longrightarrow> h < n \<Longrightarrow> \<not> q h \<Longrightarrow> I i s \<Longrightarrow> I (h + 1) (u h s)"
    and down: "\<And>i h s. 0 \<le> i \<Longrightarrow> i \<le> h \<Longrightarrow> h < n \<Longrightarrow> q h \<Longrightarrow> I i s \<Longrightarrow> I i (u h s)"
    and ij: "0 \<le> i" "i \<le> j" "j \<le> n" "\<forall>k. 0 \<le> k \<and> k < i \<longrightarrow> \<not> q k" "\<forall>k. j \<le> k \<and> k < n \<longrightarrow> q k" "I i s"
  shows "\<exists>t s'. search_loop f i j s = Ret (t, s') \<and> 0 \<le> t \<and> t \<le> n \<and>
     (\<forall>k. 0 \<le> k \<and> k < t \<longrightarrow> \<not> q k) \<and> (\<forall>k. t \<le> k \<and> k < n \<longrightarrow> q k) \<and> I t s'"
  using ij
proof (induction "nat (j - i)" arbitrary: i j s rule: less_induct)
  case less
  show ?case
  proof (cases "i < j")
    case False
    then show ?thesis using less.prems by (subst search_loop.simps) auto
  next
    case True
    let ?h = "(i + j) div 2"
    have h: "i \<le> ?h" "?h < j" "0 \<le> ?h" "?h < n" using True less.prems(1,3) by auto
    have step: "search_loop f i j s = (if q ?h then search_loop f i ?h (u ?h s) else search_loop f (?h + 1) j (u ?h s))"
      using True f [OF h(3,4)] by (subst search_loop.simps) (simp add: Let_def)
    show ?thesis
    proof (cases "q ?h")
      case True
      have "\<forall>k. ?h \<le> k \<and> k < n \<longrightarrow> q k" using mono [OF h(3)] True by blast
      then show ?thesis
        using less.hyps [of ?h i "u ?h s"] less.prems h True step down [OF less.prems(1) h(1,4) True less.prems(6)]
        by (simp only: if_True)
    next
      case False
      have "\<forall>k. 0 \<le> k \<and> k < ?h + 1 \<longrightarrow> \<not> q k" using mono h(4) False by fastforce
      then show ?thesis
        using less.hyps [of j "?h + 1" "u ?h s"] less.prems h False step up [OF less.prems(1) h(1,4) False less.prems(6)]
        by (simp only: if_False)
    qed
  qed
qed

lemma sint_small: "unat (x :: u64) < 2 ^ 63 \<Longrightarrow> sint x = int (unat x)"
proof -
  assume "unat x < 2 ^ 63"
  then have "uint x < 2 ^ 63" by (metis of_nat_less_iff of_nat_numeral of_nat_power uint_nat)
  moreover have "0 \<le> uint x" by simp
  ultimately have "signed_take_bit 63 (uint x) = uint x"
    using order_trans [of "- (2 ^ 63)" 0 "uint x"] by (simp add: signed_take_bit_int_eq_self_iff)
  then show ?thesis by (simp add: sint_uint)
qed

lemma uint_word_of_int_small: "0 \<le> z \<Longrightarrow> z < 2 ^ 63 \<Longrightarrow> uint (word_of_int z :: u64) = z"
  by (simp add: unsigned_of_int take_bit_int_eq_self)

definition update_result :: "(int \<Rightarrow> block) \<Rightarrow> u64 \<Rightarrow> int \<Rightarrow> int \<Rightarrow> block option \<Rightarrow> block option" where
  "update_result blk minedBy first h res =
     (if btime (blk (first + h)) \<le> minedBy \<and>
         (case res of None \<Rightarrow> True | Some r \<Rightarrow> btime r < btime (blk (first + h)))
      then Some (blk (first + h)) else res)"

lemma probe_chain:
  assumes "chain_times bn (sint first) lst blk" "0 \<le> h" "sint first + h \<le> lst"
  shows "probe bn minedBy first h res =
     Ret (\<not> btime (blk (sint first + h)) \<le> minedBy, update_result blk minedBy (sint first) h res)"
proof -
  have "bn (h + sint first) = Inr (blk (h + sint first))"
    using assms by (simp add: chain_times_def add.commute)
  then show ?thesis by (simp add: probe_def update_result_def Let_def add.commute [of h])
qed

text \<open>
  What the recorded result is when the search has reached \<open>i\<close>: on any chain a mined block
  below, on a strictly increasing one the last of them.
\<close>

definition recorded :: "bool \<Rightarrow> (int \<Rightarrow> block) \<Rightarrow> int \<Rightarrow> int \<Rightarrow> block option \<Rightarrow> bool" where
  "recorded strict blk first i res \<longleftrightarrow>
     (if i = 0 then res = None
      else \<exists>m. 0 \<le> m \<and> m < i \<and> res = Some (blk (first + m)) \<and> (strict \<longrightarrow> m = i - 1))"

lemma search_chain:
  fixes first :: u64 and lst :: int
  assumes chain: "chain_times bn (sint first) lst blk" and n: "n = lst - sint first + 1" "0 \<le> n"
    and strict: "strict \<longrightarrow> strict_times (sint first) lst blk"
  shows "\<exists>t res. sort_Search n (probe bn minedBy first) None = Ret (t, res) \<and> 0 \<le> t \<and> t \<le> n \<and>
     (\<forall>k. 0 \<le> k \<and> k < t \<longrightarrow> btime (blk (sint first + k)) \<le> minedBy) \<and>
     (\<forall>k. t \<le> k \<and> k < n \<longrightarrow> minedBy < btime (blk (sint first + k))) \<and>
     recorded strict blk (sint first) t res"
proof -
  let ?q = "\<lambda>h. \<not> btime (blk (sint first + h)) \<le> minedBy"
  have "\<exists>t res. search_loop (probe bn minedBy first) 0 n None = Ret (t, res) \<and> 0 \<le> t \<and> t \<le> n \<and>
     (\<forall>k. 0 \<le> k \<and> k < t \<longrightarrow> \<not> ?q k) \<and> (\<forall>k. t \<le> k \<and> k < n \<longrightarrow> ?q k) \<and> recorded strict blk (sint first) t res"
  proof (rule search_loop_correct [where q = ?q and u = "update_result blk minedBy (sint first)"])
    show "probe bn minedBy first h s = Ret (?q h, update_result blk minedBy (sint first) h s)"
      if "0 \<le> h" "h < n" for h s
      using that n(1) by (intro probe_chain [OF chain]) auto
    show "?q b" if "0 \<le> a" "a \<le> b" "b < n" "?q a" for a b
      using chain_mono [OF chain, of "sint first + a" "sint first + b"] that n(1) by auto
    show "recorded strict blk (sint first) (h + 1) (update_result blk minedBy (sint first) h s)"
      if hyp: "0 \<le> i" "i \<le> h" "h < n" "\<not> ?q h" "recorded strict blk (sint first) i s" for i h s
    proof (cases "i = 0")
      case True
      then show ?thesis using hyp by (auto simp: recorded_def update_result_def intro!: exI [of _ h])
    next
      case False
      then obtain m where m: "0 \<le> m" "m < i" "s = Some (blk (sint first + m))" "strict \<longrightarrow> m = i - 1"
        using hyp(5) by (auto simp: recorded_def)
      have "btime (blk (sint first + m)) < btime (blk (sint first + h))" if strict
        using strict_mono_times [of "sint first" lst blk "sint first + m" "sint first + h"]
          strict that m hyp(2,3) n(1) by auto
      then show ?thesis
        using m hyp by (auto simp: recorded_def update_result_def intro: exI [of _ h] exI [of _ m])
    qed
    show "recorded strict blk (sint first) i (update_result blk minedBy (sint first) h s)"
      if "0 \<le> i" "i \<le> h" "h < n" "?q h" "recorded strict blk (sint first) i s" for i h s
      using that by (simp add: update_result_def)
  qed (use n in \<open>auto simp: recorded_def\<close>)
  then show ?thesis unfolding sort_Search_def not_not unfolding not_le .
qed

section \<open>Properties\<close>

text \<open>The last block of a range by a time.\<close>

definition last_by :: "(int \<Rightarrow> block) \<Rightarrow> int \<Rightarrow> int \<Rightarrow> u64 \<Rightarrow> int \<Rightarrow> bool" where
  "last_by blk first lst minedBy m \<longleftrightarrow>
     first \<le> m \<and> m \<le> lst \<and> btime (blk m) \<le> minedBy \<and> (\<forall>k. m < k \<and> k \<le> lst \<longrightarrow> minedBy < btime (blk k))"

text \<open>
  The search stops at the boundary \<open>t\<close>: it returns the block before it, unless equal timestamps
  broke its check.
\<close>

definition stops_at :: "(block_error, block) outcome \<Rightarrow> (int \<Rightarrow> block) \<Rightarrow> int \<Rightarrow> int \<Rightarrow> int \<Rightarrow> bool" where
  "stops_at r blk first lst t \<longleftrightarrow>
     (if t = 0 then r = Fail ErrBlockNotFound
      else r = Ret (blk (first + (t - 1))) \<or> r = Fail BrokenInvariant \<and> \<not> strict_times first lst blk)"

text \<open>Words of a range within the positive numbers of 63 bits.\<close>

lemma range_words:
  fixes first lst :: u64
  assumes "unat first \<le> unat lst" and "unat lst < 2 ^ 63 - 1"
  shows "uint first \<le> uint lst" and "uint lst < 2 ^ 63 - 1" and "sint first = uint first"
    and "sint (lst - first + 1) = uint lst - uint first + 1"
proof -
  have uf: "int (unat first) = uint first" "int (unat lst) = uint lst" by simp_all
  have "int (unat lst) < int (2 ^ 63 - 1)" using assms(2) by (simp only: of_nat_less_iff)
  then show bounds: "uint first \<le> uint lst" "uint lst < 2 ^ 63 - 1" using assms(1) uf by (linarith, simp_all)
  show "sint first = uint first" using assms uf(1) by (subst sint_small) simp_all
  define n where "n = uint lst - uint first + 1"
  have "lst - first + 1 = word_of_int n" by (simp add: n_def)
  moreover have "0 \<le> n" "n < 2 ^ 63" using bounds uint_ge_0 [of first] unfolding n_def by linarith+
  ultimately have "sint (lst - first + 1) = n"
    using order_trans [of "- (2 ^ 63)" 0 n] by (simp add: signed_of_int signed_take_bit_int_eq_self_iff)
  then show "sint (lst - first + 1) = uint lst - uint first + 1" by (simp only: n_def)
qed

text \<open>The number of a block tells how far into the range it lies.\<close>

lemma chain_number:
  assumes "chain_times bn (uint (first :: u64)) (uint (lst :: u64)) blk" and "uint lst < 2 ^ 63 - 1"
    and "0 \<le> m" "m < t" "t \<le> uint lst - uint first + 1"
  shows "number (blk (uint first + m)) = word_of_int (t + uint first - 1) \<longleftrightarrow> m = t - 1"
proof -
  have "uint (number (blk (uint first + m))) = uint first + m"
    using assms by (simp add: chain_times_def)
  moreover have "uint (word_of_int (t + uint first - 1) :: u64) = t + uint first - 1"
    using assms(2-5) uint_ge_0 [of first] by (intro uint_word_of_int_small) linarith+
  ultimately show ?thesis unfolding word_uint_eq_iff by linarith
qed

lemma LastBlockBy_stops:
  assumes "block_range blockNumber hint = Ret (first, lst)"
    and "unat first \<le> unat lst" and "unat lst < 2 ^ 63 - 1"
    and "chain_times bn (uint first) (uint lst) blk"
  shows "\<exists>t. 0 \<le> t \<and> t \<le> uint lst - uint first + 1 \<and>
    (\<forall>k. 0 \<le> k \<and> k < t \<longrightarrow> btime (blk (uint first + k)) \<le> minedBy) \<and>
    (\<forall>k. t \<le> k \<and> k \<le> uint lst - uint first \<longrightarrow> minedBy < btime (blk (uint first + k))) \<and>
    stops_at (LastBlockBy bn blockNumber minedBy hint) blk (uint first) (uint lst) t"
proof -
  define n where "n = uint lst - uint first + 1"
  note bounds = range_words(1,2) [OF assms(2,3)] and sf = range_words(3) [OF assms(2,3)]
  have sn: "sint (lst - first + 1) = n" unfolding n_def by (rule range_words(4) [OF assms(2,3)])
  have n0: "0 < n" using bounds by (simp add: n_def)
  obtain t res where run: "sort_Search n (probe bn minedBy first) None = Ret (t, res)" "0 \<le> t" "t \<le> n"
    and below: "\<forall>k. 0 \<le> k \<and> k < t \<longrightarrow> btime (blk (uint first + k)) \<le> minedBy"
    and above: "\<forall>k. t \<le> k \<and> k < n \<longrightarrow> minedBy < btime (blk (uint first + k))"
    and rec: "recorded (strict_times (uint first) (uint lst) blk) blk (uint first) t res"
    using search_chain [of bn first "uint lst" blk n "strict_times (uint first) (uint lst) blk" minedBy]
      assms(4) sf n_def n0 by auto
  have code: "LastBlockBy bn blockNumber minedBy hint =
      (case res of None \<Rightarrow> Fail ErrBlockNotFound
       | Some b \<Rightarrow> if number b \<noteq> word_of_int (t + uint first - 1) then Fail BrokenInvariant else Ret b)"
    unfolding LastBlockBy_def assms(1) obind.simps prod.case sn run(1) sf ..
  have "stops_at (LastBlockBy bn blockNumber minedBy hint) blk (uint first) (uint lst) t"
  proof (cases "t = 0")
    case True
    then show ?thesis using rec code by (simp add: recorded_def stops_at_def)
  next
    case False
    then obtain m where m: "0 \<le> m" "m < t" "res = Some (blk (uint first + m))"
      "strict_times (uint first) (uint lst) blk \<longrightarrow> m = t - 1"
      using rec by (auto simp: recorded_def)
    have "LastBlockBy bn blockNumber minedBy hint =
        (if m = t - 1 then Ret (blk (uint first + (t - 1))) else Fail BrokenInvariant)"
      using code m(3) chain_number [OF assms(4) bounds(2) m(1,2)] run(3) n_def by auto
    then show ?thesis using False m(4) by (auto simp: stops_at_def)
  qed
  then show ?thesis using run(2,3) below above unfolding n_def by (intro exI [of _ t]) auto
qed

text \<open>
  C11. The binary search on a chain whose timestamps never decrease: it reports that no block was
  found exactly when the first block of the range is later than the time; a block that it
  returns is the last one mined by the time; and when timestamps strictly increase, it
  does return it.
\<close>

theorem LastBlockBy_correct:
  assumes "block_range blockNumber hint = Ret (first, lst)"
    and "unat first \<le> unat lst" and "unat lst < 2 ^ 63 - 1"
    and "chain_times bn (uint first) (uint lst) blk"
  shows "(LastBlockBy bn blockNumber minedBy hint = Fail ErrBlockNotFound \<longleftrightarrow> minedBy < btime (blk (uint first))) \<and>
     (\<forall>b. LastBlockBy bn blockNumber minedBy hint = Ret b \<longrightarrow>
        (\<exists>m. b = blk m \<and> last_by blk (uint first) (uint lst) minedBy m)) \<and>
     (strict_times (uint first) (uint lst) blk \<and> btime (blk (uint first)) \<le> minedBy \<longrightarrow>
        (\<exists>b. LastBlockBy bn blockNumber minedBy hint = Ret b))"
proof -
  let ?r = "LastBlockBy bn blockNumber minedBy hint"
  from LastBlockBy_stops [OF assms, of minedBy] obtain t where t: "0 \<le> t" "t \<le> uint lst - uint first + 1"
    and below: "\<forall>k. 0 \<le> k \<and> k < t \<longrightarrow> btime (blk (uint first + k)) \<le> minedBy"
    and above: "\<forall>k. t \<le> k \<and> k \<le> uint lst - uint first \<longrightarrow> minedBy < btime (blk (uint first + k))"
    and stops: "stops_at ?r blk (uint first) (uint lst) t" by blast
  show ?thesis
  proof (cases "t = 0")
    case True
    have "uint first \<le> uint lst" using assms(2) by (simp add: word_le_nat_alt [symmetric] word_le_def)
    then have "minedBy < btime (blk (uint first))" using above [rule_format, of 0] True by simp
    then show ?thesis using stops True by (auto simp: stops_at_def)
  next
    case False
    have "minedBy < btime (blk k)" if "uint first + (t - 1) < k" "k \<le> uint lst" for k
      using above [rule_format, of "k - uint first"] that by simp
    then have "last_by blk (uint first) (uint lst) minedBy (uint first + (t - 1))"
      using below False t by (simp add: last_by_def)
    moreover have "btime (blk (uint first)) \<le> minedBy" using below False t(1) by force
    ultimately show ?thesis using stops False by (auto simp: stops_at_def)
  qed
qed

definition demo_chain :: "int \<Rightarrow> block" where
  "demo_chain m = \<lparr>number = word_of_int m, btime = word_of_int (10 * m)\<rparr>"

theorem LastBlockBy_correct_witness:
  "\<exists>b. LastBlockBy (\<lambda>m. Inr (demo_chain m)) (Inr 3) 25 None = Ret b \<and>
       (\<exists>m. b = demo_chain m \<and> last_by demo_chain 0 3 25 m)"
proof -
  have four: "m = 0 \<or> m = 1 \<or> m = 2 \<or> m = 3" if "0 \<le> m" "m \<le> 3" for m :: int using that by auto
  have "chain_times (\<lambda>m. Inr (demo_chain m)) 0 3 demo_chain" "strict_times 0 3 demo_chain"
    by (auto simp: chain_times_def strict_times_def demo_chain_def dest!: four [OF _ less_imp_le] four)
  then show ?thesis
    using LastBlockBy_correct [of "Inr 3" None 0 3 "\<lambda>m. Inr (demo_chain m)" demo_chain 25]
    by (auto simp: block_range_def demo_chain_def)
qed

text \<open>Equal timestamps can break the search's own check, although the block exists.\<close>

lemma LastBlockBy_equal_times:
  "LastBlockBy (\<lambda>m. Inr \<lparr>number = word_of_int m, btime = 5\<rparr>) (Inr 3) 5 None = Fail BrokenInvariant"
  by (simp add: LastBlockBy_def block_range_def sort_Search_def search_loop.simps probe_def Let_def)

end
