(* ===== verification/ChainTools.thy ===== *)
theory ChainTools
  imports TokenId Nullable EthBlocks
begin

text \<open>
  Tools that read contracts: the delegation bindings (\<open>contracts/delegate/delegate.go\<close>), the commands
  that list delegations and holders (\<open>go/cmd/delegations\<close>, \<open>go/cmd/holders\<close>), and transfers for the
  Gnosis safe (\<open>go/gnosis/csv.go\<close>). Contracts are functions of what they answer. Goroutines of an
  \<open>errgroup\<close> that append or count under a mutex take effect in some order, which is an argument.
\<close>

section \<open>Delegations\<close>

type_synonym addr = bytes

record 'u delegation =
  Vault :: addr
  Delegate :: addr
  Contract :: "addr nullable"
  TokenID :: "'u nullable"

definition no_contract :: "addr nullable" where
  "no_contract = \<lparr>payload = replicate 20 0, Valid = False\<rparr>"

text \<open>The three kinds of delegations that the registry returns.\<close>

definition all_Delegation :: "'u \<Rightarrow> addr \<Rightarrow> addr \<Rightarrow> (string, 'u delegation) outcome" where
  "all_Delegation zero vault a =
     Ret \<lparr>Vault = vault, Delegate = a, Contract = no_contract, TokenID = \<lparr>payload = zero, Valid = False\<rparr>\<rparr>"

definition contract_Delegation :: "'u \<Rightarrow> addr \<Rightarrow> addr \<times> addr \<Rightarrow> (string, 'u delegation) outcome" where
  "contract_Delegation zero vault d =
     (case d of (contract, del) \<Rightarrow>
        Ret \<lparr>Vault = vault, Delegate = del, Contract = \<lparr>payload = contract, Valid = True\<rparr>,
             TokenID = \<lparr>payload = zero, Valid = False\<rparr>\<rparr>)"

definition token_Delegation :: "'u uint256_api \<Rightarrow> addr \<Rightarrow> addr \<times> int \<times> addr \<Rightarrow> (string, 'u delegation) outcome" where
  "token_Delegation api vault d =
     (case d of (contract, tid, del) \<Rightarrow>
        case FromBig api tid of (u, overflow) \<Rightarrow>
          if overflow then Panic
          else Ret \<lparr>Vault = vault, Delegate = del, Contract = \<lparr>payload = contract, Valid = True\<rparr>,
                    TokenID = \<lparr>payload = u, Valid = True\<rparr>\<rparr>)"

fun convert_all :: "('t \<Rightarrow> (string, 'd) outcome) \<Rightarrow> 't list \<Rightarrow> (string, 'd list) outcome" where
  "convert_all f [] = Ret []"
| "convert_all f (x # xs) = obind (f x) (\<lambda>d. obind (convert_all f xs) (\<lambda>ds. Ret (d # ds)))"

definition AppendDelegations ::
  "(addr \<Rightarrow> 't \<Rightarrow> (string, 'd) outcome) \<Rightarrow> 'd list \<Rightarrow> (addr \<Rightarrow> string + 't list) \<Rightarrow> addr \<Rightarrow> (string, 'd list) outcome" where
  "AppendDelegations build curr_list fetch vault =
     (case fetch vault of
        Inl e \<Rightarrow> Fail e
      | Inr raw \<Rightarrow> obind (convert_all (build vault) raw) (\<lambda>extra. Ret (curr_list @ extra)))"

record registry_calls =
  GetDelegatesForAll :: "addr \<Rightarrow> string + addr list"
  GetContractLevelDelegations :: "addr \<Rightarrow> string + (addr \<times> addr) list"
  GetTokenLevelDelegations :: "addr \<Rightarrow> string + (addr \<times> int \<times> addr) list"

section \<open>The command that lists delegations\<close>

datatype tool_error =
    DialError string
  | ReadError address_error
  | CallError string

definition vault_delegations :: "'u uint256_api \<Rightarrow> 'u \<Rightarrow> registry_calls \<Rightarrow> addr \<Rightarrow> (string, 'u delegation list) outcome" where
  "vault_delegations api zero reg vault =
     obind (AppendDelegations (all_Delegation zero) [] (GetDelegatesForAll reg) vault) (\<lambda>d1.
     obind (AppendDelegations (contract_Delegation zero) d1 (GetContractLevelDelegations reg) vault) (\<lambda>d2.
       AppendDelegations (token_Delegation api) d2 (GetTokenLevelDelegations reg) vault))"

text \<open>
  There is one goroutine per vault. They append what they found in the order in which they finish;
  the first error is the result.
\<close>

fun append_all :: "(addr \<Rightarrow> (string, 'd list) outcome) \<Rightarrow> addr list \<Rightarrow> (string, 'd list) outcome" where
  "append_all f [] = Ret []"
| "append_all f (v # vs) = obind (f v) (\<lambda>ds. obind (append_all f vs) (\<lambda>rest. Ret (ds @ rest)))"

definition fetchDelegationsAndExportCSV ::
  "'u uint256_api \<Rightarrow> 'u \<Rightarrow> registry_calls \<Rightarrow> (addr list \<Rightarrow> addr list) \<Rightarrow> (address_error, addr list) outcome \<Rightarrow>
   ('u delegation list \<Rightarrow> (tool_error, string) outcome) \<Rightarrow> (tool_error, string) outcome" where
  "fetchDelegationsAndExportCSV api zero reg sched addrSrc marshal =
     obind (map_fail ReadError addrSrc) (\<lambda>vaults.
     obind (map_fail CallError (append_all (vault_delegations api zero reg) (sched vaults))) marshal)"

section \<open>The command that lists holders\<close>

type_synonym balances = "(addr \<times> (addr \<times> u64) list) list"

definition row_of :: "balances \<Rightarrow> addr \<Rightarrow> (addr \<times> u64) list" where
  "row_of b h = (case map_of b h of None \<Rightarrow> [] | Some m \<Rightarrow> m)"

definition balance :: "balances \<Rightarrow> addr \<Rightarrow> addr \<Rightarrow> u64" where
  "balance b h t = (case map_of (row_of b h) t of None \<Rightarrow> 0 | Some n \<Rightarrow> n)"

definition add_owner :: "addr \<Rightarrow> addr \<Rightarrow> balances \<Rightarrow> balances" where
  "add_owner t h b = AList.update h (AList.update t (balance b h t + 1) (row_of b h)) b"

text \<open>Binding a collection may fail, as may the calls on it.\<close>

record holder_calls =
  NewIERC721Enumerable :: "addr \<Rightarrow> string option"
  TotalSupply :: "addr \<Rightarrow> string + int"
  OwnerOf :: "addr \<Rightarrow> int \<Rightarrow> string + addr"

fun count_owners :: "(int \<Rightarrow> string + addr) \<Rightarrow> addr \<Rightarrow> int list \<Rightarrow> balances \<Rightarrow> (string, balances) outcome" where
  "count_owners ownerOf t [] b = Ret b"
| "count_owners ownerOf t (i # is) b =
     (case ownerOf i of Inl e \<Rightarrow> Fail e | Inr h \<Rightarrow> count_owners ownerOf t is (add_owner t h b))"

text \<open>
  The tokens are numbered from 0; the supply is truncated to a signed 64-bit integer. The goroutines
  count the tokens of a collection in the order that the schedule gives, with the number of
  collections that are still to come as its index.
\<close>

definition supply_of :: "int \<Rightarrow> int" where
  "supply_of n = sint (word_of_int n :: u64)"

type_synonym schedule = "nat \<Rightarrow> int list \<Rightarrow> int list"

fun count_collections :: "holder_calls \<Rightarrow> schedule \<Rightarrow> addr list \<Rightarrow> balances \<Rightarrow> (string, balances) outcome" where
  "count_collections calls sched [] b = Ret b"
| "count_collections calls sched (t # ts) b =
     (case NewIERC721Enumerable calls t of
        Some e \<Rightarrow> Fail e
      | None \<Rightarrow>
          (case TotalSupply calls t of
             Inl e \<Rightarrow> Fail e
           | Inr n \<Rightarrow> obind (count_owners (OwnerOf calls t) t (sched (length ts) [0..supply_of n - 1]) b)
                       (count_collections calls sched ts)))"

text \<open>The rows after the first come in the order in which the map is ranged over.\<close>

definition writeCSV :: "(addr \<Rightarrow> string) \<Rightarrow> addr list \<Rightarrow> addr list \<Rightarrow> balances \<Rightarrow> string list list" where
  "writeCSV str holders tokens b =
     (''address'' # map str tokens) #
     map (\<lambda>h. str h # map (\<lambda>t. Text (uint (balance b h t)) 10) tokens) holders"

definition holders_run ::
  "(addr \<Rightarrow> string) \<Rightarrow> holder_calls \<Rightarrow> schedule \<Rightarrow> (balances \<Rightarrow> addr list) \<Rightarrow> string + unit \<Rightarrow>
   (address_error, addr list) outcome \<Rightarrow> (tool_error, string list list) outcome" where
  "holders_run str calls sched rng dial addrSrc =
     (case dial of
        Inl e \<Rightarrow> Fail (DialError e)
      | Inr _ \<Rightarrow>
          obind (map_fail ReadError addrSrc) (\<lambda>addrs.
          obind (map_fail CallError (count_collections calls sched addrs [])) (\<lambda>b.
            Ret (writeCSV str (rng b) addrs b))))"

section \<open>Transfers\<close>

datatype token_type = NFT | ERC20 | ETH

record transfer =
  TokenType :: token_type
  TokenAddress :: addr
  Receiver :: addr
  Amount :: int
  trID :: u64

definition zero_address :: addr where
  "zero_address = replicate 20 0"

definition EmptyAddress_String :: "(addr \<Rightarrow> string) \<Rightarrow> addr \<Rightarrow> string" where
  "EmptyAddress_String str a = (if a = zero_address then [] else str a)"

text \<open>The amount is converted to a signed 32-bit integer.\<close>

definition NewERC1155Transfer :: "addr \<Rightarrow> u64 \<Rightarrow> u32 \<Rightarrow> addr \<Rightarrow> transfer" where
  "NewERC1155Transfer collection tid amount receiver =
     \<lparr>TokenType = NFT, TokenAddress = collection, Receiver = receiver, Amount = sint amount, trID = tid\<rparr>"

definition NewERC721Transfer :: "addr \<Rightarrow> u64 \<Rightarrow> addr \<Rightarrow> transfer" where
  "NewERC721Transfer collection tid receiver =
     \<lparr>TokenType = NFT, TokenAddress = collection, Receiver = receiver, Amount = 0, trID = tid\<rparr>"

text \<open>Decimal amounts are given by their value.\<close>

definition NewERC20Transfer :: "addr \<Rightarrow> int \<Rightarrow> addr \<Rightarrow> transfer" where
  "NewERC20Transfer coin amount receiver =
     \<lparr>TokenType = ERC20, TokenAddress = coin, Receiver = receiver, Amount = amount, trID = 0\<rparr>"

definition NewETHTransfer :: "int \<Rightarrow> addr \<Rightarrow> transfer" where
  "NewETHTransfer amount receiver =
     \<lparr>TokenType = ETH, TokenAddress = zero_address, Receiver = receiver, Amount = amount, trID = 0\<rparr>"

section \<open>Facts\<close>

lemma Amount_ERC1155:
  "Amount (NewERC1155Transfer c t amount r) = uint amount \<longleftrightarrow> uint amount < 2 ^ 31"
proof -
  have "uint amount < 2 ^ 32" using uint_lt2p [of amount] by simp
  moreover have "sint amount = (uint amount + 2 ^ 31) mod 2 ^ 32 - 2 ^ 31"
    by (simp add: sint_uint signed_take_bit_eq_take_bit_shift take_bit_eq_mod)
  ultimately show ?thesis
    by (auto simp: NewERC1155Transfer_def mod_if mod_pos_pos_trivial; presburger)
qed

lemma balance_add_owner: "balance (add_owner t h b) h' t' = balance b h' t' + (if h' = h \<and> t' = t then 1 else 0)"
  by (simp add: balance_def row_of_def add_owner_def update_conv')

lemma append_all_mset:
  "\<forall>v \<in> set vs. f v = Ret (g v) \<Longrightarrow> \<exists>ds. append_all f vs = Ret ds \<and> mset ds = (\<Sum>v \<in># mset vs. mset (g v))"
  by (induction vs) auto

lemma append_all_Ret: "append_all f vs = Ret ds \<Longrightarrow> v \<in> set vs \<Longrightarrow> \<exists>d. f v = Ret d"
  by (induction vs arbitrary: ds) (auto simp: outcome_simps)

lemma count_owners_balance:
  "count_owners own t is b = Ret b' \<Longrightarrow>
     balance b' h t' = balance b h t' + (if t' = t then of_nat (length (filter (\<lambda>i. own i = Inr h) is)) else 0)"
  by (induction own t "is" b rule: count_owners.induct) (auto simp: balance_add_owner split: sum.splits)

lemma count_owners_total: "(\<exists>b'. count_owners own t is b = Ret b') \<longleftrightarrow> (\<forall>i \<in> set is. \<exists>h. own i = Inr h)"
  by (induction own t "is" b rule: count_owners.induct) (auto split: sum.splits)

text \<open>How many tokens of the collection the holder owns.\<close>

definition owned :: "holder_calls \<Rightarrow> addr \<Rightarrow> addr \<Rightarrow> nat" where
  "owned calls h t =
     (case TotalSupply calls t of
        Inl e \<Rightarrow> 0
      | Inr n \<Rightarrow> card {i. 0 \<le> i \<and> i < supply_of n \<and> OwnerOf calls t i = Inr h})"

definition answers :: "holder_calls \<Rightarrow> addr \<Rightarrow> bool" where
  "answers calls t \<longleftrightarrow>
     NewIERC721Enumerable calls t = None \<and>
     (case TotalSupply calls t of
        Inl e \<Rightarrow> False
      | Inr n \<Rightarrow> \<forall>i \<in> set [0..supply_of n - 1]. case OwnerOf calls t i of Inl e \<Rightarrow> False | Inr h \<Rightarrow> True)"

lemma length_filter_upto: "length (filter P [0..n - 1]) = card {i. 0 \<le> i \<and> i < n \<and> P i}"
proof -
  have "length (filter P [0..n - 1]) = card (set (filter P [0..n - 1]))"
    by (simp only: distinct_card distinct_filter distinct_upto)
  also have "set (filter P [0..n - 1]) = {i. 0 \<le> i \<and> i < n \<and> P i}" by auto
  finally show ?thesis .
qed

lemma length_filter_mset: "mset xs = mset ys \<Longrightarrow> length (filter P xs) = length (filter P ys)"
  by (metis mset_filter size_mset)

lemma count_collections_balance:
  assumes "\<And>k is. mset (sched k is) = mset is"
  shows "count_collections calls sched ts b = Ret b' \<Longrightarrow>
    balance b' h t = balance b h t + of_nat (count_list ts t * owned calls h t)"
proof (induction ts arbitrary: b)
  case (Cons u us)
  then obtain n c where n: "TotalSupply calls u = Inr n"
    and c: "count_owners (OwnerOf calls u) u (sched (length us) [0..supply_of n - 1]) b = Ret c"
    and b': "count_collections calls sched us c = Ret b'"
    by (auto simp: outcome_simps split: sum.splits option.splits)
  have "owned calls h u = length (filter (\<lambda>i. OwnerOf calls u i = Inr h) (sched (length us) [0..supply_of n - 1]))"
    by (simp add: owned_def n length_filter_upto [symmetric] length_filter_mset [OF assms])
  then show ?case
    using Cons.IH [OF b'] count_owners_balance [OF c] by (simp add: algebra_simps)
qed simp

lemma sum_Inr_iff: "(case x of Inl e \<Rightarrow> False | Inr h \<Rightarrow> True) \<longleftrightarrow> (\<exists>h. x = Inr h)"
  by (cases x) simp_all

lemma count_collections_total:
  assumes "\<And>k is. mset (sched k is) = mset is"
  shows "(\<exists>b'. count_collections calls sched ts b = Ret b') \<longleftrightarrow> (\<forall>t \<in> set ts. answers calls t)"
proof (induction ts arbitrary: b)
  case (Cons u us)
  show ?case
  proof (cases "NewIERC721Enumerable calls u = None \<and> (\<exists>n. TotalSupply calls u = Inr n)")
    case True
    then obtain n where Inr: "TotalSupply calls u = Inr n" and bound: "NewIERC721Enumerable calls u = None" by blast
    let ?is = "sched (length us) [0..supply_of n - 1]"
    have "set ?is = set [0..supply_of n - 1]" by (rule mset_eq_setD [OF assms])
    then have "answers calls u \<longleftrightarrow> (\<exists>c. count_owners (OwnerOf calls u) u ?is b = Ret c)"
      unfolding count_owners_total by (simp add: answers_def Inr bound sum_Inr_iff)
    then show ?thesis using Inr bound Cons.IH by (auto simp: outcome_simps)
  next
    case False
    then show ?thesis by (auto simp: answers_def split: option.splits sum.splits)
  qed
qed simp

section \<open>Properties\<close>

text \<open>C34. The \<open>holders\<close> command succeeds exactly when every collection can be bound and answers for its supply and for the
  owner of every token, whatever the order in which its goroutines finish. The balance that it then writes
  for a holder is the number of tokens that the holder owns, once for every time that the collection is listed.\<close>

theorem holders_count:
  assumes "\<And>k is. mset (sched k is) = mset is"
  shows "((\<exists>b. count_collections calls sched tokens [] = Ret b) \<longleftrightarrow> (\<forall>t \<in> set tokens. answers calls t)) \<and>
    (\<forall>b h t. count_collections calls sched tokens [] = Ret b \<longrightarrow>
       balance b h t = of_nat (count_list tokens t * owned calls h t))"
proof (intro conjI allI impI)
  fix b h t
  assume "count_collections calls sched tokens [] = Ret b"
  from count_collections_balance [OF assms this]
  show "balance b h t = of_nat (count_list tokens t * owned calls h t)"
    by (simp add: balance_def row_of_def)
qed (rule count_collections_total [OF assms])

definition demo_calls :: holder_calls where
  "demo_calls = \<lparr>NewIERC721Enumerable = (\<lambda>t. None), TotalSupply = (\<lambda>t. Inr 3), OwnerOf = (\<lambda>t i. Inr [if i = 1 then 8 else 9])\<rparr>"

theorem holders_count_witness:
  "count_collections demo_calls (\<lambda>k. rev) [[1]] [] = Ret [([9], [([1], 2)]), ([8], [([1], 1)])] \<and>
   (2 :: u64) = of_nat (count_list [[1]] [1] * owned demo_calls [9] [1])"
proof -
  have run: "count_collections demo_calls (\<lambda>k. rev) [[1]] [] = Ret [([9], [([1], 2)]), ([8], [([1], 1)])]"
    by code_simp
  have "mset (rev is) = mset is" for "is" :: "int list" by simp
  from holders_count [of "\<lambda>k. rev", OF this, THEN conjunct2, rule_format, OF run, of "[9]" "[1]"]
  have "(2 :: u64) = of_nat (count_list [[1]] [1] * owned demo_calls [9] [1])"
    by (simp add: balance_def row_of_def)
  with run show ?thesis by (rule conjI)
qed

text \<open>What the registry holds for a vault, as delegations.\<close>

definition token_entry :: "'u uint256_api \<Rightarrow> addr \<Rightarrow> addr \<times> int \<times> addr \<Rightarrow> 'u delegation" where
  "token_entry api v d =
     \<lparr>Vault = v, Delegate = snd (snd d), Contract = \<lparr>payload = fst d, Valid = True\<rparr>,
      TokenID = \<lparr>payload = fst (FromBig api (fst (snd d))), Valid = True\<rparr>\<rparr>"

definition registered ::
  "'u uint256_api \<Rightarrow> 'u \<Rightarrow> addr \<Rightarrow> addr list \<Rightarrow> (addr \<times> addr) list \<Rightarrow> (addr \<times> int \<times> addr) list \<Rightarrow> 'u delegation list" where
  "registered api zero v alls cs ts =
     map (\<lambda>a. \<lparr>Vault = v, Delegate = a, Contract = no_contract, TokenID = \<lparr>payload = zero, Valid = False\<rparr>\<rparr>) alls @
     map (\<lambda>(c, a). \<lparr>Vault = v, Delegate = a, Contract = \<lparr>payload = c, Valid = True\<rparr>,
                    TokenID = \<lparr>payload = zero, Valid = False\<rparr>\<rparr>) cs @
     map (token_entry api v) ts"

lemma convert_all_map: "(\<And>x. x \<in> set xs \<Longrightarrow> f x = Ret (g x)) \<Longrightarrow> convert_all f xs = Ret (map g xs)"
  by (induction xs) auto

lemma convert_tokens:
  assumes "uint256_ok api" and "\<forall>(c, i, a) \<in> set ts. 0 \<le> i \<and> i < 2 ^ 256"
  shows "convert_all (token_Delegation api v) ts = Ret (map (token_entry api v) ts)"
proof (rule convert_all_map)
  fix x
  assume "x \<in> set ts"
  with assms(2) obtain c i a where x: "x = (c, i, a)" "0 \<le> i" "i < 2 ^ 256" by (cases x) auto
  have "\<not> snd (FromBig api i)"
    using assms(1) x(2,3) unfolding uint256_ok_def by auto
  then show "token_Delegation api v x = Ret (token_entry api v x)"
    by (cases "FromBig api i") (simp add: x(1) token_Delegation_def token_entry_def)
qed

definition registry_answers ::
  "registry_calls \<Rightarrow> addr \<Rightarrow> addr list \<Rightarrow> (addr \<times> addr) list \<Rightarrow> (addr \<times> int \<times> addr) list \<Rightarrow> bool" where
  "registry_answers reg v alls cs ts \<longleftrightarrow>
     GetDelegatesForAll reg v = Inr alls \<and> GetContractLevelDelegations reg v = Inr cs \<and>
     GetTokenLevelDelegations reg v = Inr ts \<and> (\<forall>(c, i, a) \<in> set ts. 0 \<le> i \<and> i < 2 ^ 256)"

lemma vault_delegations_registered:
  assumes "uint256_ok api" and "registry_answers reg v alls cs ts"
  shows "vault_delegations api zero reg v = Ret (registered api zero v alls cs ts)"
proof -
  have "convert_all (all_Delegation zero v) alls =
      Ret (map (\<lambda>a. \<lparr>Vault = v, Delegate = a, Contract = no_contract, TokenID = \<lparr>payload = zero, Valid = False\<rparr>\<rparr>) alls)"
    by (rule convert_all_map) (simp add: all_Delegation_def)
  moreover have "convert_all (contract_Delegation zero v) cs =
      Ret (map (\<lambda>(c, a). \<lparr>Vault = v, Delegate = a, Contract = \<lparr>payload = c, Valid = True\<rparr>,
                          TokenID = \<lparr>payload = zero, Valid = False\<rparr>\<rparr>) cs)"
    by (rule convert_all_map) (simp add: contract_Delegation_def split: prod.split)
  moreover have "convert_all (token_Delegation api v) ts = Ret (map (token_entry api v) ts)"
    using assms(2) unfolding registry_answers_def by (blast intro: convert_tokens [OF assms(1)])
  ultimately show ?thesis
    using assms(2) by (simp add: registry_answers_def vault_delegations_def AppendDelegations_def registered_def)
qed

text \<open>When the registry answers for every vault with 256-bit token IDs, the command exports exactly the
  delegations that the registry holds for the vaults, all three kinds, in whatever order the goroutines finish;
  nothing fails and nothing panics.\<close>

theorem delegations_complete:
  assumes api: "uint256_ok api" and sched: "mset (sched vaults) = mset vaults"
    and reg: "\<And>v. v \<in> set vaults \<Longrightarrow> registry_answers reg v (alls v) (cs v) (ts v)"
  shows "\<exists>ds. mset ds = (\<Sum>v \<in># mset vaults. mset (registered api zero v (alls v) (cs v) (ts v))) \<and>
    fetchDelegationsAndExportCSV api zero reg sched (Ret vaults) marshal = marshal ds"
proof -
  have "\<forall>v \<in> set (sched vaults). vault_delegations api zero reg v = Ret (registered api zero v (alls v) (cs v) (ts v))"
    using reg by (auto simp: mset_eq_setD [OF sched] intro!: vault_delegations_registered [OF api])
  from append_all_mset [OF this] show ?thesis
    unfolding sched by (auto simp: fetchDelegationsAndExportCSV_def)
qed

definition demo_registry :: registry_calls where
  "demo_registry =
     \<lparr>GetDelegatesForAll = (\<lambda>v. Inr [[5]]), GetContractLevelDelegations = (\<lambda>v. Inr []),
      GetTokenLevelDelegations = (\<lambda>v. Inr [([6], 7, [8])])\<rparr>"

definition demo_marshal :: "256 word delegation list \<Rightarrow> (tool_error, string) outcome" where
  "demo_marshal ds = Ret (replicate (length ds) (CHR ''x''))"

theorem delegations_complete_witness:
  "fetchDelegationsAndExportCSV word256_api 0 demo_registry rev (Ret [[1], [2]]) demo_marshal = Ret ''xxxx''"
proof -
  have "registry_answers demo_registry v [[5]] [] [([6], 7, [8])]" for v
    by (simp add: registry_answers_def demo_registry_def)
  from delegations_complete [OF word256_ok, of rev "[[1], [2]]" demo_registry "\<lambda>v. [[5]]" "\<lambda>v. []"
      "\<lambda>v. [([6], 7, [8])]" 0 demo_marshal, OF _ this]
  obtain ds where "mset ds = (\<Sum>v \<in># mset [[1], [2]]. mset (registered word256_api 0 v [[5]] [] [([6], 7, [8])]))"
    and run: "fetchDelegationsAndExportCSV word256_api 0 demo_registry rev (Ret [[1], [2]]) demo_marshal = demo_marshal ds"
    by auto
  then have "length ds = 4" by (simp add: registered_def flip: size_mset)
  then show ?thesis unfolding run by (simp add: demo_marshal_def numeral_eq_Suc)
qed

end
