(* ===== verification/SimBackend.thy ===== *)
theory SimBackend
  imports EthBlocks
begin

text \<open>
  Helpers for tests of contracts (\<open>go/ethtest/simbackend.go\<close>, \<open>ethtest.go\<close>): the simulated backend, which
  wraps that of go-ethereum, and a list of block times as a chain. The wrapped backend, key derivation and
  transactors are arguments; what the loop of \<open>FastForward\<close> relies on is named \<open>commits\<close>.
\<close>

section \<open>The simulated backend\<close>

type_synonym addr = bytes

record 'sg transact_opts =
  From :: addr
  Signer :: 'sg
  TxValue :: "int option"

text \<open>The backend of go-ethereum, on its state.\<close>

record ('c, 'tx) geth_backend =
  NewBackend :: "(addr \<times> int) list \<Rightarrow> int \<Rightarrow> 'c"
  AdjustTime :: "int \<Rightarrow> 'c \<Rightarrow> 'c"
  Commit :: "'c \<Rightarrow> 'c"
  GethSend :: "'tx \<Rightarrow> 'c \<Rightarrow> string option \<times> 'c"
  CurrentBlock :: "'c \<Rightarrow> int"
  BalanceAt :: "'c \<Rightarrow> addr \<Rightarrow> string + int"
  GasUsed :: "'c \<Rightarrow> 'tx \<Rightarrow> string + u64"
  GasPrice :: "'tx \<Rightarrow> int"

record ('k, 'sg) key_api =
  Keccak256 :: "bytes \<Rightarrow> bytes"
  ToECDSA :: "bytes \<Rightarrow> string + 'k"
  Transactor :: "'k \<Rightarrow> string + addr \<times> 'sg"

datatype mocked_entity = OpenSea | Chainlink | Ethier | WETH | OtherEntity string

fun entity_text :: "mocked_entity \<Rightarrow> string" where
  "entity_text OpenSea = ''OpenSea''"
| "entity_text Chainlink = ''Chainlink''"
| "entity_text Ethier = ''Ethier''"
| "entity_text WETH = ''wETH''"
| "entity_text (OtherEntity s) = s"

record ('c, 'k, 'sg) backend =
  sim :: 'c
  AutoCommit :: bool
  accounts :: "'sg transact_opts list"
  keys :: "'k list"
  mockAccounts :: "(string \<times> 'sg transact_opts) list"

datatype sim_error =
    KeyError bytes string
  | TransactorError string
  | UnsupportedEntity string
  | SendError string
  | FnError string

type_synonym alloc = "(addr \<times> int) list"

definition precompiles :: alloc where
  "precompiles = map (\<lambda>b. (replicate 19 0 @ [b], 1)) [1, 2, 3, 4, 5, 6, 7, 8]"

text \<open>An account from a seed; the genesis gives it 100 ether.\<close>

definition createAccount ::
  "('k, 'sg) key_api \<Rightarrow> bytes \<Rightarrow> alloc \<Rightarrow> (sim_error, 'sg transact_opts \<times> 'k \<times> alloc) outcome" where
  "createAccount api seed al =
     (case ToECDSA api (Keccak256 api seed) of
        Inl e \<Rightarrow> Fail (KeyError seed e)
      | Inr key \<Rightarrow>
          (case Transactor api key of
             Inl e \<Rightarrow> Fail (TransactorError e)
           | Inr (a, sg) \<Rightarrow>
               obind (Ether 100) (\<lambda>bal.
                 Ret (\<lparr>From = a, Signer = sg, TxValue = None\<rparr>, key, AList.update a bal al))))"

definition account_seed :: "nat \<Rightarrow> bytes" where
  "account_seed i = text_bytes (''account:'' @ Text (int i) 10)"

fun create_accounts ::
  "('k, 'sg) key_api \<Rightarrow> nat list \<Rightarrow> alloc \<Rightarrow> (sim_error, ('sg transact_opts \<times> 'k) list \<times> alloc) outcome" where
  "create_accounts api [] al = Ret ([], al)"
| "create_accounts api (i # is) al =
     obind (createAccount api (account_seed i) al) (\<lambda>(o1, k, al1).
     obind (create_accounts api is al1) (\<lambda>(accs, al2). Ret ((o1, k) # accs, al2)))"

fun create_mocks ::
  "('k, 'sg) key_api \<Rightarrow> mocked_entity list \<Rightarrow> (string \<times> 'sg transact_opts) list \<Rightarrow> alloc \<Rightarrow>
   (sim_error, (string \<times> 'sg transact_opts) list \<times> alloc) outcome" where
  "create_mocks api [] m al = Ret (m, al)"
| "create_mocks api (e # es) m al =
     obind (createAccount api (text_bytes (entity_text e)) al) (\<lambda>(o1, k, al1).
       create_mocks api es (AList.update (entity_text e) o1 m) al1)"

definition NewSimulatedBackend ::
  "('c, 'tx) geth_backend \<Rightarrow> ('k, 'sg) key_api \<Rightarrow> int \<Rightarrow> (sim_error, ('c, 'k, 'sg) backend \<times> alloc) outcome" where
  "NewSimulatedBackend g api numAccounts =
     obind (create_accounts api [0..<nat numAccounts] precompiles) (\<lambda>(accs, al1).
     obind (create_mocks api [OpenSea, Chainlink, Ethier, WETH] [] al1) (\<lambda>(mocks, al2).
       Ret (\<lparr>sim = Commit g (AdjustTime g (365 * 24 * 3600 * 10 ^ 9) (NewBackend g al2 30000000)),
             AutoCommit = True, accounts = map fst accs, keys = map snd accs, mockAccounts = mocks\<rparr>, al2)))"

definition SendTransaction ::
  "('c, 'tx) geth_backend \<Rightarrow> 'tx \<Rightarrow> ('c, 'k, 'sg) backend \<Rightarrow> string option \<times> ('c, 'k, 'sg) backend" where
  "SendTransaction g tx sb =
     (case GethSend g tx (sim sb) of
        (Some e, c) \<Rightarrow> (Some e, sb\<lparr>sim := c\<rparr>)
      | (None, c) \<Rightarrow> (None, sb\<lparr>sim := if AutoCommit sb then Commit g c else c\<rparr>))"

text \<open>A slice indexed by an \<open>int\<close>.\<close>

definition index :: "'a list \<Rightarrow> int \<Rightarrow> ('e, 'a) outcome" where
  "index xs i = (if 0 \<le> i \<and> i < int (length xs) then Ret (xs ! nat i) else Panic)"

definition Acc :: "('c, 'k, 'sg) backend \<Rightarrow> int \<Rightarrow> (sim_error, 'sg transact_opts) outcome" where
  "Acc sb account =
     obind (index (accounts sb) account) (\<lambda>acc. Ret \<lparr>From = From acc, Signer = Signer acc, TxValue = None\<rparr>)"

definition Addr :: "('c, 'k, 'sg) backend \<Rightarrow> int \<Rightarrow> (sim_error, addr) outcome" where
  "Addr sb account = obind (index (accounts sb) account) (\<lambda>acc. Ret (From acc))"

definition PrivateKey :: "('c, 'k, 'sg) backend \<Rightarrow> int \<Rightarrow> (sim_error, 'k) outcome" where
  "PrivateKey sb account = index (keys sb) account"

definition WithValueFrom :: "('c, 'k, 'sg) backend \<Rightarrow> int \<Rightarrow> int \<Rightarrow> (sim_error, 'sg transact_opts) outcome" where
  "WithValueFrom sb account val = obind (Acc sb account) (\<lambda>opts. Ret (opts\<lparr>TxValue := Some val\<rparr>))"

definition CallFrom :: "('c, 'k, 'sg) backend \<Rightarrow> int \<Rightarrow> (sim_error, addr) outcome" where
  "CallFrom sb account = obind (index (accounts sb) account) (\<lambda>acc. Ret (From acc))"

definition sim_BlockNumber :: "('c, 'tx) geth_backend \<Rightarrow> ('c, 'k, 'sg) backend \<Rightarrow> int" where
  "sim_BlockNumber g sb = CurrentBlock g (sim sb)"

text \<open>The report of the coverage collector, nil without one; the chain ID is that of the chain's configuration.\<close>

definition CoverageReport :: "('c \<Rightarrow> bytes) option \<Rightarrow> ('c, 'k, 'sg) backend \<Rightarrow> bytes option" where
  "CoverageReport report sb = map_option (\<lambda>f. f (sim sb)) report"

definition sim_ChainID :: "('c \<Rightarrow> int) \<Rightarrow> ('c, 'k, 'sg) backend \<Rightarrow> (string, int) outcome" where
  "sim_ChainID configChainID sb = Ret (configChainID (sim sb))"

definition AsMockedEntity ::
  "('c, 'k, 'sg) backend \<Rightarrow> mocked_entity \<Rightarrow> ('sg transact_opts \<Rightarrow> string option) \<Rightarrow> sim_error option" where
  "AsMockedEntity sb mock fn =
     (case map_of (mockAccounts sb) (entity_text mock) of
        None \<Rightarrow> Some (UnsupportedEntity (entity_text mock))
      | Some a \<Rightarrow> map_option FnError (fn a))"

text \<open>What a call does to the test: it may fail it, and fatally.\<close>

datatype 'a tested = Continues "string list" 'a | Fatal "string list"

definition BalanceOf :: "('c, 'tx) geth_backend \<Rightarrow> ('c, 'k, 'sg) backend \<Rightarrow> addr \<Rightarrow> int tested" where
  "BalanceOf g sb a = (case BalanceAt g (sim sb) a of Inl e \<Rightarrow> Fatal [e] | Inr bal \<Rightarrow> Continues [] bal)"

definition GasSpent :: "('c, 'tx) geth_backend \<Rightarrow> ('c, 'k, 'sg) backend \<Rightarrow> 'tx \<Rightarrow> int tested" where
  "GasSpent g sb tx =
     (case GasUsed g (sim sb) tx of Inl e \<Rightarrow> Fatal [e] | Inr u \<Rightarrow> Continues [] (GasPrice g tx * uint u))"

text \<open>The function that \<open>Must\<close> returns, with its variable \<open>used\<close>.\<close>

definition once_error :: "string \<Rightarrow> string" where
  "once_error desc = desc @ '' must only be used once''"

definition Must :: "string \<Rightarrow> bool \<Rightarrow> 'tx \<Rightarrow> string option \<Rightarrow> bool \<times> 'tx tested" where
  "Must desc used tx err =
     (let errs = (if used then [once_error desc] else []) in
      (True, case err of Some e \<Rightarrow> Fatal (errs @ [desc @ '': '' @ e]) | None \<Rightarrow> Continues errs tx))"

text \<open>The loop may run for ever: it then has no result.\<close>

partial_function (option) forward_loop ::
  "('c \<Rightarrow> 'c) \<Rightarrow> ('c \<Rightarrow> int) \<Rightarrow> int \<Rightarrow> 'c \<Rightarrow> bool \<Rightarrow> (bool \<times> 'c) option" where
  "forward_loop commit current blockNumber c fin =
     (if current c < blockNumber then forward_loop commit current blockNumber (commit c) True else Some (fin, c))"

definition FastForward ::
  "('c, 'tx) geth_backend \<Rightarrow> int \<Rightarrow> ('c, 'k, 'sg) backend \<Rightarrow> (bool \<times> ('c, 'k, 'sg) backend) option" where
  "FastForward g blockNumber sb =
     map_option (\<lambda>(r, c). (r, sb\<lparr>sim := c\<rparr>)) (forward_loop (Commit g) (CurrentBlock g) blockNumber (sim sb) False)"

section \<open>A list of block times\<close>

type_synonym block_times = "u64 list"

definition BlockTimes_BlockNumber :: "string option \<Rightarrow> block_times \<Rightarrow> string + u64" where
  "BlockTimes_BlockNumber ctx_err t =
     (case ctx_err of
        Some e \<Rightarrow> Inl e
      | None \<Rightarrow> if length t = 0 then Inl ''no blocks mined'' else Inr (of_nat (length t) - 1))"

definition NewBlock :: "int \<Rightarrow> u64 \<Rightarrow> block" where
  "NewBlock num tm = \<lparr>number = word_of_int num, btime = tm\<rparr>"

definition is_int64 :: "int \<Rightarrow> bool" where
  "is_int64 i \<longleftrightarrow> - (2 ^ 63) \<le> i \<and> i < 2 ^ 63"

definition BlockByNumber :: "string option \<Rightarrow> block_times \<Rightarrow> int \<Rightarrow> (string, block) outcome" where
  "BlockByNumber ctx_err t num =
     (case ctx_err of
        Some e \<Rightarrow> Fail e
      | None \<Rightarrow>
          if \<not> is_int64 num then Fail ''block number is not int64''
          else if num > int (length t) then Fail ''block not mined''
          else obind (index t num) (\<lambda>tm. Ret (NewBlock num tm)))"

section \<open>Fast-forwarding\<close>

text \<open>What the loop relies on: a commit mines one block.\<close>

definition commits :: "('c \<Rightarrow> 'c) \<Rightarrow> ('c \<Rightarrow> int) \<Rightarrow> bool" where
  "commits commit current \<longleftrightarrow> (\<forall>c. current (commit c) = current c + 1)"

lemma forward_loop_commits:
  assumes "commits commit current"
  shows "nat (n - current c) = k \<Longrightarrow> forward_loop commit current n c fin = Some (fin \<or> 0 < k, (commit ^^ k) c)"
proof (induction k arbitrary: c fin)
  case 0
  then show ?case by (subst forward_loop.simps) simp
next
  case (Suc k)
  then have "nat (n - current (commit c)) = k" using assms by (auto simp: commits_def)
  moreover have "current c < n" using Suc.prems by simp
  ultimately show ?case
    using Suc.IH [of "commit c" True] by (subst forward_loop.simps) (simp add: funpow_swap1)
qed

lemma current_funpow: "commits commit current \<Longrightarrow> current ((commit ^^ k) c) = current c + int k"
  by (induction k) (simp_all add: commits_def)

section \<open>Accounts\<close>

lemma createAccount_balance:
  "createAccount api seed al = Ret (o1, k, al') \<Longrightarrow> map_of al' = (map_of al)(From o1 \<mapsto> 10 ^ 20)"
  by (auto simp: createAccount_def Ether_def EtherFraction_def bigDiv_def update_conv' split: sum.splits)

lemma create_accounts_balance:
  "create_accounts api is al = Ret (accs, al') \<Longrightarrow>
     length accs = length is \<and>
     (\<forall>a. map_of al a = Some (10 ^ 20) \<or> a \<in> From ` fst ` set accs \<longrightarrow> map_of al' a = Some (10 ^ 20))"
proof (induction "is" arbitrary: al accs)
  case (Cons i "is")
  then obtain o1 k al1 accs1 where *: "createAccount api (account_seed i) al = Ret (o1, k, al1)"
    "create_accounts api is al1 = Ret (accs1, al')" "accs = (o1, k) # accs1"
    by (auto simp: outcome_simps)
  from Cons.IH [OF *(2)] createAccount_balance [OF *(1)] show ?case by (auto simp: *(3))
qed simp

lemma create_mocks_balance:
  "create_mocks api es m al = Ret (m', al') \<Longrightarrow>
     (\<forall>a. map_of al a = Some (10 ^ 20) \<longrightarrow> map_of al' a = Some (10 ^ 20)) \<and>
     dom (map_of m') = dom (map_of m) \<union> entity_text ` set es"
proof (induction es arbitrary: m al)
  case (Cons e es)
  then obtain o1 k al1 where *: "createAccount api (text_bytes (entity_text e)) al = Ret (o1, k, al1)"
    "create_mocks api es (AList.update (entity_text e) o1 m) al1 = Ret (m', al')"
    by (auto simp: outcome_simps)
  from Cons.IH [OF *(2)] createAccount_balance [OF *(1)] show ?case by (auto simp: update_conv')
qed simp

text \<open>The accounts do not depend on the genesis that they are added to.\<close>

lemma createAccount_alloc:
  "createAccount api seed al = Ret (o1, k, al') \<Longrightarrow> \<exists>al2. createAccount api seed al1 = Ret (o1, k, al2)"
  by (auto simp: createAccount_def Ether_def EtherFraction_def bigDiv_def split: sum.splits)

lemma create_accounts_prefix:
  "create_accounts api (is @ js) al = Ret (accs, al') \<Longrightarrow>
     \<exists>al2. create_accounts api is al1 = Ret (take (length is) accs, al2)"
proof (induction "is" arbitrary: al al1 accs)
  case (Cons i "is")
  then obtain o1 k al3 accs1 where *: "createAccount api (account_seed i) al = Ret (o1, k, al3)"
    "create_accounts api (is @ js) al3 = Ret (accs1, al')" "accs = (o1, k) # accs1"
    by (auto simp: outcome_simps)
  from createAccount_alloc [OF *(1)] obtain al4
    where 1: "createAccount api (account_seed i) al1 = Ret (o1, k, al4)" by blast
  from Cons.IH [OF *(2)] obtain al5 where "create_accounts api is al4 = Ret (take (length is) accs1, al5)" by blast
  with 1 *(3) show ?case by simp
qed simp

section \<open>Block times as a chain\<close>

lemma BlockByNumber_nth:
  assumes "length t < 2 ^ 63 - 1" "0 \<le> m" "m < int (length t)"
  shows "BlockByNumber None t m = Ret (NewBlock m (t ! nat m))"
proof -
  have "m < 2 ^ 63" using assms by simp
  then have "is_int64 m" using assms(2) by (simp add: is_int64_def)
  then show ?thesis using assms(2,3) by (simp add: BlockByNumber_def index_def)
qed

lemma BlockTimes_range:
  assumes "t \<noteq> []" "length t < 2 ^ 63 - 1"
  shows "block_range (BlockTimes_BlockNumber None t) None = Ret (0, of_nat (length t - 1)) \<and>
    unat (of_nat (length t - 1) :: u64) = length t - 1"
proof -
  have u: "unat (of_nat (length t - 1) :: u64) = length t - 1"
    using assms(2) by (simp add: unsigned_of_nat take_bit_nat_eq_self)
  have "(of_nat (length t) :: u64) - 1 = of_nat (length t - 1)" using assms(1) by (cases t) simp_all
  with u assms show ?thesis by (simp add: block_range_def BlockTimes_BlockNumber_def)
qed

lemma BlockTimes_chain:
  assumes "t \<noteq> []" "length t < 2 ^ 63 - 1" "sorted_wrt (<) t"
    and "\<And>m b. BlockByNumber None t m = Ret b \<Longrightarrow> bn m = Inr b"
  shows "chain_times bn 0 (int (length t - 1)) (\<lambda>m. NewBlock m (t ! nat m)) \<and>
    strict_times 0 (int (length t - 1)) (\<lambda>m. NewBlock m (t ! nat m))"
proof -
  have "t ! nat m < t ! nat (m + 1)" if "0 \<le> m" "m < int (length t - 1)" for m
    using that assms(3) by (auto simp: sorted_wrt_iff_nth_less nat_add_distrib)
  moreover have "bn m = Inr (NewBlock m (t ! nat m)) \<and> uint (number (NewBlock m (t ! nat m))) = m"
    if "0 \<le> m" "m \<le> int (length t - 1)" for m
  proof -
    have "m < int (length t)" "m < 2 ^ 63" using that assms(1,2) by (cases t; simp)+
    then show ?thesis
      using assms(4) BlockByNumber_nth [OF assms(2)] that(1) by (simp add: NewBlock_def uint_word_of_int_small)
  qed
  ultimately show ?thesis
    by (simp add: chain_times_def strict_times_def) (simp add: NewBlock_def less_imp_le)
qed

section \<open>Properties\<close>

text \<open>C29. Fast-forwarding ends on a backend whose commits mine one block each: it commits exactly the missing
  blocks, so that the requested block is reached and never passed, and it reports whether any were missing.\<close>

theorem FastForward_terminates:
  assumes "commits (Commit g) (CurrentBlock g)"
  shows "\<exists>c. FastForward g n sb = Some (CurrentBlock g (sim sb) < n, sb\<lparr>sim := c\<rparr>) \<and>
    c = (Commit g ^^ nat (n - CurrentBlock g (sim sb))) (sim sb) \<and>
    CurrentBlock g c = max n (CurrentBlock g (sim sb))"
  using forward_loop_commits [OF assms refl, of n "sim sb" False] current_funpow [OF assms]
  by (auto simp: FastForward_def)

definition counter_backend :: "(int, unit) geth_backend" where
  "counter_backend =
     \<lparr>NewBackend = (\<lambda>al gas. 0), AdjustTime = (\<lambda>d c. c), Commit = (\<lambda>c. c + 1), GethSend = (\<lambda>tx c. (None, c)),
      CurrentBlock = (\<lambda>c. c), BalanceAt = (\<lambda>c a. Inr 0), GasUsed = (\<lambda>c tx. Inr 0), GasPrice = (\<lambda>tx. 0)\<rparr>"

definition demo_keys :: "(bytes, unit) key_api" where
  "demo_keys = \<lparr>Keccak256 = (\<lambda>b. b), ToECDSA = Inr, Transactor = (\<lambda>k. Inr (k, ()))\<rparr>"

definition demo_backend :: "(int, bytes, unit) backend" where
  "demo_backend = \<lparr>sim = 2, AutoCommit = True, accounts = [], keys = [], mockAccounts = []\<rparr>"

theorem FastForward_terminates_witness:
  "FastForward counter_backend 5 demo_backend = Some (True, demo_backend\<lparr>sim := 5\<rparr>)"
proof -
  have "commits (Commit counter_backend) (CurrentBlock counter_backend)"
    by (simp add: commits_def counter_backend_def)
  from FastForward_terminates [OF this, of 5 demo_backend] obtain c
    where "FastForward counter_backend 5 demo_backend =
        Some (CurrentBlock counter_backend (sim demo_backend) < 5, demo_backend\<lparr>sim := c\<rparr>)"
      and "CurrentBlock counter_backend c = max 5 (CurrentBlock counter_backend (sim demo_backend))" by blast
  then show ?thesis by (simp add: counter_backend_def demo_backend_def)
qed

text \<open>A new simulated backend has as many accounts and keys as asked for, an account for each of the four mocked
  entities and no other, 100 ether for every account in the genesis, and the accounts of a smaller backend are
  the first accounts of a larger one.\<close>

theorem NewSimulatedBackend_accounts:
  assumes "NewSimulatedBackend g api n = Ret (sb, al)"
  shows "length (accounts sb) = nat n \<and> length (keys sb) = nat n \<and>
    dom (map_of (mockAccounts sb)) = entity_text ` {OpenSea, Chainlink, Ethier, WETH} \<and>
    (\<forall>a \<in> set (accounts sb). map_of al (From a) = Some (10 ^ 20)) \<and>
    (\<forall>m sb' al'. m \<le> n \<and> NewSimulatedBackend g api m = Ret (sb', al') \<longrightarrow>
       accounts sb' = take (nat m) (accounts sb) \<and> keys sb' = take (nat m) (keys sb))"
proof -
  from assms obtain accs al1 where accs: "create_accounts api [0..<nat n] precompiles = Ret (accs, al1)"
    and mocks: "create_mocks api [OpenSea, Chainlink, Ethier, WETH] [] al1 = Ret (mockAccounts sb, al)"
    and sb: "accounts sb = map fst accs" "keys sb = map snd accs"
    by (auto simp: NewSimulatedBackend_def outcome_simps)
  note bal = create_accounts_balance [OF accs]
  have "accounts sb' = take (nat m) (accounts sb) \<and> keys sb' = take (nat m) (keys sb)"
    if m: "m \<le> n" "NewSimulatedBackend g api m = Ret (sb', al')" for m sb' al'
  proof -
    have "[0..<nat n] = [0..<nat m] @ [nat m..<nat n]"
      using m(1) upt_add_eq_append [of 0 "nat m" "nat n - nat m"] by simp
    then obtain al2 where "create_accounts api [0..<nat m] precompiles = Ret (take (nat m) accs, al2)"
      using create_accounts_prefix [of api "[0..<nat m]" "[nat m..<nat n]" precompiles accs al1 precompiles] accs by auto
    with m(2) show ?thesis by (auto simp: NewSimulatedBackend_def outcome_simps sb take_map)
  qed
  moreover have "\<forall>a \<in> set (accounts sb). map_of al (From a) = Some (10 ^ 20)"
    using bal create_mocks_balance [OF mocks] by (force simp: sb)
  ultimately show ?thesis
    using bal create_mocks_balance [OF mocks] by (simp add: sb)
qed

theorem NewSimulatedBackend_accounts_witness:
  "\<exists>sb al. NewSimulatedBackend counter_backend demo_keys 2 = Ret (sb, al) \<and> length (accounts sb) = 2 \<and>
     (\<forall>a \<in> set (accounts sb). map_of al (From a) = Some (10 ^ 20))"
proof -
  obtain sb al where "NewSimulatedBackend counter_backend demo_keys 2 = Ret (sb, al)"
    by (auto simp: NewSimulatedBackend_def demo_keys_def createAccount_def Ether_def EtherFraction_def bigDiv_def
        upt_rec numeral_2_eq_2)
  with NewSimulatedBackend_accounts [OF this] show ?thesis by (intro exI [of _ sb] exI [of _ al]) simp
qed

text \<open>A list of strictly increasing block times serves \<open>LastBlockBy\<close>: whatever fetcher returns the list's
  blocks, the search finds the last block by every time that is not before the first block, and only
  blocks of the list are asked for. Reading one past the end, in contrast, is not an error but a panic.\<close>

theorem LastBlockBy_BlockTimes:
  assumes "t \<noteq> []" and "length t < 2 ^ 63 - 1" and "sorted_wrt (<) t" and "t ! 0 \<le> minedBy"
    and "\<And>m b. BlockByNumber None t m = Ret b \<Longrightarrow> bn m = Inr b"
  shows "(\<exists>m. LastBlockBy bn (BlockTimes_BlockNumber None t) minedBy None = Ret (NewBlock (int m) (t ! m)) \<and>
      m < length t \<and> t ! m \<le> minedBy \<and> (\<forall>k. m < k \<and> k < length t \<longrightarrow> minedBy < t ! k)) \<and>
    BlockByNumber None t (int (length t)) = Panic"
proof -
  let ?n = "of_nat (length t - 1) :: u64" and ?blk = "\<lambda>m. NewBlock m (t ! nat m)"
  let ?r = "LastBlockBy bn (BlockTimes_BlockNumber None t) minedBy None"
  note range = BlockTimes_range [OF assms(1,2)] and chain = BlockTimes_chain [OF assms(1,2,3,5)]
  have u: "uint ?n = int (length t - 1)" using range by (metis uint_nat)
  have "unat ?n < 2 ^ 63 - 1" using range assms(2) by simp
  with LastBlockBy_stops [of "BlockTimes_BlockNumber None t" None 0 ?n bn ?blk minedBy] range chain obtain k
    where k: "0 \<le> k" "k \<le> int (length t - 1) + 1" "\<forall>j. 0 \<le> j \<and> j < k \<longrightarrow> t ! nat j \<le> minedBy"
      "\<forall>j. k \<le> j \<and> j \<le> int (length t - 1) \<longrightarrow> minedBy < t ! nat j"
      "stops_at ?r ?blk 0 (int (length t - 1)) k"
    unfolding u by (auto simp: NewBlock_def)
  have "k \<noteq> 0" using k(4) [rule_format, of 0] assms(4) by auto
  with k(5) chain have "?r = Ret (NewBlock (int (nat (k - 1))) (t ! nat (k - 1)))"
    using k(1) by (auto simp: stops_at_def)
  moreover have "t ! nat (k - 1) \<le> minedBy" using k(1,3) \<open>k \<noteq> 0\<close> by simp
  moreover have "minedBy < t ! j" if "nat (k - 1) < j" "j < length t" for j
    using k(4) [rule_format, of "int j"] that by simp
  moreover have "nat (k - 1) < length t" using k(1,2) assms(1) \<open>k \<noteq> 0\<close> by (cases t) simp_all
  moreover have "BlockByNumber None t (int (length t)) = Panic"
    using assms(2) by (simp add: BlockByNumber_def index_def is_int64_def)
  ultimately show ?thesis by blast
qed

theorem LastBlockBy_BlockTimes_witness:
  "\<exists>m. LastBlockBy (\<lambda>m. case BlockByNumber None [10, 20, 30] m of Ret b \<Rightarrow> Inr b | _ \<Rightarrow> Inl [])
     (BlockTimes_BlockNumber None [10, 20, 30]) 25 None = Ret (NewBlock (int m) ([10, 20, 30] ! m)) \<and> m < 3"
  using LastBlockBy_BlockTimes [of "[10, 20, 30]" 25
      "\<lambda>m. case BlockByNumber None [10, 20, 30] m of Ret b \<Rightarrow> Inr b | _ \<Rightarrow> Inl []"]
  by auto

end
