(* ===== verification/Ipfs.thy ===== *)
theory Ipfs
  imports Prelude
begin

text \<open>
  The wrapper of the IPFS implementation (\<open>go/ipfs/ipfs.go\<close>). Kubo, libp2p and the multiaddress package are
  arguments. A file system is a finite tree at each root, whose directories may fail to be read and whose files may fail to
  open; \<open>fs.WalkDir\<close> is modelled with its second call for an unreadable directory. Handles that the code opens and
  closes are recorded, so that leaks can be stated.
\<close>

section \<open>Plugins, repositories and nodes\<close>

datatype ipfs_error =
    LoaderError string
  | InitializeError string
  | InjectError string
  | InitError string
  | NilRepoSet
  | RepoSet
  | OpenError string
  | NodeError string
  | ApiError string
  | MultiaddrError string string
  | AddrInfoError string
  | ContextError string
  | SubError string
  | AddError string

text \<open>The result, and whether the loader was closed.\<close>

definition LoadPlugins ::
  "(string \<Rightarrow> string + 'l) \<Rightarrow> ('l \<Rightarrow> string option) \<Rightarrow> ('l \<Rightarrow> string option) \<Rightarrow> string \<Rightarrow>
   (ipfs_error, 'l) outcome \<times> 'l list" where
  "LoadPlugins newLoader initialize inject repoPath =
     (case newLoader repoPath of
        Inl e \<Rightarrow> (Fail (LoaderError e), [])
      | Inr l \<Rightarrow>
          (case initialize l of
             Some e \<Rightarrow> (Fail (InitializeError e), [l])
           | None \<Rightarrow>
               (case inject l of
                  Some e \<Rightarrow> (Fail (InjectError e), [l])
                | None \<Rightarrow> (Ret l, []))))"

definition InitFS :: "(string \<Rightarrow> 'cfg \<Rightarrow> string option) \<Rightarrow> string \<Rightarrow> 'cfg \<Rightarrow> ipfs_error option" where
  "InitFS init repoPath cfg = map_option InitError (init repoPath cfg)"

record 'r build_cfg =
  NilRepo :: bool
  Repo :: "'r option"

record ('api, 'n) ipfs =
  CoreAPI :: 'api
  node :: 'n

text \<open>The configuration is the caller's: its repository is set.\<close>

definition FromFS ::
  "(string \<Rightarrow> string + 'r) \<Rightarrow> ('r build_cfg \<Rightarrow> string + 'n) \<Rightarrow> ('n \<Rightarrow> string + 'api) \<Rightarrow> string \<Rightarrow> 'r build_cfg \<Rightarrow>
   (ipfs_error, ('api, 'n) ipfs) outcome \<times> 'r build_cfg" where
  "FromFS open_repo newNode newCoreAPI repoPath nodeCfg =
     (if NilRepo nodeCfg then (Fail NilRepoSet, nodeCfg)
      else if Repo nodeCfg \<noteq> None then (Fail RepoSet, nodeCfg)
      else case open_repo repoPath of
        Inl e \<Rightarrow> (Fail (OpenError e), nodeCfg)
      | Inr repo \<Rightarrow>
          (let cfg = nodeCfg\<lparr>Repo := Some repo\<rparr> in
           (case newNode cfg of
              Inl e \<Rightarrow> Fail (NodeError e)
            | Inr n \<Rightarrow> (case newCoreAPI n of
                         Inl e \<Rightarrow> Fail (ApiError e)
                       | Inr api \<Rightarrow> Ret \<lparr>CoreAPI = api, node = n\<rparr>), cfg)))"

section \<open>Peers\<close>

text \<open>The map of the code, as an association list.\<close>

type_synonym ('i, 'm) peers = "('i \<times> 'm list) list"

definition addrs_of :: "('i, 'm) peers \<Rightarrow> 'i \<Rightarrow> 'm list" where
  "addrs_of ps i = (case map_of ps i of None \<Rightarrow> [] | Some as \<Rightarrow> as)"

fun group_addresses ::
  "(string \<Rightarrow> string + 'a) \<Rightarrow> ('a \<Rightarrow> string + 'i \<times> 'm list) \<Rightarrow> string list \<Rightarrow> ('i, 'm) peers \<Rightarrow>
   (ipfs_error, ('i, 'm) peers) outcome" where
  "group_addresses newMultiaddr addrInfo [] ps = Ret ps"
| "group_addresses newMultiaddr addrInfo (a # as) ps =
     (case newMultiaddr a of
        Inl e \<Rightarrow> Fail (MultiaddrError a e)
      | Inr ma \<Rightarrow>
          (case addrInfo ma of
             Inl e \<Rightarrow> Fail (AddrInfoError e)
           | Inr (i, ms) \<Rightarrow> group_addresses newMultiaddr addrInfo as (AList.update i (addrs_of ps i @ ms) ps)))"

text \<open>The peers are returned in the order \<open>rng\<close> in which the map is ranged over.\<close>

definition ParsePeerAddresses ::
  "(string \<Rightarrow> string + 'a) \<Rightarrow> ('a \<Rightarrow> string + 'i \<times> 'm list) \<Rightarrow> (('i, 'm) peers \<Rightarrow> ('i, 'm) peers) \<Rightarrow> string list \<Rightarrow>
   (ipfs_error, ('i, 'm) peers) outcome" where
  "ParsePeerAddresses newMultiaddr addrInfo rng addrs =
     obind (group_addresses newMultiaddr addrInfo addrs []) (\<lambda>ps. Ret (rng ps))"

text \<open>The error, if any, and the global variable afterwards.\<close>

definition ResetDefaultPeers ::
  "(string list \<Rightarrow> (ipfs_error, ('i, 'm) peers) outcome) \<Rightarrow> string list \<Rightarrow> string list \<Rightarrow> ('i, 'm) peers \<Rightarrow>
   (ipfs_error, unit) outcome \<times> ('i, 'm) peers" where
  "ResetDefaultPeers parse defaults extra DefaultPeers =
     (case parse (defaults @ extra) of
        Ret ps \<Rightarrow> (Ret (), ps)
      | Fail e \<Rightarrow> (Fail e, DefaultPeers)
      | Panic \<Rightarrow> (Panic, DefaultPeers))"

text \<open>\<open>init\<close> panics when the defaults do not parse.\<close>

definition ipfs_init ::
  "(string list \<Rightarrow> (ipfs_error, ('i, 'm) peers) outcome) \<Rightarrow> string list \<Rightarrow> (ipfs_error, ('i, 'm) peers) outcome" where
  "ipfs_init parse defaults =
     (case ResetDefaultPeers parse defaults [] [] of (Ret _, ps) \<Rightarrow> Ret ps | _ \<Rightarrow> Panic)"

text \<open>The goroutines add to the counter in the order in which they finish.\<close>

fun TryConnect :: "('p \<Rightarrow> string option) \<Rightarrow> 'p list \<Rightarrow> u64 \<Rightarrow> u64" where
  "TryConnect connect [] success = success"
| "TryConnect connect (p # ps) success =
     TryConnect connect ps (if connect p = None then success + 1 else success)"

text \<open>
  The loop asks the swarm until enough peers are connected or the context has ended. What the context and
  the swarm answer in round \<open>k\<close> are arguments.
\<close>

partial_function (option) WaitForConnections ::
  "(nat \<Rightarrow> string option) \<Rightarrow> (nat \<Rightarrow> string + nat) \<Rightarrow> int \<Rightarrow> nat \<Rightarrow> (ipfs_error option \<times> nat) option" where
  "WaitForConnections ctx_err swarmPeers min_peers k =
     (case ctx_err k of
        Some e \<Rightarrow> Some (Some (ContextError e), k)
      | None \<Rightarrow>
          (case swarmPeers k of
             Inl e \<Rightarrow> WaitForConnections ctx_err swarmPeers min_peers (k + 1)
           | Inr n \<Rightarrow>
               if min_peers \<le> int n then Some (None, k)
               else WaitForConnections ctx_err swarmPeers min_peers (k + 1)))"

section \<open>Adding a file system\<close>

datatype FSRootHandling = KeepFSRoot | StripFSRoot

text \<open>A file with what opening it gives; a directory with what \<open>ReadDir\<close> gives, its entries and perhaps an error.\<close>

datatype 'f fs_entry =
    FsFile "string + 'f"
  | FsDir "(string \<times> 'f fs_entry) list" "string option"

text \<open>\<open>fs.Stat\<close> of a path gives an error or the entry there.\<close>

record 'f filesystem =
  Stat :: "string \<Rightarrow> string + 'f fs_entry"

text \<open>The map of files that will be added, and the files to close.\<close>

type_synonym 'f collected = "(string \<times> 'f) list \<times> 'f list"

text \<open>
  The function that walks: an error that it is given, or that opening gives, is returned and ends the walk. The entry is
  nil when the root has none.
\<close>

definition walk_fn :: "string \<Rightarrow> 'f fs_entry option \<Rightarrow> string option \<Rightarrow> 'f collected \<Rightarrow> string option \<times> 'f collected" where
  "walk_fn path d err st =
     (case err of
        Some e \<Rightarrow> (Some e, st)
      | None \<Rightarrow>
          (case d of
             Some (FsFile (Inr f)) \<Rightarrow> (None, AList.update path f (fst st), snd st @ [f])
           | Some (FsFile (Inl e)) \<Rightarrow> (Some e, st)
           | _ \<Rightarrow> (None, st)))"

text \<open>\<open>path.Join\<close> of a path of the file system and the name of an entry.\<close>

definition path_Join :: "string \<Rightarrow> string \<Rightarrow> string" where
  "path_Join name n = (if name = ''.'' \<or> name = [] then n else name @ ''/'' @ n)"

text \<open>\<open>fs.WalkDir\<close> below its root: a directory is visited before it is read, and once more when reading it fails.\<close>

fun walkDir :: "string \<Rightarrow> 'f fs_entry \<Rightarrow> 'f collected \<Rightarrow> string option \<times> 'f collected"
  and walkEntries :: "string \<Rightarrow> (string \<times> 'f fs_entry) list \<Rightarrow> 'f collected \<Rightarrow> string option \<times> 'f collected" where
  "walkDir name (FsFile opn) st = walk_fn name (Some (FsFile opn)) None st"
| "walkDir name (FsDir es readErr) st =
     (case walk_fn name (Some (FsDir es readErr)) None st of
        (Some e, st1) \<Rightarrow> (Some e, st1)
      | (None, st1) \<Rightarrow>
          (case (if readErr = None then (None, st1) else walk_fn name (Some (FsDir es readErr)) readErr st1) of
             (Some e, st2) \<Rightarrow> (Some e, st2)
           | (None, st2) \<Rightarrow> walkEntries name es st2))"
| "walkEntries name [] st = (None, st)"
| "walkEntries name ((n, d) # es) st =
     (case walkDir (path_Join name n) d st of
        (Some e, st1) \<Rightarrow> (Some e, st1)
      | (None, st1) \<Rightarrow> walkEntries name es st1)"

definition WalkDir :: "'f filesystem \<Rightarrow> string \<Rightarrow> 'f collected \<Rightarrow> string option \<times> 'f collected" where
  "WalkDir fsys root st =
     (case Stat fsys root of
        Inl e \<Rightarrow> walk_fn root None (Some e) st
      | Inr d \<Rightarrow> walkDir root d st)"

text \<open>The result of adding the directory, and the files that are closed. The error of the walk is not used.\<close>

definition AddFS ::
  "('f filesystem \<Rightarrow> string \<Rightarrow> string + 'f filesystem) \<Rightarrow> ((string \<times> 'f) list \<Rightarrow> string + 'path) \<Rightarrow>
   'f filesystem \<Rightarrow> string \<Rightarrow> FSRootHandling \<Rightarrow> (ipfs_error, 'path) outcome \<times> 'f list" where
  "AddFS sub unixfsAdd fsys root_dir rh =
     (case (if rh = StripFSRoot then map_sum id (\<lambda>s. (s, ''.'')) (sub fsys root_dir) else Inr (fsys, root_dir)) of
        Inl e \<Rightarrow> (Fail (SubError e), [])
      | Inr (fs, r) \<Rightarrow>
          (case WalkDir fs r ([], []) of
             (err, dir, cls) \<Rightarrow>
               (case unixfsAdd dir of Inl e \<Rightarrow> Fail (AddError e) | Inr p \<Rightarrow> Ret p, cls)))"

section \<open>Facts\<close>

text \<open>The peer and the addresses that an address string gives.\<close>

definition parsed :: "(string \<Rightarrow> string + 'a) \<Rightarrow> ('a \<Rightarrow> string + 'i \<times> 'm list) \<Rightarrow> string \<Rightarrow> ('i \<times> 'm list) option" where
  "parsed newMultiaddr addrInfo a =
     (case newMultiaddr a of
        Inl e \<Rightarrow> None
      | Inr ma \<Rightarrow> (case addrInfo ma of Inl e \<Rightarrow> None | Inr p \<Rightarrow> Some p))"

definition addrs_with :: "('i \<times> 'm list) list \<Rightarrow> 'i \<Rightarrow> 'm list" where
  "addrs_with ps i = concat (map snd (filter (\<lambda>p. fst p = i) ps))"

lemma addrs_of_update: "addrs_of (AList.update i ms ps) j = (if j = i then ms else addrs_of ps j)"
  by (simp add: addrs_of_def update_conv')

lemma addrs_of_mem: "distinct (map fst ps) \<Longrightarrow> (i, ms) \<in> set ps \<Longrightarrow> addrs_of ps i = ms"
  by (simp add: addrs_of_def)

lemma group_addresses_Ret:
  "(\<exists>ps'. group_addresses nm ai as ps = Ret ps') \<longleftrightarrow> (\<forall>a \<in> set as. parsed nm ai a \<noteq> None)"
  by (induction nm ai as ps rule: group_addresses.induct) (auto simp: parsed_def split: sum.splits)

lemma group_addresses_groups:
  "group_addresses nm ai as ps = Ret ps' \<Longrightarrow> distinct (map fst ps) \<Longrightarrow>
     distinct (map fst ps') \<and>
     fst ` set ps' = fst ` set ps \<union> fst ` set (map (\<lambda>a. the (parsed nm ai a)) as) \<and>
     (\<forall>i. addrs_of ps' i = addrs_of ps i @ addrs_with (map (\<lambda>a. the (parsed nm ai a)) as) i)"
proof (induction nm ai as ps rule: group_addresses.induct)
  case (2 nm ai a as ps)
  then obtain ma i ms where p: "nm a = Inr ma" "ai ma = Inr (i, ms)"
    and run: "group_addresses nm ai as (AList.update i (addrs_of ps i @ ms) ps) = Ret ps'"
    by (auto split: sum.splits)
  have "parsed nm ai a = Some (i, ms)" by (simp add: parsed_def p)
  with "2.IH" [OF p refl run] "2.prems"(2) show ?case
    by (auto simp: addrs_of_update addrs_with_def keys_update distinct_update)
qed (simp add: addrs_with_def)

text \<open>
  Specification of a walk: everything below a path in the order of the walk, files with what opening them gives and
  unreadable directories with their error.
\<close>

fun listing :: "string \<Rightarrow> 'f fs_entry \<Rightarrow> (string \<times> (string + 'f)) list"
  and listings :: "string \<Rightarrow> (string \<times> 'f fs_entry) list \<Rightarrow> (string \<times> (string + 'f)) list" where
  "listing name (FsFile opn) = [(name, opn)]"
| "listing name (FsDir es readErr) = (case readErr of Some e \<Rightarrow> [(name, Inl e)] | None \<Rightarrow> listings name es)"
| "listings name [] = []"
| "listings name ((n, d) # es) = listing (path_Join name n) d @ listings name es"

text \<open>The files before the first error.\<close>

fun before_error :: "(string \<times> (string + 'f)) list \<Rightarrow> (string \<times> 'f) list" where
  "before_error [] = []"
| "before_error ((p, Inl e) # xs) = []"
| "before_error ((p, Inr f) # xs) = (p, f) # before_error xs"

definition clean :: "(string \<times> (string + 'f)) list \<Rightarrow> bool" where
  "clean xs \<longleftrightarrow> list_all (\<lambda>(p, r). case r of Inl e \<Rightarrow> False | Inr f \<Rightarrow> True) xs"

lemma before_error_append: "before_error (xs @ ys) = before_error xs @ (if clean xs then before_error ys else [])"
  by (induction xs rule: before_error.induct) (auto simp: clean_def)

lemma before_error_paths: "fst ` set (before_error xs) \<subseteq> fst ` set xs"
  by (induction xs rule: before_error.induct) auto

lemma distinct_before_error: "distinct (map fst xs) \<Longrightarrow> distinct (map fst (before_error xs))"
proof (induction xs rule: before_error.induct)
  case (3 p f xs)
  then show ?case using before_error_paths [of xs] by auto
qed simp_all

lemma disjoint_parts: "A' \<subseteq> A \<Longrightarrow> A \<inter> B = {} \<Longrightarrow> C \<inter> (A \<union> B) = {} \<Longrightarrow> A' \<inter> B = {} \<and> C \<inter> (A' \<union> B) = {}"
  by blast

lemma distinct_walked:
  assumes "distinct (map fst ps @ map fst xs @ map fst ys)"
  shows "distinct (map fst (ps @ before_error xs) @ map fst ys)"
  using assms disjoint_parts [OF before_error_paths, of xs "fst ` set ys" "fst ` set ps"] distinct_before_error [of xs]
  by simp

text \<open>What \<open>fs.FS\<close> demands of the names of entries.\<close>

definition valid_name :: "string \<Rightarrow> bool" where
  "valid_name n \<longleftrightarrow> n \<noteq> [] \<and> n \<noteq> ''.'' \<and> CHR ''/'' \<notin> set n"

fun wf_entry :: "'f fs_entry \<Rightarrow> bool"
  and wf_entries :: "(string \<times> 'f fs_entry) list \<Rightarrow> bool" where
  "wf_entry (FsFile opn) = True"
| "wf_entry (FsDir es readErr) = (distinct (map fst es) \<and> wf_entries es)"
| "wf_entries [] = True"
| "wf_entries ((n, d) # es) = (valid_name n \<and> wf_entry d \<and> wf_entries es)"

definition below :: "string \<Rightarrow> string \<Rightarrow> bool" where
  "below a p \<longleftrightarrow> p = a \<or> (\<exists>s. p = a @ CHR ''/'' # s)"

lemma below_path_Join: "below (path_Join name n) p \<Longrightarrow> name \<noteq> ''.'' \<Longrightarrow> name \<noteq> [] \<Longrightarrow> below name p"
  by (auto simp: below_def path_Join_def)

lemma path_Join_proper: "valid_name n \<Longrightarrow> path_Join name n \<noteq> ''.'' \<and> path_Join name n \<noteq> []"
proof (cases "name = ''.'' \<or> name = []")
  case False
  then obtain c cs where "name = c # cs" by (cases name) auto
  then show "valid_name n \<Longrightarrow> ?thesis" using False by (auto simp: path_Join_def valid_name_def)
qed (auto simp: path_Join_def valid_name_def)

text \<open>Paths below different entries of a directory differ.\<close>

lemma below_disjoint:
  assumes "valid_name m" "valid_name n" "below (path_Join name m) p" "below (path_Join name n) p"
  shows "m = n"
proof -
  define pre where "pre = (if name = ''.'' \<or> name = [] then [] else name @ ''/'')"
  have join: "path_Join name k = pre @ k" for k by (simp add: path_Join_def pre_def)
  have first: "takeWhile (\<lambda>c. c \<noteq> CHR ''/'') (drop (length pre) p) = k" if v: "valid_name k" and b: "below (path_Join name k) p" for k
  proof -
    have k: "c \<noteq> CHR ''/''" if "c \<in> set k" for c using v that by (auto simp: valid_name_def)
    obtain rest where p: "p = pre @ k @ rest" and rest: "rest = [] \<or> (\<exists>s. rest = CHR ''/'' # s)"
      using b unfolding below_def join by auto
    have "takeWhile (\<lambda>c. c \<noteq> CHR ''/'') (k @ rest) = k @ takeWhile (\<lambda>c. c \<noteq> CHR ''/'') rest"
      by (rule takeWhile_append2) (rule k)
    also have "takeWhile (\<lambda>c. c \<noteq> CHR ''/'') rest = []" using rest by auto
    finally show ?thesis by (simp add: p)
  qed
  show ?thesis using first assms by metis
qed

lemma listing_below:
  fixes d :: "'f fs_entry" and es :: "(string \<times> 'f fs_entry) list"
  shows "wf_entry d \<Longrightarrow> name \<noteq> ''.'' \<Longrightarrow> name \<noteq> [] \<Longrightarrow> x \<in> set (listing name d) \<Longrightarrow> below name (fst x)"
    and "wf_entries es \<Longrightarrow> x \<in> set (listings name es) \<Longrightarrow> \<exists>(n, d) \<in> set es. valid_name n \<and> below (path_Join name n) (fst x)"
proof (induction name d and name es rule: listing_listings.induct)
  case (2 name es readErr)
  show ?case
  proof (cases readErr)
    case None
    then have "\<exists>(n, d) \<in> set es. valid_name n \<and> below (path_Join name n) (fst x)" using 2 by simp
    then show ?thesis using 2 below_path_Join by blast
  qed (use 2 in \<open>auto simp: below_def\<close>)
next
  case (4 name n d es)
  then show ?case using path_Join_proper [of n name] by auto
qed (auto simp: below_def)

lemma listing_distinct:
  fixes d :: "'f fs_entry" and es :: "(string \<times> 'f fs_entry) list"
  shows "wf_entry d \<Longrightarrow> distinct (map fst (listing name d))"
    and "wf_entries es \<Longrightarrow> distinct (map fst es) \<Longrightarrow> distinct (map fst (listings name es))"
proof (induction name d and name es rule: listing_listings.induct)
  case (4 name n d es)
  have "fst x \<noteq> fst y" if x: "x \<in> set (listing (path_Join name n) d)" and y: "y \<in> set (listings name es)" for x y
  proof
    assume eq: "fst x = fst y"
    obtain m d' where m: "(m, d') \<in> set es" "valid_name m" "below (path_Join name m) (fst y)"
      using listing_below(2) [of es y name] 4 y by auto
    have "below (path_Join name n) (fst x)"
      using listing_below(1) [of d "path_Join name n" x] path_Join_proper [of n name] 4 x by simp
    then have "m = n" using below_disjoint [of m n name "fst x"] m 4 eq by simp
    then show False using m(1) 4 by force
  qed
  then have "fst ` set (listing (path_Join name n) d) \<inter> fst ` set (listings name es) = {}" by blast
  then show ?case using 4 by simp
qed (auto split: option.splits)

text \<open>The walk collects the files before the first error, and fails exactly when there is one.\<close>

lemma walk_listing:
  fixes d :: "'f fs_entry" and es :: "(string \<times> 'f fs_entry) list"
  shows "distinct (map fst (fst st) @ map fst (listing name d)) \<Longrightarrow>
      \<exists>err. walkDir name d st = (err, fst st @ before_error (listing name d), snd st @ map snd (before_error (listing name d))) \<and>
        (err = None \<longleftrightarrow> clean (listing name d))"
    and "distinct (map fst (fst st) @ map fst (listings name es)) \<Longrightarrow>
      \<exists>err. walkEntries name es st = (err, fst st @ before_error (listings name es), snd st @ map snd (before_error (listings name es))) \<and>
        (err = None \<longleftrightarrow> clean (listings name es))"
proof (induction name d st and name es st rule: walkDir_walkEntries.induct)
  case (1 name opn st)
  then show ?case by (cases opn) (auto simp: walk_fn_def clean_def update_fresh)
next
  case (2 name es readErr st)
  then show ?case by (cases readErr) (auto simp: walk_fn_def clean_def)
next
  case (4 name n d es st)
  let ?l = "listing (path_Join name n) d"
  have distinct_join: "distinct (map fst (fst st) @ map fst ?l)" using 4(3) by auto
  obtain err where err: "walkDir (path_Join name n) d st = (err, fst st @ before_error ?l, snd st @ map snd (before_error ?l))"
    "err = None \<longleftrightarrow> clean ?l"
    using 4(1) [OF distinct_join] by blast
  show ?case
  proof (cases err)
    case None
    let ?st1 = "(fst st @ before_error ?l, snd st @ map snd (before_error ?l))"
    have "distinct (map fst (fst ?st1) @ map fst (listings name es))"
      using distinct_walked [of "fst st" ?l "listings name es"] 4(3) by simp
    note rest = 4(2) [OF err(1) [symmetric] None this]
    then show ?thesis using err None by (auto simp: before_error_append clean_def)
  next
    case (Some e)
    then show ?thesis using err by (simp add: before_error_append) (simp add: clean_def)
  qed
qed (simp add: clean_def)

lemma TryConnect_count: "TryConnect connect ps n = n + of_nat (length (filter (\<lambda>p. connect p = None) ps))"
  by (induction connect ps n rule: TryConnect.induct) (auto simp: algebra_simps)

text \<open>The loader is closed exactly when an error follows its creation.\<close>

lemma LoadPlugins_closes:
  "newLoader path = Inr l \<Longrightarrow>
     snd (LoadPlugins newLoader initialize inject path) = [] \<longleftrightarrow> fst (LoadPlugins newLoader initialize inject path) = Ret l"
  by (simp add: LoadPlugins_def split: option.splits)

text \<open>Waiting ends at the first round in which the context has ended or enough peers are connected.\<close>

lemma WaitForConnections_first:
  assumes "\<And>j. k \<le> j \<Longrightarrow> j < n \<Longrightarrow> ctx_err j = None \<and> (\<forall>m. sw j = Inr m \<longrightarrow> int m < min_peers)"
    and "ctx_err n \<noteq> None \<or> (\<exists>m. sw n = Inr m \<and> min_peers \<le> int m)" and "k \<le> n"
  shows "WaitForConnections ctx_err sw min_peers k = Some (map_option ContextError (ctx_err n), n)"
  using assms
proof (induction "n - k" arbitrary: k)
  case 0
  then have "k = n" by simp
  with 0 show ?case by (subst WaitForConnections.simps) (auto split: option.splits)
next
  case (Suc d)
  have "d = n - (k + 1)" "k + 1 \<le> n" using Suc.hyps(2) by simp_all
  then have "WaitForConnections ctx_err sw min_peers (k + 1) = Some (map_option ContextError (ctx_err n), n)"
    using Suc.prems(2) by (intro Suc.hyps(1) Suc.prems(1)) simp_all
  moreover have "ctx_err k = None \<and> (\<forall>m. sw k = Inr m \<longrightarrow> int m < min_peers)"
    using Suc.hyps(2) by (intro Suc.prems(1)) simp_all
  ultimately show ?case by (subst WaitForConnections.simps) (auto split: sum.splits)
qed

section \<open>Properties\<close>

text \<open>Parsing peer addresses succeeds exactly when every string parses. It then returns each peer once, with
  all its addresses in the order of the arguments, in whatever order the map is ranged over.\<close>

theorem ParsePeerAddresses_groups:
  assumes rng: "\<And>ps. mset (rng ps) = mset ps"
  shows "((\<exists>ps. ParsePeerAddresses nm ai rng as = Ret ps) \<longleftrightarrow> (\<forall>a \<in> set as. parsed nm ai a \<noteq> None)) \<and>
    (\<forall>ps. ParsePeerAddresses nm ai rng as = Ret ps \<longrightarrow>
       distinct (map fst ps) \<and> fst ` set ps = fst ` set (map (\<lambda>a. the (parsed nm ai a)) as) \<and>
       (\<forall>(i, ms) \<in> set ps. ms = addrs_with (map (\<lambda>a. the (parsed nm ai a)) as) i))"
proof (intro conjI allI impI)
  show "(\<exists>ps. ParsePeerAddresses nm ai rng as = Ret ps) \<longleftrightarrow> (\<forall>a \<in> set as. parsed nm ai a \<noteq> None)"
    using group_addresses_Ret [of nm ai as "[]"] by (auto simp: ParsePeerAddresses_def outcome_simps)
next
  fix ps
  assume "ParsePeerAddresses nm ai rng as = Ret ps"
  then obtain ps0 where run: "group_addresses nm ai as [] = Ret ps0" and ps: "ps = rng ps0"
    by (auto simp: ParsePeerAddresses_def outcome_simps)
  have same: "set ps = set ps0" unfolding ps by (rule mset_eq_setD [OF rng])
  have "mset (map fst ps) = mset (map fst ps0)" by (simp add: ps rng)
  note g = group_addresses_groups [OF run]
  then show "distinct (map fst ps)" using \<open>mset (map fst ps) = _\<close> by (metis distinct.simps(1) list.simps(8) mset_eq_imp_distinct_iff)
  show "fst ` set ps = fst ` set (map (\<lambda>a. the (parsed nm ai a)) as)" using g by (simp add: same)
  show "\<forall>(i, ms) \<in> set ps. ms = addrs_with (map (\<lambda>a. the (parsed nm ai a)) as) i"
    using g addrs_of_mem [of ps0] by (fastforce simp: same addrs_of_def)
qed

theorem ParsePeerAddresses_groups_witness:
  "ParsePeerAddresses Inr (\<lambda>a. Inr (hd a, [tl a])) rev [''a1'', ''b2'', ''a3''] = Ret [(CHR ''b'', [''2'']), (CHR ''a'', [''1'', ''3''])] \<and>
   [''1'', ''3''] = addrs_with (map (\<lambda>a. the (parsed Inr (\<lambda>a. Inr (hd a, [tl a])) a)) [''a1'', ''b2'', ''a3'']) (CHR ''a'')"
proof -
  have run: "ParsePeerAddresses Inr (\<lambda>a. Inr (hd a, [tl a])) rev [''a1'', ''b2'', ''a3''] =
      Ret [(CHR ''b'', [''2'']), (CHR ''a'', [''1'', ''3''])]"
    by (simp add: ParsePeerAddresses_def addrs_of_def)
  have "mset (rev ps) = mset ps" for ps :: "(char \<times> string list) list" by simp
  from ParsePeerAddresses_groups [of rev, OF this, THEN conjunct2, rule_format, OF run] run show ?thesis by simp
qed

text \<open>What a root holds for a walk that starts at a path.\<close>

definition walk_results :: "string \<Rightarrow> string + 'f fs_entry \<Rightarrow> (string \<times> (string + 'f)) list" where
  "walk_results path st = (case st of Inl e \<Rightarrow> [(path, Inl e)] | Inr d \<Rightarrow> listing path d)"

lemma WalkDir_results:
  assumes "\<And>d. Stat fsys r = Inr d \<Longrightarrow> wf_entry d"
  shows "\<exists>err. WalkDir fsys r ([], []) =
     (err, before_error (walk_results r (Stat fsys r)), map snd (before_error (walk_results r (Stat fsys r))))"
proof (cases "Stat fsys r")
  case (Inl e)
  then show ?thesis by (simp add: WalkDir_def walk_fn_def walk_results_def)
next
  case (Inr d)
  then have "distinct (map fst (listing r d))" by (intro listing_distinct(1) assms)
  then show ?thesis using Inr walk_listing(1) [of "([], [])" r d] by (auto simp: WalkDir_def walk_results_def)
qed

text \<open>C31. Adding a file system, for either handling of its root: unless its sub-tree cannot be formed, \<open>AddFS\<close> adds the files that come before the
  first error in the order of the walk, where an error is a root without entry, a directory that cannot be read or a file that
  cannot be opened. It does not report that error: the result is that of adding these files. It closes exactly the files that it opened.
  Entries have the names that \<open>fs.FS\<close> allows, and \<open>fs.Sub\<close> shows the sub-tree at the root.\<close>

theorem AddFS_partial:
  assumes sub: "\<And>s. sub fsys r = Inr s \<Longrightarrow> Stat s ''.'' = Stat fsys r"
    and wf: "\<And>d. Stat fsys r = Inr d \<Longrightarrow> wf_entry d"
  shows "AddFS sub unixfsAdd fsys r rh =
    (case (if rh = StripFSRoot then map_sum id (\<lambda>s. ''.'') (sub fsys r) else Inr r) of
       Inl e \<Rightarrow> (Fail (SubError e), [])
     | Inr start \<Rightarrow>
         (let files = before_error (walk_results start (Stat fsys r)) in
          (case unixfsAdd files of Inl e \<Rightarrow> Fail (AddError e) | Inr p \<Rightarrow> Ret p, map snd files)))"
proof (cases rh)
  case KeepFSRoot
  obtain err where "WalkDir fsys r ([], []) =
     (err, before_error (walk_results r (Stat fsys r)), map snd (before_error (walk_results r (Stat fsys r))))"
    using WalkDir_results [of fsys r] wf by blast
  then show ?thesis using KeepFSRoot by (simp add: AddFS_def Let_def)
next
  case StripFSRoot
  show ?thesis
  proof (cases "sub fsys r")
    case (Inr s)
    obtain err where "WalkDir s ''.'' ([], []) =
       (err, before_error (walk_results ''.'' (Stat fsys r)), map snd (before_error (walk_results ''.'' (Stat fsys r))))"
      using WalkDir_results [of s "''.''"] wf sub [OF Inr] by auto
    then show ?thesis using StripFSRoot Inr by (simp add: AddFS_def Let_def)
  qed (simp add: StripFSRoot AddFS_def)
qed

text \<open>Of three entries the second is a directory that cannot be read: only the first is added.\<close>

definition demo_tree :: "string fs_entry" where
  "demo_tree = FsDir [(''a'', FsFile (Inr ''A'')), (''b'', FsDir [] (Some ''denied'')), (''c'', FsFile (Inr ''C''))] None"

definition demo_fs :: "string filesystem" where
  "demo_fs = \<lparr>Stat = (\<lambda>p. if p = ''site'' then Inr demo_tree else Inl ''not found'')\<rparr>"

theorem AddFS_partial_witness:
  "AddFS (\<lambda>f r. Inr \<lparr>Stat = (\<lambda>p. Stat f r)\<rparr>) (\<lambda>d. Inr (map fst d)) demo_fs ''site'' KeepFSRoot = (Ret [''site/a''], [''A'']) \<and>
   AddFS (\<lambda>f r. Inr \<lparr>Stat = (\<lambda>p. Stat f r)\<rparr>) (\<lambda>d. Inr (map fst d)) demo_fs ''site'' StripFSRoot = (Ret [''a''], [''A''])"
proof -
  let ?sub = "\<lambda>(f :: string filesystem) r. Inr \<lparr>Stat = (\<lambda>p. Stat f r)\<rparr> :: string + string filesystem"
  have "Stat s ''.'' = Stat demo_fs ''site''" if "?sub demo_fs ''site'' = Inr s" for s using that by auto
  moreover have "wf_entry d" if "Stat demo_fs ''site'' = Inr d" for d
    using that by (auto simp: demo_fs_def demo_tree_def valid_name_def)
  moreover have "before_error (walk_results ''site'' (Stat demo_fs ''site'')) = [(''site/a'', ''A'')]"
    "before_error (walk_results ''.'' (Stat demo_fs ''site'')) = [(''a'', ''A'')]"
    by (simp_all add: walk_results_def demo_fs_def demo_tree_def path_Join_def)
  ultimately show ?thesis
    using AddFS_partial [of ?sub demo_fs "''site''" "\<lambda>d. Inr (map fst d)" KeepFSRoot]
      AddFS_partial [of ?sub demo_fs "''site''" "\<lambda>d. Inr (map fst d)" StripFSRoot] by simp
qed

end
