(* ===== verification/Services.thy ===== *)
theory Services
  imports HydrantService Secrets
begin

text \<open>
  Programs and connections around the packages: dialling Ethereum nodes and splitting reads from writes
  (\<open>go/eth/client.go\<close>), and the Hydrant binary (\<open>go/firehose/hydrant/main.go\<close>).
\<close>

section \<open>Ethereum nodes\<close>

record 'g dialer_cfg =
  nodeURL :: secret
  secretOpts :: "'g secret_option list"

definition DialerFlag :: string where "DialerFlag = ''dialer_eth_node_url''"

datatype client_error = AlreadyParsed | FetchURL secret_error | DialURL string

text \<open>
  A flag set: whether it was parsed, and the flags that were defined, with their values. The dialer
  reads the value of the flag when it dials; a name that is defined twice panics in the flag package.
\<close>

record flag_set =
  Parsed :: bool
  flags :: "(string \<times> secret) list"

definition NewDialerFromFlag ::
  "flag_set \<Rightarrow> secret option \<Rightarrow> 'g secret_option list \<Rightarrow> (client_error, 'g secret_option list \<times> flag_set) outcome" where
  "NewDialerFromFlag fs defaultNodeURL opts =
     (if Parsed fs then Fail AlreadyParsed
      else if map_of (flags fs) DialerFlag \<noteq> None then Panic
      else Ret (opts, fs\<lparr>flags := (DialerFlag, case defaultNodeURL of None \<Rightarrow> \<lparr>Source = [], ID = []\<rparr> | Some u \<Rightarrow> u) # flags fs\<rparr>))"

definition MustNewDialerFromFlag ::
  "flag_set \<Rightarrow> secret option \<Rightarrow> 'g secret_option list \<Rightarrow> (client_error, 'g secret_option list \<times> flag_set) outcome" where
  "MustNewDialerFromFlag fs d opts = (case NewDialerFromFlag fs d opts of Ret x \<Rightarrow> Ret x | _ \<Rightarrow> Panic)"

definition NewDialer :: "secret \<Rightarrow> 'g secret_option list \<Rightarrow> 'g dialer_cfg" where
  "NewDialer u opts = \<lparr>nodeURL = u, secretOpts = opts\<rparr>"

definition Dialer_Dial :: "'g secret_env \<Rightarrow> (bytes \<Rightarrow> string + 'c) \<Rightarrow> 'g dialer_cfg \<Rightarrow> (client_error, 'c) outcome" where
  "Dialer_Dial env dialContext c =
     obind (map_fail FetchURL (Fetch env (nodeURL c) (secretOpts c))) (\<lambda>u.
       case dialContext u of Inl e \<Rightarrow> Fail (DialURL e) | Inr cl \<Rightarrow> Ret cl)"

text \<open>The methods of a contract backend; a backend answers them on its own state.\<close>

datatype 'a backend_call =
    CodeAt 'a
  | CallContract 'a
  | HeaderByNumber 'a
  | PendingCodeAt 'a
  | PendingNonceAt 'a
  | SuggestGasPrice
  | SuggestGasTipCap
  | EstimateGas 'a
  | SendTransaction 'a
  | FilterLogs 'a
  | SubscribeFilterLogs 'a

fun is_write :: "'a backend_call \<Rightarrow> bool" where
  "is_write (SendTransaction a) = True"
| "is_write (EstimateGas a) = True"
| "is_write _ = False"

type_synonym ('a, 'r, 's) backend = "'a backend_call \<Rightarrow> 's \<Rightarrow> 'r \<times> 's"

text \<open>The embedded backend answers every method but the two that are redefined.\<close>

fun RWDemuxBackend :: "('a, 'r, 's) backend \<Rightarrow> ('a, 'r, 't) backend \<Rightarrow> ('a, 'r, 's \<times> 't) backend" where
  "RWDemuxBackend r w (SendTransaction a) (s, t) = (case w (SendTransaction a) t of (x, t') \<Rightarrow> (x, s, t'))"
| "RWDemuxBackend r w (EstimateGas a) (s, t) = (case w (EstimateGas a) t of (x, t') \<Rightarrow> (x, s, t'))"
| "RWDemuxBackend r w c (s, t) = (case r c s of (x, s') \<Rightarrow> (x, s', t))"

fun run_calls :: "('a, 'r, 's) backend \<Rightarrow> 'a backend_call list \<Rightarrow> 's \<Rightarrow> 'r list \<times> 's" where
  "run_calls b [] s = ([], s)"
| "run_calls b (c # cs) s = (case b c s of (x, s') \<Rightarrow> case run_calls b cs s' of (xs, s'') \<Rightarrow> (x # xs, s''))"

section \<open>The Hydrant binary\<close>

datatype hydrant_run_error =
    UnknownNetwork string
  | FetchAPIKey secret_error
  | DialFailed dial_error
  | ListenError string
  | ServeError string
  | CleanupError string

record hydrant_cfg =
  ethChain :: string
  firehoseAPIKey :: secret
  grpcStreamTimeout :: int
  port :: int

text \<open>What happens after dialling: listening on an address, and serving with a handler until it ends.\<close>

record 'c grpc_host =
  net_Listen :: "string \<Rightarrow> string option"
  Serve :: "'c eth_handler \<Rightarrow> string option"

definition Mainnet :: string where "Mainnet = ''mainnet''"
definition Goerli :: string where "Goerli = ''goerli''"

definition serve_hydrant :: "'c grpc_host \<Rightarrow> int \<Rightarrow> 'c eth_handler \<Rightarrow> hydrant_run_error option" where
  "serve_hydrant host p srv =
     (case net_Listen host ('':'' @ Text p 10) of
        Some e \<Rightarrow> Some (ListenError e)
      | None \<Rightarrow> map_option ServeError (Serve host srv))"

text \<open>The result, and the connection that the deferred clean-up closed; its error counts only when there is no other.\<close>

definition hydrant_run ::
  "'g secret_env \<Rightarrow> ('o, 'c) dialer \<Rightarrow> ('c \<Rightarrow> string option) \<Rightarrow> (int \<Rightarrow> 'o) \<Rightarrow> 'c grpc_host \<Rightarrow> hydrant_cfg \<Rightarrow>
   (hydrant_run_error, unit) outcome \<times> 'c option" where
  "hydrant_run env dl close_conn withTimeout host cfg =
     (if ethChain cfg \<noteq> Mainnet \<and> ethChain cfg \<noteq> Goerli then (Fail (UnknownNetwork (ethChain cfg)), None)
      else
        let dial = (if ethChain cfg = Mainnet then ETHMainnetServer dl close_conn else ETHGoerliServer dl close_conn);
            opts = (if grpcStreamTimeout cfg > 0 then [withTimeout (grpcStreamTimeout cfg)] else [])
        in case Fetch env (firehoseAPIKey cfg) [] of
             Fail e \<Rightarrow> (Fail (FetchAPIKey e), None)
           | Panic \<Rightarrow> (Panic, None)
           | Ret key \<Rightarrow>
               (case dial (bytes_text key) opts of
                  (Fail e, cleanup) \<Rightarrow> (Fail (DialFailed e), None)
                | (Panic, cleanup) \<Rightarrow> (Panic, None)
                | (Ret srv, cleanup) \<Rightarrow>
                    (case serve_hydrant host (port cfg) srv of
                       Some e \<Rightarrow> Fail e
                     | None \<Rightarrow> (case cleanup of Some e \<Rightarrow> Fail (CleanupError e) | None \<Rightarrow> Ret ()),
                     Some (conn (hproxy srv)))))"

section \<open>Facts\<close>

lemma run_calls_state: "snd (run_calls b (c # cs) s) = snd (run_calls b cs (snd (b c s)))"
  by (simp split: prod.split)

lemma RWDemuxBackend_state:
  "snd (RWDemuxBackend r w c (s, t)) = (if is_write c then (s, snd (w c t)) else (snd (r c s), t))"
  by (cases c) (simp_all split: prod.split)

lemmas hydrant_dialling = ETHMainnetServer_def ETHGoerliServer_def ETHServer_def dial_handler_def Dial_proxy_def Dial_def
  DefaultDialOptions_def Proxy_Close_def

section \<open>Properties\<close>

text \<open>A split backend keeps the two backends apart: after any sequence of calls the read backend has
  answered exactly the calls other than sending a transaction and estimating gas, the write backend exactly
  these two kinds, each in order, and neither has seen anything else.\<close>

theorem RWDemuxBackend_separates:
  "snd (run_calls (RWDemuxBackend r w) cs (s, t)) =
     (snd (run_calls r (filter (\<lambda>c. \<not> is_write c) cs) s), snd (run_calls w (filter is_write cs) t))"
proof (induction cs arbitrary: s t)
  case (Cons c cs)
  show ?case
    unfolding run_calls_state RWDemuxBackend_state by (cases "is_write c") (simp_all add: Cons.IH run_calls_state del: run_calls.simps)
qed simp

text \<open>The Hydrant binary closes its connection exactly once whenever it has one, whatever ends it, and reports the error of closing
  only when nothing else failed. With a stream timeout, the timeout is the only dial option: the connection
  then has neither the transport credentials nor the tokens of the production options.\<close>

theorem hydrant_run_closes:
  assumes "ethChain cfg = Mainnet" and "Fetch env (firehoseAPIKey cfg) [] = Ret key"
  shows "(\<forall>c. snd (hydrant_run env dl close_conn withTimeout host cfg) = Some c \<longleftrightarrow>
     (if grpcStreamTimeout cfg > 0
      then grpc_dial dl ETHMainnetURL [withTimeout (grpcStreamTimeout cfg)] = Inr c
      else SystemCertPool dl = None \<and> grpc_dial dl ETHMainnetURL (prod_options dl TokenURL (bytes_text key)) = Inr c)) \<and>
   (\<forall>e. fst (hydrant_run env dl close_conn withTimeout host cfg) = Fail (CleanupError e) \<longleftrightarrow>
     (\<exists>c. snd (hydrant_run env dl close_conn withTimeout host cfg) = Some c \<and> close_conn c = Some e \<and>
       serve_hydrant host (port cfg) \<lparr>hproxy = \<lparr>conn = c\<rparr>\<rparr> = None))"
  using assms
  by (auto simp: hydrant_run_def hydrant_dialling serve_hydrant_def split: option.splits sum.splits if_splits)

theorem hydrant_run_closes_witness:
  "snd (hydrant_run (\<lparr>LookupEnv = Map.empty, AccessSecret = \<lambda>_ _. Inl []\<rparr> :: unit secret_env)
       \<lparr>SystemCertPool = None, prod_options = \<lambda>_ _. [1, 2], grpc_dial = \<lambda>_ os. Inr (length os)\<rparr> (\<lambda>_. Some ''busy'') (\<lambda>_. 3 :: nat)
       \<lparr>net_Listen = \<lambda>_. None, Serve = \<lambda>_. None\<rparr>
       \<lparr>ethChain = Mainnet, firehoseAPIKey = \<lparr>Source = Raw, ID = ''k''\<rparr>, grpcStreamTimeout = 0, port = 80\<rparr>) = Some 2"
proof -
  let ?cfg = "\<lparr>ethChain = Mainnet, firehoseAPIKey = \<lparr>Source = Raw, ID = ''k''\<rparr>, grpcStreamTimeout = 0, port = 80\<rparr>"
  let ?env = "\<lparr>LookupEnv = Map.empty, AccessSecret = \<lambda>_ _. Inl []\<rparr> :: unit secret_env"
  have "Fetch ?env (firehoseAPIKey ?cfg) [] = Ret (text_bytes ''k'')" by (simp add: Fetch_def Raw_def GCP_def)
  from hydrant_run_closes [OF _ this, of "\<lparr>SystemCertPool = None, prod_options = \<lambda>_ _. [1, 2], grpc_dial = \<lambda>_ os. Inr (length os)\<rparr>"
      "\<lambda>_. Some ''busy''" "\<lambda>_. 3 :: nat" "\<lparr>net_Listen = \<lambda>_. None, Serve = \<lambda>_. None\<rparr>"]
  show ?thesis by simp
qed

end
