(* ===== verification/GrpcTest.thy ===== *)
theory GrpcTest
  imports Prelude
begin

text \<open>
  In-memory gRPC servers for tests (\<open>go/grpctest/grpctest.go\<close>): registration by reflection, and the life of a
  server that runs in its own goroutine. The reflected type of a value is given by what the code asks of
  it. \<open>GracefulStop\<close> refuses new RPCs and blocks until the pending ones have finished; it makes \<open>Serve\<close> return, also
  when \<open>Serve\<close> is called later. Clients start RPCs and their handlers finish them as steps of their own.
\<close>

section \<open>Registration by reflection\<close>

datatype kind = KChan | KFunc | KInterface | KMap | KPtr | KSlice | KOther

text \<open>A value in an interface: its kind, whether it is nil, its type and, for functions, its parameters.\<close>

record 't dynamic =
  kind_of :: kind
  is_nil_value :: bool
  dyn_type :: 't
  In :: "'t list"
  NumOut :: nat

datatype register_error =
    NilFunction
  | NilImplementation
  | NotFunction kind
  | InputCount nat
  | OutputCount nat
  | NotAssignable nat
  | Recovered

text \<open>\<open>reflect.Value.IsNil\<close> panics for kinds that have no nil.\<close>

definition isNil :: "'t dynamic option \<Rightarrow> bool" where
  "isNil v =
     (case v of
        None \<Rightarrow> True
      | Some d \<Rightarrow> (if kind_of d \<in> {KChan, KFunc, KInterface, KMap, KPtr, KSlice} then is_nil_value d else False))"

fun check_args :: "('t \<Rightarrow> 't \<Rightarrow> bool) \<Rightarrow> nat \<Rightarrow> 't list \<Rightarrow> 't list \<Rightarrow> register_error option" where
  "check_args assignable i (a # as) (want # ws) =
     (if assignable a want then check_args assignable (Suc i) as ws else Some (NotAssignable i))"
| "check_args assignable i _ _ = None"

text \<open>
  The error, if any, and whether the registering function was called. \<open>call\<close> says whether that call returns or
  panics; the deferred function recovers.
\<close>

definition RegisterService ::
  "('t \<Rightarrow> 't \<Rightarrow> bool) \<Rightarrow> 't \<Rightarrow> bool \<Rightarrow> 't dynamic option \<Rightarrow> 't dynamic option \<Rightarrow>
   (unit, register_error option \<times> bool) outcome" where
  "RegisterService assignable serverType call registerFunc implementation =
     (if isNil registerFunc then Ret (Some NilFunction, False)
      else if isNil implementation then Ret (Some NilImplementation, False)
      else case (registerFunc, implementation) of
        (Some f, Some impl) \<Rightarrow>
          if kind_of f \<noteq> KFunc then Ret (Some (NotFunction (kind_of f)), False)
          else if length (In f) \<noteq> 2 then Ret (Some (InputCount (length (In f))), False)
          else if NumOut f \<noteq> 0 then Ret (Some (OutputCount (NumOut f)), False)
          else (case check_args assignable 0 [serverType, dyn_type impl] (In f) of
                  Some e \<Rightarrow> Ret (Some e, False)
                | None \<Rightarrow> Ret (if call then None else Some Recovered, True))
      | _ \<Rightarrow> Ret (Some Recovered, False))"

section \<open>The life of a server\<close>

datatype serving = NotServing | Serving | Returned
datatype cleaning = Unused | Stopping | Draining | Closing | Waiting | Cleaned

text \<open>\<open>stopping\<close> is set when \<open>GracefulStop\<close> begins, \<open>stopped\<close> when it returns; \<open>rpcs\<close> counts the pending RPCs.\<close>

record tester =
  serve_go :: serving
  rpcs :: nat
  stopping :: bool
  stopped :: bool
  listening :: bool
  done_closed :: bool
  cleanup_pc :: cleaning

definition New :: tester where
  "New = \<lparr>serve_go = NotServing, rpcs = 0, stopping = False, stopped = False, listening = True, done_closed = False,
     cleanup_pc = Unused\<rparr>"

text \<open>
  The steps of the tester itself. The goroutine of \<open>NewWithRegistered\<close> calls \<open>Serve\<close> and then closes the channel; the clean-up
  function calls \<open>Close\<close>, which stops the server and closes the listener, and waits for the channel.
\<close>

inductive own_step :: "tester \<Rightarrow> tester \<Rightarrow> bool" where
  Serve_stopped: "serve_go s = NotServing \<Longrightarrow> stopping s \<Longrightarrow> own_step s (s\<lparr>serve_go := Returned\<rparr>)"
| Serve_runs: "serve_go s = NotServing \<Longrightarrow> \<not> stopping s \<Longrightarrow> own_step s (s\<lparr>serve_go := Serving\<rparr>)"
| Serve_returns: "serve_go s = Serving \<Longrightarrow> stopped s \<Longrightarrow> own_step s (s\<lparr>serve_go := Returned\<rparr>)"
| close_done: "serve_go s = Returned \<Longrightarrow> \<not> done_closed s \<Longrightarrow> own_step s (s\<lparr>done_closed := True\<rparr>)"
| GracefulStop_begins: "cleanup_pc s = Stopping \<Longrightarrow> own_step s (s\<lparr>stopping := True, cleanup_pc := Draining\<rparr>)"
| GracefulStop_returns: "cleanup_pc s = Draining \<Longrightarrow> rpcs s = 0 \<Longrightarrow> own_step s (s\<lparr>stopped := True, cleanup_pc := Closing\<rparr>)"
| listener_Close: "cleanup_pc s = Closing \<Longrightarrow> own_step s (s\<lparr>listening := False, cleanup_pc := Waiting\<rparr>)"
| cleanup_returns: "cleanup_pc s = Waiting \<Longrightarrow> done_closed s \<Longrightarrow> own_step s (s\<lparr>cleanup_pc := Cleaned\<rparr>)"

text \<open>With the test that calls the clean-up function, the clients that start RPCs and the handlers that finish them.\<close>

inductive tester_step :: "tester \<Rightarrow> tester \<Rightarrow> bool" where
  tester_own: "own_step s t \<Longrightarrow> tester_step s t"
| cleanup_called: "cleanup_pc s = Unused \<Longrightarrow> tester_step s (s\<lparr>cleanup_pc := Stopping\<rparr>)"
| rpc_begins: "serve_go s = Serving \<Longrightarrow> \<not> stopping s \<Longrightarrow> tester_step s (s\<lparr>rpcs := rpcs s + 1\<rparr>)"
| rpc_ends: "0 < rpcs s \<Longrightarrow> tester_step s (s\<lparr>rpcs := rpcs s - 1\<rparr>)"

text \<open>A failed dial starts the clean-up function, and returns when that has; otherwise the caller gets it.\<close>

definition NewClientConn :: "string + 'c \<Rightarrow> tester \<Rightarrow> (string + 'c) \<times> tester" where
  "NewClientConn dial s = (case dial of Inl e \<Rightarrow> (Inl e, s\<lparr>cleanup_pc := Stopping\<rparr>) | Inr c \<Rightarrow> (Inr c, s))"

text \<open>The options that connect to the listener come after those of the caller.\<close>

definition DialOpts :: "'o \<Rightarrow> 'o \<Rightarrow> 'o list \<Rightarrow> 'o list" where
  "DialOpts contextDialer insecure user = user @ [contextDialer, insecure]"

definition Dial :: "(string \<Rightarrow> 'o list \<Rightarrow> string + 'c) \<Rightarrow> 'o \<Rightarrow> 'o \<Rightarrow> 'o list \<Rightarrow> string + 'c" where
  "Dial grpcDial contextDialer insecure opts = grpcDial [] (DialOpts contextDialer insecure opts)"

text \<open>The generic registration only calls the generated function.\<close>

definition RegisterService_generic :: "('srv \<Rightarrow> 'impl \<Rightarrow> 'srv) \<Rightarrow> 'srv \<Rightarrow> 'impl \<Rightarrow> 'srv" where
  "RegisterService_generic register srv impl = register srv impl"

definition tester_inv :: "tester \<Rightarrow> bool" where
  "tester_inv s \<longleftrightarrow>
     (done_closed s \<longrightarrow> serve_go s = Returned) \<and> (serve_go s = Returned \<longrightarrow> stopping s) \<and>
     (stopping s \<longleftrightarrow> cleanup_pc s \<in> {Draining, Closing, Waiting, Cleaned}) \<and>
     (stopped s \<longleftrightarrow> cleanup_pc s \<in> {Closing, Waiting, Cleaned}) \<and>
     (listening s \<longleftrightarrow> cleanup_pc s \<notin> {Waiting, Cleaned}) \<and> (cleanup_pc s = Cleaned \<longrightarrow> done_closed s) \<and>
     (0 < rpcs s \<longrightarrow> serve_go s = Serving \<and> \<not> stopped s)"

lemma tester_inv_own: "own_step s t \<Longrightarrow> tester_inv s \<Longrightarrow> tester_inv t"
  by (induction rule: own_step.induct) (auto simp: tester_inv_def)

lemma tester_inv_step: "tester_step s t \<Longrightarrow> tester_inv s \<Longrightarrow> tester_inv t"
  by (induction rule: tester_step.induct) (simp add: tester_inv_own, auto simp: tester_inv_def)

interpretation tst: invariant_system "\<lambda>s. s = New" tester_step tester_inv
proof unfold_locales
  show "tester_inv s" if "s = New" for s using that by (simp add: New_def tester_inv_def)
qed (rule tester_inv_step)

section \<open>Progress\<close>

text \<open>How far the clean-up, the goroutine and the pending RPCs are from their ends.\<close>

definition todo :: "tester \<Rightarrow> nat" where
  "todo s =
     (case cleanup_pc s of Unused \<Rightarrow> 5 | Stopping \<Rightarrow> 4 | Draining \<Rightarrow> 3 | Closing \<Rightarrow> 2 | Waiting \<Rightarrow> 1 | Cleaned \<Rightarrow> 0) +
     (case serve_go s of NotServing \<Rightarrow> 2 | Serving \<Rightarrow> 1 | Returned \<Rightarrow> 0) + (if done_closed s then 0 else 1) + rpcs s"

lemma todo_own: "own_step s t \<Longrightarrow> (stopping s \<longrightarrow> stopping t) \<and> todo t < todo s"
  by (induction rule: own_step.induct) (auto simp: todo_def split: serving.splits cleaning.splits)

text \<open>Once \<open>GracefulStop\<close> has begun no RPC is started, so that every step makes progress, in whatever order.\<close>

lemma todo_decreases: "tester_step s t \<Longrightarrow> tester_inv s \<Longrightarrow> stopping s \<Longrightarrow> stopping t \<and> todo t < todo s"
  by (induction rule: tester_step.induct) (simp add: todo_own, auto simp: tester_inv_def todo_def)

text \<open>The tester is blocked on itself never, and on a pending RPC exactly while \<open>GracefulStop\<close> waits for it.\<close>

lemma own_blocked_iff:
  assumes inv: "tester_inv s" and "cleanup_pc s \<noteq> Unused"
  shows "(\<nexists>t. own_step s t) \<longleftrightarrow> cleanup_pc s = Cleaned \<or> cleanup_pc s = Draining \<and> 0 < rpcs s"
proof (cases "cleanup_pc s")
  case Unused
  then show ?thesis using assms(2) by simp
next
  case Stopping
  then show ?thesis by (auto intro: GracefulStop_begins)
next
  case Draining
  have "\<not> own_step s t" if "0 < rpcs s" for t
    using inv that Draining by (auto simp: tester_inv_def elim!: own_step.cases)
  then show ?thesis using Draining by (cases "rpcs s = 0") (auto intro: GracefulStop_returns)
next
  case Closing
  then show ?thesis by (auto intro: listener_Close)
next
  case Waiting
  then have "stopping s" "stopped s" using inv by (simp_all add: tester_inv_def)
  then have "\<exists>t. own_step s t"
    using Waiting by (cases "serve_go s") (blast intro: Serve_stopped Serve_returns close_done cleanup_returns)+
  then show ?thesis using Waiting by simp
next
  case Cleaned
  then show ?thesis using inv by (auto simp: tester_inv_def elim!: own_step.cases)
qed

lemma step_blocked_iff:
  assumes inv: "tester_inv s" and "stopping s"
  shows "(\<nexists>t. tester_step s t) \<longleftrightarrow> cleanup_pc s = Cleaned"
proof -
  have "cleanup_pc s \<noteq> Unused" using assms by (auto simp: tester_inv_def)
  note own = own_blocked_iff [OF inv this]
  have "rpcs s = 0" if "cleanup_pc s = Cleaned" using inv that by (auto simp: tester_inv_def)
  then have "\<not> tester_step s t" if "cleanup_pc s = Cleaned" for t
    using own assms(2) that by (auto elim!: tester_step.cases)
  then show ?thesis using own by (blast intro: tester_own rpc_ends)
qed

section \<open>Properties\<close>

text \<open>C36. The clean-up of a test server, in every interleaving of its goroutines, its clients and the handlers. Once the clean-up
  function has returned, the goroutine that serves has ended, the listener is closed and no RPC is pending. Once \<open>GracefulStop\<close> has begun, at most seven steps and one for each pending
  RPC remain, and they end only when the clean-up function has returned: it returns if the handlers of the pending RPCs do. The clean-up function never waits for
  anything else: by itself it is blocked only in \<open>GracefulStop\<close>, and there exactly while an RPC is pending.\<close>

theorem cleanup_completes:
  assumes "reachable (\<lambda>s. s = New) tester_step s"
  shows "(cleanup_pc s = Cleaned \<longrightarrow> serve_go s = Returned \<and> done_closed s \<and> \<not> listening s \<and> rpcs s = 0) \<and>
    (stopping s \<longrightarrow> todo s \<le> 7 + rpcs s \<and> (\<forall>t. tester_step s t \<longrightarrow> stopping t \<and> todo t < todo s) \<and>
       ((\<nexists>t. tester_step s t) \<longleftrightarrow> cleanup_pc s = Cleaned)) \<and>
    (cleanup_pc s \<noteq> Unused \<longrightarrow>
       ((\<nexists>t. own_step s t) \<longleftrightarrow> cleanup_pc s = Cleaned \<or> cleanup_pc s = Draining \<and> 0 < rpcs s))"
proof -
  have inv: "tester_inv s" by (rule tst.reachable_inv [OF assms])
  have "todo s \<le> 7 + rpcs s" if "stopping s"
    using inv that by (auto simp: todo_def tester_inv_def split: serving.splits cleaning.splits)
  moreover have "cleanup_pc s = Cleaned \<longrightarrow> serve_go s = Returned \<and> done_closed s \<and> \<not> listening s \<and> rpcs s = 0"
    using inv by (auto simp: tester_inv_def)
  ultimately show ?thesis
    using todo_decreases [OF _ inv] step_blocked_iff [OF inv] own_blocked_iff [OF inv] by blast
qed

text \<open>A run in which the clean-up function waits for an RPC, and returns after it.\<close>

theorem cleanup_completes_witness:
  "\<exists>s1 s2. reachable (\<lambda>s. s = New) tester_step s1 \<and> cleanup_pc s1 = Draining \<and> rpcs s1 = 1 \<and> (\<nexists>t. own_step s1 t) \<and>
     reachable (\<lambda>s. s = New) tester_step s2 \<and> cleanup_pc s2 = Cleaned \<and> serve_go s2 = Returned \<and> \<not> listening s2 \<and> rpcs s2 = 0"
proof -
  let ?r = "reachable (\<lambda>s. s = New) tester_step"
  let ?a = "New\<lparr>serve_go := Serving, rpcs := 1\<rparr>"
  let ?b = "?a\<lparr>stopping := True, cleanup_pc := Draining\<rparr>"
  let ?c = "?b\<lparr>rpcs := 0, stopped := True, listening := False, cleanup_pc := Waiting\<rparr>"
  let ?d = "?c\<lparr>serve_go := Returned, done_closed := True, cleanup_pc := Cleaned\<rparr>"
  note step = reachable_step
  have own: "?r t" if "?r s" "own_step s t" for s t using that by (blast intro: reachable_step tester_own)
  have "?r New" by (rule reachable_init) simp
  then have "?r (New\<lparr>serve_go := Serving\<rparr>)" by (rule own) (rule Serve_runs, simp_all add: New_def)
  then have "?r ?a" by (rule step) (use rpc_begins [of "New\<lparr>serve_go := Serving\<rparr>"] in \<open>simp add: New_def\<close>)
  then have "?r (?a\<lparr>cleanup_pc := Stopping\<rparr>)" by (rule step) (rule cleanup_called, simp add: New_def)
  then have b: "?r ?b"
    by (rule own) (use GracefulStop_begins [of "?a\<lparr>cleanup_pc := Stopping\<rparr>"] in \<open>simp add: New_def\<close>)
  then have "?r (?b\<lparr>rpcs := 0\<rparr>)" by (rule step) (use rpc_ends [of ?b] in \<open>simp add: New_def\<close>)
  then have "?r (?b\<lparr>rpcs := 0, stopped := True, cleanup_pc := Closing\<rparr>)"
    by (rule own) (use GracefulStop_returns [of "?b\<lparr>rpcs := 0\<rparr>"] in \<open>simp add: New_def\<close>)
  then have "?r ?c"
    by (rule own) (use listener_Close [of "?b\<lparr>rpcs := 0, stopped := True, cleanup_pc := Closing\<rparr>"] in \<open>simp add: New_def\<close>)
  then have "?r (?c\<lparr>serve_go := Returned\<rparr>)" by (rule own) (rule Serve_returns, simp_all add: New_def)
  then have "?r (?c\<lparr>serve_go := Returned, done_closed := True\<rparr>)"
    by (rule own) (use close_done [of "?c\<lparr>serve_go := Returned\<rparr>"] in \<open>simp add: New_def\<close>)
  then have d: "?r ?d"
    by (rule own) (use cleanup_returns [of "?c\<lparr>serve_go := Returned, done_closed := True\<rparr>"] in \<open>simp add: New_def\<close>)
  show ?thesis
    using cleanup_completes [OF b] cleanup_completes [OF d] b d by (intro exI [of _ ?b] exI [of _ ?d]) simp
qed

text \<open>Registration never panics. The registering function is called exactly when it is a non-nil function of two
  parameters and no results that accept the server and the implementation, which is not nil.\<close>

theorem RegisterService_checks:
  "\<exists>err called. RegisterService assignable serverType call registerFunc implementation = Ret (err, called) \<and>
    (called \<longleftrightarrow> (\<exists>f impl ts ti. registerFunc = Some f \<and> implementation = Some impl \<and> kind_of f = KFunc \<and> \<not> is_nil_value f \<and>
       \<not> isNil implementation \<and> In f = [ts, ti] \<and> NumOut f = 0 \<and> assignable serverType ts \<and> assignable (dyn_type impl) ti)) \<and>
    (err = None \<longleftrightarrow> called \<and> call)"
proof (cases registerFunc)
  case None
  then show ?thesis by (intro exI [of _ "Some NilFunction"] exI [of _ False]) (simp add: RegisterService_def isNil_def)
next
  case f: (Some f)
  show ?thesis
  proof (cases implementation)
    case None
    then show ?thesis using f by (cases "isNil registerFunc") (auto simp: RegisterService_def isNil_def)
  next
    case impl: (Some impl)
    show ?thesis
    proof (cases "isNil registerFunc \<or> isNil implementation \<or> kind_of f \<noteq> KFunc \<or> length (In f) \<noteq> 2 \<or> NumOut f \<noteq> 0")
      case True
      then show ?thesis using f impl by (auto simp: RegisterService_def isNil_def split: if_splits)
    next
      case False
      then obtain ts ti where "In f = [ts, ti]" by (auto simp: numeral_2_eq_2 length_Suc_conv)
      then show ?thesis using f impl False by (simp add: RegisterService_def isNil_def)
    qed
  qed
qed

end
