(* ===== verification/DiscordBot.thy ===== *)
theory DiscordBot
  imports Prelude
begin

text \<open>
  The Discord bot (\<open>go/discordbot\<close>): connecting, as a race between the Ready event and the context; the
  error handler behind a read-write mutex, with the goroutines that report errors and replace the handler;
  and the callbacks on reactions. The Discord library is a parameter: what creating and opening a
  session return, when it fires the Ready event, and what it knows of messages and users.
\<close>

section \<open>Connecting\<close>

text \<open>The handler of the Ready event runs in a goroutine of its own, at most once.\<close>

datatype 'r ready_handler = Registered | Offering 'r | Leaving | Left

datatype connect_error = NewError string | OpenError string | CtxErr string

datatype 'r connecting = Opening | Selecting | Returned "connect_error + 'r option"

text \<open>
  \<open>Inr (Some r)\<close> is a bot with the Ready event \<open>r\<close>; \<open>Inr None\<close> is a bot with a nil event, which the code does
  not rule out. \<open>fired\<close> records the event that the library has raised.
\<close>

record 'r connect =
  ctx_err :: "string option"
  fired :: "'r option"
  handler_at :: "'r ready_handler"
  ready_closed :: bool
  sess_open :: bool
  connect_at :: "'r connecting"

definition connect_init :: "'r connect" where
  "connect_init = \<lparr>ctx_err = None, fired = None, handler_at = Registered, ready_closed = False,
     sess_open = False, connect_at = Opening\<rparr>"

text \<open>\<open>discord.New\<close> receives the token with its prefix; the session is opened only when it succeeds.\<close>

definition bot_token :: "string \<Rightarrow> string" where
  "bot_token token = ''Bot '' @ token"

definition Connect_new :: "(string \<Rightarrow> string option) \<Rightarrow> string \<Rightarrow> 'r connect" where
  "Connect_new discordNew token =
     (case discordNew (bot_token token) of
        Some e \<Rightarrow> connect_init\<lparr>connect_at := Returned (Inl (NewError e))\<rparr>
      | None \<Rightarrow> connect_init)"

text \<open>The steps of the environment, of the handler of the Ready event and of \<open>Connect\<close> itself.\<close>

inductive connect_step :: "string option \<Rightarrow> 'r connect \<Rightarrow> 'r connect \<Rightarrow> bool" for openErr where
  expire: "ctx_err s = None \<Longrightarrow> connect_step openErr s (s\<lparr>ctx_err := Some e\<rparr>)"
| ready_event: "fired s = None \<Longrightarrow> handler_at s = Registered \<Longrightarrow> (\<And>e. connect_at s \<noteq> Returned (Inl (NewError e))) \<Longrightarrow>
    connect_step openErr s (s\<lparr>fired := Some r, handler_at := Offering r\<rparr>)"
| handler_ctx: "handler_at s = Offering r \<Longrightarrow> ctx_err s \<noteq> None \<Longrightarrow>
    connect_step openErr s (s\<lparr>handler_at := Leaving\<rparr>)"
| handler_close: "handler_at s = Leaving \<Longrightarrow>
    connect_step openErr s (s\<lparr>handler_at := Left, ready_closed := True\<rparr>)"
| open_ok: "connect_at s = Opening \<Longrightarrow> openErr = None \<Longrightarrow>
    connect_step openErr s (s\<lparr>sess_open := True, connect_at := Selecting\<rparr>)"
| open_fails: "connect_at s = Opening \<Longrightarrow> openErr = Some e \<Longrightarrow>
    connect_step openErr s (s\<lparr>connect_at := Returned (Inl (OpenError e))\<rparr>)"
| select_ctx: "connect_at s = Selecting \<Longrightarrow> ctx_err s = Some e \<Longrightarrow>
    connect_step openErr s (s\<lparr>sess_open := False, connect_at := Returned (Inl (CtxErr e))\<rparr>)"
| select_ready: "connect_at s = Selecting \<Longrightarrow> handler_at s = Offering r \<Longrightarrow>
    connect_step openErr s (s\<lparr>handler_at := Leaving, connect_at := Returned (Inr (Some r))\<rparr>)"
| select_closed: "connect_at s = Selecting \<Longrightarrow> ready_closed s \<Longrightarrow>
    connect_step openErr s (s\<lparr>connect_at := Returned (Inr None)\<rparr>)"

section \<open>The error handler\<close>

text \<open>
  A handler is known by a number, and calls methods of the bot itself: it may set another handler or, through a
  callback that fails, report an error.
\<close>

datatype 'e handler = Handler nat "'e bot_call list"
and 'e bot_call = CallSetErrHandler "'e handler option" | CallHandleErr "'e"

text \<open>
  The atomic steps of the methods. \<open>sync.RWMutex\<close>: a writer first announces itself (\<open>LockW\<close>), which keeps out
  new readers and other writers, and then waits for the readers that are in (\<open>LockWait\<close>).
\<close>

datatype 'e instr =
    LogErr 'e | RLock | CallHandler 'e | RUnlock
  | LockW | LockWait | Store "'e handler option" | UnlockW

definition SetErrHandler :: "'e handler option \<Rightarrow> 'e instr list" where
  "SetErrHandler h = [LockW, LockWait, Store h, UnlockW]"

fun handleErr :: "'e option \<Rightarrow> 'e instr list" where
  "handleErr None = []"
| "handleErr (Some e) = [LogErr e, RLock, CallHandler e, RUnlock]"

fun call_code :: "'e bot_call \<Rightarrow> 'e instr list" where
  "call_code (CallSetErrHandler h) = SetErrHandler h"
| "call_code (CallHandleErr e) = handleErr (Some e)"

definition code_of :: "'e bot_call list \<Rightarrow> 'e instr list" where
  "code_of cs = concat (map call_code cs)"

datatype wlock = WFree | WPending nat | WHeld nat

record 'e bot =
  rlocks :: nat
  wlock :: wlock
  errHandler :: "'e handler option"
  logged :: "'e list"
  delivered :: "(nat \<times> 'e) list"

definition new_bot :: "'e handler option \<Rightarrow> 'e bot" where
  "new_bot h = \<lparr>rlocks = 0, wlock = WFree, errHandler = h, logged = [], delivered = []\<rparr>"

text \<open>One step of goroutine \<open>i\<close>: the new state and the code it runs before it continues; nothing when it blocks.\<close>

fun exec :: "'e bot \<Rightarrow> nat \<Rightarrow> 'e instr \<Rightarrow> ('e bot \<times> 'e instr list) option" where
  "exec b i (LogErr e) = Some (b\<lparr>logged := logged b @ [e]\<rparr>, [])"
| "exec b i RLock = (if wlock b = WFree then Some (b\<lparr>rlocks := rlocks b + 1\<rparr>, []) else None)"
| "exec b i (CallHandler e) =
     (case errHandler b of
        None \<Rightarrow> Some (b, [])
      | Some (Handler n cs) \<Rightarrow> Some (b\<lparr>delivered := delivered b @ [(n, e)]\<rparr>, code_of cs))"
| "exec b i RUnlock = Some (b\<lparr>rlocks := rlocks b - 1\<rparr>, [])"
| "exec b i LockW = (if wlock b = WFree then Some (b\<lparr>wlock := WPending i\<rparr>, []) else None)"
| "exec b i LockWait = (if rlocks b = 0 then Some (b\<lparr>wlock := WHeld i\<rparr>, []) else None)"
| "exec b i (Store h) = Some (b\<lparr>errHandler := h\<rparr>, [])"
| "exec b i UnlockW = Some (b\<lparr>wlock := WFree\<rparr>, [])"

type_synonym 'e bot_system = "'e bot \<times> 'e instr list list"

inductive bot_step :: "'e bot_system \<Rightarrow> 'e bot_system \<Rightarrow> bool" where
  bot_step: "i < length ts \<Longrightarrow> ts ! i = c # rest \<Longrightarrow> exec b i c = Some (b', pre) \<Longrightarrow>
    bot_step (b, ts) (b', ts[i := pre @ rest])"

inductive_cases bot_stepE: "bot_step (b, ts) s'"

text \<open>The goroutines of a program, each a sequence of calls of the two methods.\<close>

definition bot_start :: "'e handler option \<Rightarrow> 'e bot_call list list \<Rightarrow> 'e bot_system" where
  "bot_start h css = (new_bot h, map code_of css)"

text \<open>A schedule: which goroutine takes each step.\<close>

fun scheduled :: "'e bot_system \<Rightarrow> nat list \<Rightarrow> 'e bot_system option" where
  "scheduled s [] = Some s"
| "scheduled (b, ts) (i # is) =
     (if i < length ts then
        (case ts ! i of
           [] \<Rightarrow> None
         | c # rest \<Rightarrow> (case exec b i c of None \<Rightarrow> None | Some (b', pre) \<Rightarrow> scheduled (b', ts[i := pre @ rest]) is))
      else None)"

lemma scheduled_steps: "scheduled s is = Some s' \<Longrightarrow> bot_step\<^sup>*\<^sup>* s s'"
proof (induction s "is" rule: scheduled.induct)
  case (2 b ts i "is")
  then obtain c rest b' pre where step: "i < length ts" "ts ! i = c # rest" "exec b i c = Some (b', pre)"
    and s': "scheduled (b', ts[i := pre @ rest]) is = Some s'"
    by (auto split: if_splits list.splits option.splits)
  have "bot_step\<^sup>*\<^sup>* (b', ts[i := pre @ rest]) s'"
    using 2(1) [OF step(1,2,3) refl s'] by simp
  then show ?case using bot_step.intros [OF step] by (rule converse_rtranclp_into_rtranclp [rotated])
qed simp

section \<open>Reactions\<close>

record 'u reaction_event =
  emoji :: string
  ChannelID :: string
  MessageID :: string
  UserID :: string
  Member :: "'u option"

record 'u reaction =
  Giver :: 'u
  Receiver :: 'u
  MessageReaction :: "'u reaction_event"

text \<open>The session: the author of a message, and users by ID.\<close>

record 'u session =
  ChannelMessage :: "string \<Rightarrow> string \<Rightarrow> string + 'u"
  User :: "string \<Rightarrow> string + 'u"

datatype bot_error = ChannelMessageError string | UserError string | CallbackError string

definition shouldProcessEmoji :: "string \<Rightarrow> string \<Rightarrow> bool" where
  "shouldProcessEmoji e name \<longleftrightarrow> name = [] \<or> name = e"

text \<open>What an event leads to: the calls of the callback, and the errors that \<open>handleErr\<close> receives.\<close>

type_synonym 'u handled = "'u reaction list \<times> bot_error list"

definition call_back :: "('u reaction \<Rightarrow> string option) \<Rightarrow> 'u reaction \<Rightarrow> 'u handled" where
  "call_back cb r = ([r], case cb r of None \<Rightarrow> [] | Some e \<Rightarrow> [CallbackError e])"

text \<open>Outside a server an event has no member, and reading its user is a nil dereference.\<close>

definition OnEmojiAdded ::
  "'u session \<Rightarrow> string \<Rightarrow> ('u reaction \<Rightarrow> string option) \<Rightarrow> 'u reaction_event \<Rightarrow> (unit, 'u handled) outcome" where
  "OnEmojiAdded s name cb ev =
     (if \<not> shouldProcessEmoji (emoji ev) name then Ret ([], [])
      else case ChannelMessage s (ChannelID ev) (MessageID ev) of
        Inl e \<Rightarrow> Ret ([], [ChannelMessageError e])
      | Inr author \<Rightarrow>
          (case Member ev of
             None \<Rightarrow> Panic
           | Some m \<Rightarrow> Ret (call_back cb \<lparr>Giver = m, Receiver = author, MessageReaction = ev\<rparr>)))"

definition OnEmojiRemoved ::
  "'u session \<Rightarrow> string \<Rightarrow> ('u reaction \<Rightarrow> string option) \<Rightarrow> 'u reaction_event \<Rightarrow> (unit, 'u handled) outcome" where
  "OnEmojiRemoved s name cb ev =
     (if \<not> shouldProcessEmoji (emoji ev) name then Ret ([], [])
      else case ChannelMessage s (ChannelID ev) (MessageID ev) of
        Inl e \<Rightarrow> Ret ([], [ChannelMessageError e])
      | Inr author \<Rightarrow>
          (case User s (UserID ev) of
             Inl e \<Rightarrow> Ret ([], [UserError e])
           | Inr u \<Rightarrow> Ret (call_back cb \<lparr>Giver = u, Receiver = author, MessageReaction = ev\<rparr>)))"

text \<open>The library runs the handlers of an event in a goroutine: what it does with the bot are the calls of \<open>handleErr\<close>.\<close>

fun reaction_calls :: "(unit, 'u handled) outcome \<Rightarrow> bot_error bot_call list" where
  "reaction_calls (Ret (calls, errs)) = map CallHandleErr errs"
| "reaction_calls _ = []"

fun errors_of :: "(unit, 'u handled) outcome \<Rightarrow> bot_error list" where
  "errors_of (Ret (calls, errs)) = errs"
| "errors_of _ = []"

section \<open>Connecting: the invariant\<close>

definition connect_ok :: "string option \<Rightarrow> 'r connect \<Rightarrow> bool" where
  "connect_ok openErr s \<longleftrightarrow>
     (sess_open s \<longleftrightarrow> connect_at s = Selecting \<or> (\<exists>x. connect_at s = Returned (Inr x))) \<and>
     (\<forall>r. handler_at s = Offering r \<longrightarrow> fired s = Some r) \<and>
     (fired s = None \<longleftrightarrow> handler_at s = Registered) \<and>
     (handler_at s = Leaving \<or> handler_at s = Left \<longrightarrow> ctx_err s \<noteq> None \<or> (\<exists>r. connect_at s = Returned (Inr (Some r)))) \<and>
     (ready_closed s \<longleftrightarrow> handler_at s = Left) \<and>
     (case connect_at s of
        Returned (Inr (Some r)) \<Rightarrow> fired s = Some r
      | Returned (Inr None) \<Rightarrow> ctx_err s \<noteq> None \<and> fired s \<noteq> None
      | Returned (Inl (OpenError e)) \<Rightarrow> openErr = Some e
      | Returned (Inl (CtxErr e)) \<Rightarrow> ctx_err s = Some e
      | Returned (Inl (NewError e)) \<Rightarrow> fired s = None
      | _ \<Rightarrow> True)"

lemma connect_ok_step: "connect_step openErr s t \<Longrightarrow> connect_ok openErr s \<Longrightarrow> connect_ok openErr t"
  by (induction rule: connect_step.induct)
    (auto simp: connect_ok_def split: connecting.splits sum.splits option.splits connect_error.splits)


lemma connect_ok_new: "connect_ok openErr (Connect_new discordNew token)"
  by (auto simp: connect_ok_def Connect_new_def connect_init_def split: option.splits)

interpretation connecting: invariant_system "\<lambda>s. s = Connect_new discordNew token" "connect_step openErr" "connect_ok openErr"
  by unfold_locales (auto intro: connect_ok_new connect_ok_step)

section \<open>The error handler: locking discipline\<close>

text \<open>
  The discipline of the code a goroutine has left to run, given the read locks it holds and its hold on
  the write lock. With \<open>nest\<close>, methods of the bot may be called while a read lock is held.
\<close>

datatype phase = Free | Pending | Held

fun disciplined :: "bool \<Rightarrow> nat \<Rightarrow> phase \<Rightarrow> 'e instr list \<Rightarrow> bool" where
  "disciplined nest r p [] \<longleftrightarrow> r = 0 \<and> p = Free"
| "disciplined nest r p (LogErr e # t) \<longleftrightarrow> p = Free \<and> (nest \<or> r = 0) \<and> disciplined nest r Free t"
| "disciplined nest r p (RLock # t) \<longleftrightarrow> p = Free \<and> (nest \<or> r = 0) \<and> disciplined nest (r + 1) Free t"
| "disciplined nest r p (CallHandler e # t) \<longleftrightarrow> p = Free \<and> 0 < r \<and> disciplined nest r Free t"
| "disciplined nest r p (RUnlock # t) \<longleftrightarrow> p = Free \<and> 0 < r \<and> disciplined nest (r - 1) Free t"
| "disciplined nest r p (LockW # t) \<longleftrightarrow> p = Free \<and> (nest \<or> r = 0) \<and> disciplined nest r Pending t"
| "disciplined nest r p (LockWait # t) \<longleftrightarrow> p = Pending \<and> (nest \<or> r = 0) \<and> disciplined nest r Held t"
| "disciplined nest r p (Store h # t) \<longleftrightarrow> p = Held \<and> disciplined nest r Held t"
| "disciplined nest r p (UnlockW # t) \<longleftrightarrow> p = Held \<and> disciplined nest r Free t"

lemma disciplined_call:
  "nest \<or> r = 0 \<Longrightarrow> disciplined nest r Free (call_code c @ t) \<longleftrightarrow> disciplined nest r Free t"
  by (cases c) (auto simp: SetErrHandler_def)

lemma disciplined_code:
  "nest \<or> r = 0 \<Longrightarrow> disciplined nest r Free (code_of cs @ t) \<longleftrightarrow> disciplined nest r Free t"
  by (induction cs) (simp_all add: code_of_def disciplined_call)

text \<open>A handler that does not call back into the bot.\<close>

fun quiet :: "'e handler option \<Rightarrow> bool" where
  "quiet None = True"
| "quiet (Some (Handler n cs)) = (cs = [])"

fun stores_quiet :: "'e instr \<Rightarrow> bool" where
  "stores_quiet (Store h) = quiet h"
| "stores_quiet _ = True"

fun sets_quiet :: "'e bot_call \<Rightarrow> bool" where
  "sets_quiet (CallSetErrHandler h) = quiet h"
| "sets_quiet _ = True"

definition phase_of :: "wlock \<Rightarrow> nat \<Rightarrow> phase" where
  "phase_of w i = (if w = WHeld i then Held else if w = WPending i then Pending else Free)"

definition wlock_owner_ok :: "wlock \<Rightarrow> nat \<Rightarrow> bool" where
  "wlock_owner_ok w n = (case w of WFree \<Rightarrow> True | WPending i \<Rightarrow> i < n | WHeld i \<Rightarrow> i < n)"

definition bot_ok :: "bool \<Rightarrow> 'e bot_system \<Rightarrow> bool" where
  "bot_ok nest s \<longleftrightarrow>
     (\<exists>rs. length rs = length (snd s) \<and> rlocks (fst s) = sum_list rs \<and>
        (\<forall>i < length rs. disciplined nest (rs ! i) (phase_of (wlock (fst s)) i) (snd s ! i))) \<and>
     wlock_owner_ok (wlock (fst s)) (length (snd s)) \<and>
     (\<forall>i. wlock (fst s) = WHeld i \<longrightarrow> rlocks (fst s) = 0) \<and>
     (\<not> nest \<longrightarrow> quiet (errHandler (fst s)) \<and> (\<forall>t \<in> set (snd s). list_all stores_quiet t))"

lemma bot_ok_start:
  "nest \<or> quiet h \<and> (\<forall>cs \<in> set css. list_all sets_quiet cs) \<Longrightarrow> bot_ok nest (bot_start h css)"
proof -
  assume quiet: "nest \<or> quiet h \<and> (\<forall>cs \<in> set css. list_all sets_quiet cs)"
  have code: "list_all stores_quiet (code_of cs)" if "list_all sets_quiet cs" for cs :: "'a bot_call list"
    using that unfolding code_of_def
  proof (induction cs)
    case (Cons c cs)
    then show ?case by (cases c) (simp_all add: SetErrHandler_def)
  qed simp
  have "disciplined nest 0 Free (code_of cs)" for cs :: "'a bot_call list"
    using disciplined_code [of nest 0 cs "[]"] by simp
  then show ?thesis
    using quiet code
    by (auto simp: bot_ok_def bot_start_def new_bot_def phase_of_def wlock_owner_ok_def
        intro!: exI [of _ "replicate (length css) 0"])
qed


text \<open>One goroutine moves: its own obligations are checked anew, the others keep theirs.\<close>

lemma bot_ok_move:
  assumes "length rs = length ts" and "i < length ts" and "rlocks b = sum_list rs"
    and others: "\<And>j. j < length rs \<Longrightarrow> disciplined nest (rs ! j) (phase_of (wlock b) j) (ts ! j)"
    and phases: "\<And>j. j \<noteq> i \<Longrightarrow> phase_of (wlock b') j = phase_of (wlock b) j"
    and own: "disciplined nest r (phase_of (wlock b') i) t"
    and locks: "rlocks b' + rs ! i = rlocks b + r"
    and "wlock_owner_ok (wlock b') (length ts)"
    and "\<And>j. wlock b' = WHeld j \<Longrightarrow> rlocks b' = 0"
    and "\<not> nest \<Longrightarrow> quiet (errHandler b') \<and> (\<forall>t \<in> set (ts[i := t]). list_all stores_quiet t)"
  shows "bot_ok nest (b', ts[i := t])"
proof -
  have "sum_list (rs[i := r]) + rs ! i = sum_list rs + r"
    using assms(1,2) by (simp add: sum_list_share)
  then have "rlocks b' = sum_list (rs[i := r])"
    using locks assms(3) by simp
  moreover have "disciplined nest (rs[i := r] ! j) (phase_of (wlock b') j) (ts[i := t] ! j)" if "j < length rs" for j
    using that own others [OF that] phases [of j] assms(1,2) by (cases "j = i") simp_all
  ultimately show ?thesis
    unfolding bot_ok_def using assms by (auto intro!: exI [of _ "rs[i := r]"])
qed

lemma disciplined_held:
  "disciplined nest r (phase_of w i) (Store h # t) \<Longrightarrow> w = WHeld i"
  "disciplined nest r (phase_of w i) (UnlockW # t) \<Longrightarrow> w = WHeld i"
  "disciplined nest r (phase_of w i) (LockWait # t) \<Longrightarrow> w = WPending i"
  by (auto simp: phase_of_def split: if_splits)

lemma code_of_Nil [simp]: "code_of [] = []"
  by (simp add: code_of_def)

lemma called_code:
  assumes "exec b i (CallHandler e) = Some (b', pre)" and "\<not> nest \<Longrightarrow> quiet (errHandler b)"
  shows "(nest \<or> pre = []) \<and> (disciplined nest r Free (pre @ rest) \<longleftrightarrow> disciplined nest r Free rest)"
  using assms by (cases nest) (auto simp: disciplined_code split: option.splits handler.splits)

text \<open>What one instruction does to the obligations of its goroutine, whose read locks become \<open>r\<close>.\<close>

definition keeps_order :: "bool \<Rightarrow> nat \<Rightarrow> nat \<Rightarrow> 'e bot \<Rightarrow> nat \<Rightarrow> 'e bot \<Rightarrow> 'e instr list \<Rightarrow> 'e instr list \<Rightarrow> nat \<Rightarrow> bool" where
  "keeps_order nest i n b r0 b' pre rest r \<longleftrightarrow>
     (\<forall>j. j \<noteq> i \<longrightarrow> phase_of (wlock b') j = phase_of (wlock b) j) \<and>
     disciplined nest r (phase_of (wlock b') i) (pre @ rest) \<and> rlocks b' + r0 = rlocks b + r \<and>
     wlock_owner_ok (wlock b') n \<and> (\<forall>j. wlock b' = WHeld j \<longrightarrow> rlocks b' = 0) \<and>
     (nest \<or> quiet (errHandler b') \<and> pre = [])"

lemma exec_keeps_order:
  assumes run: "exec b i c = Some (b', pre)" and own: "disciplined nest r0 (phase_of (wlock b) i) (c # rest)"
    and "r0 \<le> rlocks b" and "i < n" and "wlock_owner_ok (wlock b) n" and "\<forall>j. wlock b = WHeld j \<longrightarrow> rlocks b = 0"
    and "nest \<or> quiet (errHandler b) \<and> stores_quiet c"
  shows "\<exists>r. keeps_order nest i n b r0 b' pre rest r"
proof (cases c)
  case (CallHandler e)
  then have "disciplined nest r0 Free (pre @ rest)" "nest \<or> pre = []"
    using called_code [of b i e b' pre nest r0 rest] assms by auto
  then show ?thesis
    using CallHandler assms
    by (intro exI [of _ r0]) (auto simp: keeps_order_def split: option.splits handler.splits)
next
  case RLock
  then show ?thesis using assms by (intro exI [of _ "r0 + 1"]) (auto simp: keeps_order_def split: if_splits)
next
  case RUnlock
  then show ?thesis using assms by (intro exI [of _ "r0 - 1"]) (auto simp: keeps_order_def)
next
  case (LogErr e)
  then show ?thesis using assms by (intro exI [of _ r0]) (auto simp: keeps_order_def)
next
  case (Store h)
  then show ?thesis using assms disciplined_held(1) by (intro exI [of _ r0]) (auto simp: keeps_order_def)
qed (use assms disciplined_held(2,3) in
    \<open>intro exI [of _ r0], auto simp: keeps_order_def phase_of_def wlock_owner_ok_def split: if_splits\<close>)

lemma bot_ok_step:
  assumes "bot_step s s'" and "bot_ok nest s"
  shows "bot_ok nest s'"
  using assms
proof (induction rule: bot_step.induct)
  case (bot_step i ts c rest b b' pre)
  from bot_step(4) obtain rs where rs: "length rs = length ts" "rlocks b = sum_list rs"
    "\<And>j. j < length rs \<Longrightarrow> disciplined nest (rs ! j) (phase_of (wlock b) j) (ts ! j)"
    and b: "wlock_owner_ok (wlock b) (length ts)" "\<forall>j. wlock b = WHeld j \<longrightarrow> rlocks b = 0"
    and quiet: "nest \<or> quiet (errHandler b) \<and> (\<forall>t \<in> set ts. list_all stores_quiet t)"
    unfolding bot_ok_def fst_conv snd_conv by (elim conjE exE) metis
  have code: "nest \<or> stores_quiet c \<and> list_all stores_quiet rest"
    using quiet bot_step(1,2) nth_mem [of i ts] by fastforce
  have own: "disciplined nest (rs ! i) (phase_of (wlock b) i) (c # rest)"
    using rs(3) [of i] bot_step(1,2) rs(1) by simp
  have "rs ! i \<le> rlocks b" using rs(1,2) bot_step(1) elem_le_sum_list [of i rs] by simp
  then obtain r where r: "keeps_order nest i (length ts) b (rs ! i) b' pre rest r"
    using exec_keeps_order [OF bot_step(3) own _ bot_step(1) b] quiet code by blast
  have "nest \<or> (\<forall>t \<in> set (ts[i := pre @ rest]). list_all stores_quiet t)"
    using quiet code r set_update_subset_insert [of ts i "pre @ rest"] by (auto simp: keeps_order_def)
  then show ?case
    using r by (intro bot_ok_move [OF rs(1) bot_step(1) rs(2,3), where r = r]) (auto simp: keeps_order_def)
qed

interpretation locking: invariant_system "\<lambda>s. s = bot_start h css" bot_step "bot_ok True"
  by unfold_locales (auto intro: bot_ok_start bot_ok_step)

lemma bot_okE:
  assumes "bot_ok nest (b, ts)"
  obtains rs where "length rs = length ts" "rlocks b = sum_list rs"
    "\<And>j. j < length ts \<Longrightarrow> disciplined nest (rs ! j) (phase_of (wlock b) j) (ts ! j)"
    "wlock_owner_ok (wlock b) (length ts)" "\<And>j. wlock b = WHeld j \<Longrightarrow> rlocks b = 0"
  using assms unfolding bot_ok_def fst_conv snd_conv by (elim conjE exE) metis

text \<open>The code that a goroutine is in: inside the handler or about to call it, or changing it.\<close>

fun reading :: "'e instr list \<Rightarrow> bool" where
  "reading (CallHandler e # t) = True"
| "reading (RUnlock # t) = True"
| "reading _ = False"

fun writing :: "'e instr list \<Rightarrow> bool" where
  "writing (Store h # t) = True"
| "writing (UnlockW # t) = True"
| "writing _ = False"

lemma writing_alone:
  assumes "bot_ok nest (b, ts)" and "i < length ts" and "j < length ts" and "writing (ts ! i)"
  shows "\<not> reading (ts ! j)" and "writing (ts ! j) \<Longrightarrow> j = i"
proof -
  obtain rs where rs: "length rs = length ts" "rlocks b = sum_list rs"
    "\<And>j. j < length ts \<Longrightarrow> disciplined nest (rs ! j) (phase_of (wlock b) j) (ts ! j)"
    "\<And>j. wlock b = WHeld j \<Longrightarrow> rlocks b = 0"
    using assms(1) by (rule bot_okE) blast
  have held: "wlock b = WHeld k" if "k < length ts" "writing (ts ! k)" for k
    using that rs(3) [of k] by (cases "ts ! k" rule: writing.cases) (simp_all add: phase_of_def split: if_splits)
  then have "rs ! j = 0"
    using assms rs elem_le_sum_list [of j rs] by (metis le_zero_eq)
  then show "\<not> reading (ts ! j)"
    using rs(3) [OF assms(3)] by (auto elim!: reading.elims)
  show "writing (ts ! j) \<Longrightarrow> j = i"
    using held [OF assms(2,4)] held [OF assms(3)] by simp
qed

text \<open>The only goroutine that can hold up the others holds a lock, and without nesting it can move.\<close>

definition can_move :: "'e bot \<Rightarrow> 'e instr list list \<Rightarrow> nat \<Rightarrow> bool" where
  "can_move b ts i \<longleftrightarrow> i < length ts \<and> ts ! i \<noteq> [] \<and> exec b i (hd (ts ! i)) \<noteq> None"

lemma can_move_step: "can_move b ts i \<Longrightarrow> \<exists>s'. bot_step (b, ts) s'"
  unfolding can_move_def by (cases "ts ! i") (auto intro: bot_step.intros)

lemma exec_unlocked: "\<lbrakk>wlock b = WFree; c \<noteq> LockWait\<rbrakk> \<Longrightarrow> exec b i c \<noteq> None"
  by (cases c) (auto split: option.splits handler.splits)

lemma quiet_progress:
  assumes ok: "bot_ok False (b, ts)" and i: "i < length ts" "ts ! i \<noteq> []"
  shows "\<exists>s'. bot_step (b, ts) s'"
proof -
  obtain rs where rs: "length rs = length ts" "rlocks b = sum_list rs"
    "\<And>j. j < length ts \<Longrightarrow> disciplined False (rs ! j) (phase_of (wlock b) j) (ts ! j)"
    and w: "wlock_owner_ok (wlock b) (length ts)" "\<And>j. wlock b = WHeld j \<Longrightarrow> rlocks b = 0"
    using ok by (rule bot_okE) blast
  have "\<exists>k. can_move b ts k"
  proof (cases "wlock b")
    case WFree
    have "hd (ts ! i) \<noteq> LockWait" using rs(3) [OF i(1)] i(2) WFree by (cases "ts ! i") (auto simp: phase_of_def)
    then show ?thesis using i exec_unlocked [OF WFree, of "hd (ts ! i)" i] by (auto simp: can_move_def)
  next
    case (WHeld k)
    then have "k < length ts" "disciplined False (rs ! k) Held (ts ! k)"
      using w(1) rs(3) [of k] by (auto simp: wlock_owner_ok_def phase_of_def)
    then show ?thesis by (cases "(False, rs ! k, Held, ts ! k)" rule: disciplined.cases) (auto simp: can_move_def)
  next
    case (WPending k)
    then have k: "k < length ts" "disciplined False (rs ! k) Pending (ts ! k)"
      using w(1) rs(3) [of k] by (auto simp: wlock_owner_ok_def phase_of_def)
    show ?thesis
    proof (cases "rlocks b = 0")
      case True
      then show ?thesis using k by (cases "(False, rs ! k, Pending, ts ! k)" rule: disciplined.cases) (auto simp: can_move_def)
    next
      case False
      then obtain j where j: "j < length ts" "0 < rs ! j"
        using rs(1,2) by (auto simp: in_set_conv_nth)
      then have "can_move b ts j"
        using rs(3) [OF j(1)] WPending
        by (cases "(False, rs ! j, phase_of (wlock b) j, ts ! j)" rule: disciplined.cases)
          (auto simp: can_move_def phase_of_def split: option.splits handler.splits if_splits)
      then show ?thesis ..
    qed
  qed
  then show ?thesis using can_move_step by blast
qed


section \<open>Errors and their accounts\<close>

text \<open>The errors that code has yet to log, and those it has yet to hand to the handler.\<close>

fun to_log :: "'e instr \<Rightarrow> 'e multiset" where
  "to_log (LogErr e) = {#e#}"
| "to_log _ = {#}"

fun to_deliver :: "'e instr \<Rightarrow> 'e multiset" where
  "to_deliver (CallHandler e) = {#e#}"
| "to_deliver _ = {#}"

definition outstanding :: "('e instr \<Rightarrow> 'e multiset) \<Rightarrow> 'e instr list list \<Rightarrow> 'e multiset" where
  "outstanding f ts = sum_list (map (\<lambda>t. sum_list (map f t)) ts)"

fun reported :: "'e bot_call \<Rightarrow> 'e multiset" where
  "reported (CallHandleErr e) = {#e#}"
| "reported _ = {#}"

definition all_reported :: "'e bot_call list list \<Rightarrow> 'e multiset" where
  "all_reported css = sum_list (map (\<lambda>cs. sum_list (map reported cs)) css)"

fun keeps_handler :: "'e instr \<Rightarrow> bool" where
  "keeps_handler (Store h) \<longleftrightarrow> h \<noteq> None"
| "keeps_handler _ = True"

fun sets_handler :: "'e bot_call \<Rightarrow> bool" where
  "sets_handler (CallSetErrHandler h) \<longleftrightarrow> h \<noteq> None"
| "sets_handler _ = True"

text \<open>Nobody calls back into the bot, there is always a handler, and the accounts balance.\<close>

definition accounted :: "'e multiset \<Rightarrow> 'e bot_system \<Rightarrow> bool" where
  "accounted E s \<longleftrightarrow> bot_ok False s \<and> errHandler (fst s) \<noteq> None \<and> (\<forall>t \<in> set (snd s). list_all keeps_handler t) \<and>
     mset (logged (fst s)) + outstanding to_log (snd s) = E \<and>
     mset (map snd (delivered (fst s))) + outstanding to_deliver (snd s) = E"

definition at_rest :: "'e bot_system \<Rightarrow> bool" where
  "at_rest s \<longleftrightarrow> (\<forall>t \<in> set (snd s). t = [])"

definition code_left :: "'e bot_system \<Rightarrow> nat" where
  "code_left s = sum_list (map length (snd s))"

lemma outstanding_move:
  "i < length ts \<Longrightarrow> ts ! i = c # rest \<Longrightarrow> outstanding f ts = outstanding f (ts[i := rest]) + f c"
  using sum_list_share [of i "map (\<lambda>t. sum_list (map f t)) ts" "sum_list (map f rest)"]
  by (simp add: outstanding_def map_update ac_simps)

lemma code_left_move:
  "i < length ts \<Longrightarrow> ts ! i = c # rest \<Longrightarrow> code_left (b', ts[i := rest]) < code_left (b, ts)"
  using sum_list_share [of i "map length ts" "length rest"] by (simp add: code_left_def map_update)

text \<open>Where the handler is quiet, a step consumes one instruction and adds none.\<close>

lemma quiet_step:
  assumes "bot_ok False (b, ts)" and "i < length ts" and "ts ! i = c # rest" and "exec b i c = Some (b', pre)"
  shows "pre = []"
proof -
  have "quiet (errHandler b)" using assms(1) by (simp add: bot_ok_def)
  then show ?thesis using assms(4) by (cases c) (auto split: if_splits option.splits handler.splits)
qed

lemma accounted_step: "bot_step s s' \<Longrightarrow> accounted E s \<Longrightarrow> accounted E s' \<and> code_left s' < code_left s"
proof (induction rule: bot_step.induct)
  case (bot_step i ts c rest b b' pre)
  then have ok: "bot_ok False (b, ts)" and h: "errHandler b \<noteq> None" "\<forall>t \<in> set ts. list_all keeps_handler t"
    by (simp_all add: accounted_def)
  have [simp]: "pre = []" using quiet_step [OF ok bot_step(1-3)] .
  have "list_all keeps_handler (c # rest)" using h bot_step(1,2) nth_mem [of i ts] by metis
  then have "\<forall>t \<in> set (ts[i := rest]). list_all keeps_handler t" and "errHandler b' \<noteq> None"
    using h bot_step(3) set_update_subset_insert [of ts i rest]
    by (auto split: if_splits option.splits handler.splits elim!: exec.elims)
  moreover have "mset (logged b') = mset (logged b) + to_log c"
    and "mset (map snd (delivered b')) = mset (map snd (delivered b)) + to_deliver c"
    using bot_step(3) h(1) by (auto split: if_splits option.splits handler.splits elim!: exec.elims)
  ultimately show ?case
    using bot_step bot_ok_step [OF bot_step.intros [OF bot_step(1-3)] ok] code_left_move [OF bot_step(1,2)]
      outstanding_move [OF bot_step(1,2)]
    by (simp add: accounted_def ac_simps)
qed


lemma code_accounts:
  "sum_list (map to_log (code_of cs)) = sum_list (map reported cs)"
  "sum_list (map to_deliver (code_of cs)) = sum_list (map reported cs)"
  "list_all sets_handler cs \<Longrightarrow> list_all keeps_handler (code_of cs)"
proof (induction cs)
  case (Cons c cs)
  have head: "sum_list (map to_log (call_code c)) = reported c" "sum_list (map to_deliver (call_code c)) = reported c"
    "sets_handler c \<Longrightarrow> list_all keeps_handler (call_code c)"
    by (cases c; simp add: SetErrHandler_def)+
  { case 1 show ?case using Cons head by (simp add: code_of_def) }
  { case 2 show ?case using Cons head by (simp add: code_of_def) }
  { case 3 then show ?case using Cons head by (simp add: code_of_def) }
qed simp_all

text \<open>Programs in which every handler is set for good or replaced, and none calls back into the bot.\<close>

definition well_behaved :: "'e handler option \<Rightarrow> 'e bot_call list list \<Rightarrow> bool" where
  "well_behaved h css \<longleftrightarrow> h \<noteq> None \<and> quiet h \<and>
     (\<forall>cs \<in> set css. list_all sets_quiet cs \<and> list_all sets_handler cs)"

lemma accounted_start: "well_behaved h css \<Longrightarrow> accounted (all_reported css) (bot_start h css)"
  using bot_ok_start [of False h css]
  by (auto simp: accounted_def well_behaved_def bot_start_def new_bot_def outstanding_def all_reported_def
      code_accounts o_def)

interpretation reporting: progress_system "\<lambda>s. \<exists>h css. well_behaved h css \<and> all_reported css = E \<and> s = bot_start h css"
  bot_step "accounted E" code_left at_rest
proof unfold_locales
  fix s :: "'a bot_system"
  assume "accounted E s" "\<not> at_rest s"
  then obtain b ts i where "s = (b, ts)" "bot_ok False (b, ts)" "i < length ts" "ts ! i \<noteq> []"
    by (cases s) (auto simp: accounted_def at_rest_def in_set_conv_nth)
  then show "\<exists>t. bot_step s t" using quiet_progress by blast
qed (auto dest: accounted_step accounted_start)

lemma accounted_at_rest:
  assumes "accounted E s" and "at_rest s"
  shows "mset (logged (fst s)) = E \<and> mset (map snd (delivered (fst s))) = E \<and> rlocks (fst s) = 0 \<and> wlock (fst s) = WFree"
proof -
  obtain b ts where s: "s = (b, ts)" by (cases s)
  have "bot_ok False (b, ts)" using assms(1) s by (simp add: accounted_def)
  then obtain rs where rs: "length rs = length ts" "rlocks b = sum_list rs"
    "\<And>j. j < length ts \<Longrightarrow> disciplined False (rs ! j) (phase_of (wlock b) j) (ts ! j)"
    "wlock_owner_ok (wlock b) (length ts)"
    by (rule bot_okE) blast
  have d: "rs ! j = 0 \<and> phase_of (wlock b) j = Free" if "j < length ts" for j
  proof -
    have "ts ! j = []" using assms(2) nth_mem [OF that] s by (simp add: at_rest_def)
    then show ?thesis using rs(3) [OF that] by simp
  qed
  then have "rlocks b = 0" using rs(1,2) by (auto simp: in_set_conv_nth)
  moreover have "wlock b = WFree"
    using rs(4) d [of "case wlock b of WPending k \<Rightarrow> k | WHeld k \<Rightarrow> k | WFree \<Rightarrow> 0"]
    by (cases "wlock b") (auto simp: wlock_owner_ok_def phase_of_def)
  moreover have "outstanding f ts = {#}" for f
  proof -
    have "\<forall>t \<in> set ts. t = []" using assms(2) s by (simp add: at_rest_def)
    then show ?thesis unfolding outstanding_def by (induction ts) simp_all
  qed
  ultimately show ?thesis using assms(1) s by (simp add: accounted_def)
qed

lemma reaction_calls_quiet: "list_all sets_quiet (reaction_calls out) \<and> list_all sets_handler (reaction_calls out)"
  by (cases out rule: reaction_calls.cases) (simp_all add: list_all_iff)

lemma reported_reactions:
  fixes outs :: "(unit, 'u handled) outcome list"
  shows "all_reported (map reaction_calls outs) = mset (concat (map errors_of outs))"
proof -
  have "sum_list (map reported (map CallHandleErr errs)) = mset errs" for errs :: "bot_error list"
    by (induction errs) simp_all
  then have "sum_list (map reported (reaction_calls out)) = mset (errors_of out)" for out :: "(unit, 'u handled) outcome"
    by (cases out rule: reaction_calls.cases) simp_all
  then show ?thesis by (simp add: all_reported_def mset_concat o_def)
qed

text \<open>A goroutine that waits for the write lock while it holds a read lock waits forever.\<close>

definition stuck_in_set :: "nat \<Rightarrow> 'e bot_system \<Rightarrow> bool" where
  "stuck_in_set i s \<longleftrightarrow> i < length (snd s) \<and>
     (\<exists>r t. 0 < r \<and> (snd s ! i = LockW # t \<and> disciplined True r Pending t \<or> snd s ! i = LockWait # t \<and> disciplined True r Held t))"


lemma disciplined_unique: "disciplined nest r p t \<Longrightarrow> disciplined nest r' p' t \<Longrightarrow> r = r'"
  by (induction nest r p t arbitrary: r' p' rule: disciplined.induct) fastforce+

lemma stuck_in_set_step:
  assumes "bot_step s s'" and "bot_ok True s" and "stuck_in_set i s"
  shows "stuck_in_set i s'"
  using assms
proof (induction rule: bot_step.induct)
  case (bot_step j ts c rest b b' pre)
  show ?case
  proof (cases "j = i")
    case True
    from bot_step(5) obtain r t where r: "0 < r"
      and t: "ts ! i = LockW # t \<and> disciplined True r Pending t \<or> ts ! i = LockWait # t \<and> disciplined True r Held t"
      by (auto simp: stuck_in_set_def)
    obtain rs where rs: "length rs = length ts" "rlocks b = sum_list rs"
      "\<And>j. j < length ts \<Longrightarrow> disciplined True (rs ! j) (phase_of (wlock b) j) (ts ! j)"
      using bot_step(4) by (rule bot_okE) blast
    have "rs ! i = r"
      using t rs(3) [of i] bot_step(1) True by (auto dest: disciplined_unique)
    then have "0 < rlocks b"
      using r rs(1,2) bot_step(1) True elem_le_sum_list [of i rs] by simp
    then have "c = LockW" "rest = t" "disciplined True r Pending t"
      using t bot_step(2,3) True by auto
    then show ?thesis
      using r bot_step(1,3) True
      by (cases "(True, r, Pending, t)" rule: disciplined.cases) (auto simp: stuck_in_set_def split: if_splits)
  next
    case False
    then show ?thesis using bot_step(5) by (simp add: stuck_in_set_def)
  qed
qed

lemma stuck_in_set_forever:
  "bot_step\<^sup>*\<^sup>* s s' \<Longrightarrow> bot_ok True s \<Longrightarrow> stuck_in_set i s \<Longrightarrow> stuck_in_set i s'"
proof (induction rule: rtranclp_induct)
  case (step t u)
  then show ?case using stuck_in_set_step [of t u i] locking.steps_inv [of s t] by blast
qed simp

section \<open>Properties\<close>

text \<open>C40. Connect reports success with the Ready event that the library raised and an open session, or fails with the error
  of opening the session or of the context and leaves no session open. It also succeeds with a nil event, and
  that only when the context has expired and a Ready event was dropped.\<close>

theorem Connect_result:
  assumes "reachable (\<lambda>s. s = Connect_new discordNew token) (connect_step openErr) s"
    and "connect_at s = Returned res"
  shows "case res of
      Inr (Some r) \<Rightarrow> sess_open s \<and> fired s = Some r
    | Inr None \<Rightarrow> sess_open s \<and> ctx_err s \<noteq> None \<and> fired s \<noteq> None
    | Inl (CtxErr e) \<Rightarrow> \<not> sess_open s \<and> ctx_err s = Some e
    | Inl (OpenError e) \<Rightarrow> \<not> sess_open s \<and> openErr = Some e
    | Inl (NewError e) \<Rightarrow> \<not> sess_open s \<and> fired s = None"
  using connecting.reachable_inv [OF assms(1)] assms(2)
  by (auto simp: connect_ok_def split: sum.splits option.splits connect_error.splits)

text \<open>The race that loses the Ready event: the context expires, the handler of the event leaves and closes its
  channel, and \<open>Connect\<close> receives from the closed channel.\<close>

definition lost_race :: "nat connect" where
  "lost_race = \<lparr>ctx_err = Some ''deadline'', fired = Some 7, handler_at = Left, ready_closed = True,
     sess_open = True, connect_at = Returned (Inr None)\<rparr>"

lemma lost_race_reachable:
  "reachable (\<lambda>s. s = Connect_new (\<lambda>t. None) ''t'') (connect_step None) lost_race"
proof -
  let ?s0 = "connect_init :: nat connect"
  let ?s1 = "?s0\<lparr>ctx_err := Some ''deadline''\<rparr>"
  let ?s2 = "?s1\<lparr>fired := Some 7, handler_at := Offering 7\<rparr>"
  let ?s3 = "?s2\<lparr>handler_at := Leaving\<rparr>"
  let ?s4 = "?s3\<lparr>handler_at := Left, ready_closed := True\<rparr>"
  let ?s5 = "?s4\<lparr>sess_open := True, connect_at := Selecting\<rparr>"
  let ?s6 = "?s5\<lparr>connect_at := Returned (Inr None)\<rparr>"
  have s1: "connect_step None ?s0 ?s1" by (rule expire) (simp add: connect_init_def)
  have s2: "connect_step None ?s1 ?s2" by (rule ready_event) (simp_all add: connect_init_def)
  have s3: "connect_step None ?s2 ?s3" by (rule handler_ctx) (simp_all add: connect_init_def)
  have s4: "connect_step None ?s3 ?s4" by (rule handler_close) (simp add: connect_init_def)
  have s5: "connect_step None ?s4 ?s5" by (rule open_ok) (simp_all add: connect_init_def)
  have s6: "connect_step None ?s5 ?s6" by (rule select_closed) (simp_all add: connect_init_def)
  have eq: "?s6 = lost_race" by (simp add: connect_init_def lost_race_def)
  have s0: "reachable (\<lambda>s. s = Connect_new (\<lambda>t. None) ''t'') (connect_step None) ?s0"
    by (rule reachable_init) (simp add: Connect_new_def)
  have "(connect_step None)\<^sup>*\<^sup>* ?s0 ?s6"
    using s1 s2 s3 s4 s5 s6 by (meson rtranclp.rtrancl_into_rtrancl rtranclp.rtrancl_refl)
  then show ?thesis unfolding eq by (rule connecting.reachable_steps [OF _ s0])
qed

theorem Connect_result_witness:
  "connect_at lost_race = Returned (Inr None) \<and> sess_open lost_race \<and> ctx_err lost_race \<noteq> None \<and> fired lost_race \<noteq> None"
proof -
  have "connect_at lost_race = Returned (Inr None)" by (simp add: lost_race_def)
  then show ?thesis using Connect_result [OF lost_race_reachable] by fastforce
qed

text \<open>Once the context has expired, or the session is open and the Ready event was raised, \<open>Connect\<close> does not wait: as
  long as it has not returned it can take its next step, and so can the goroutine of the Ready handler, which is
  left behind by no return of \<open>Connect\<close> under an expired context.\<close>

theorem Connect_not_stuck:
  assumes "reachable (\<lambda>s. s = Connect_new discordNew token) (connect_step openErr) s"
  shows "(connect_at s = Opening \<longrightarrow> (\<exists>t. connect_step openErr s t \<and> connect_at t \<noteq> Opening)) \<and>
    (connect_at s = Selecting \<and> (ctx_err s \<noteq> None \<or> (\<exists>r. handler_at s = Offering r)) \<longrightarrow>
       (\<exists>t res. connect_step openErr s t \<and> connect_at t = Returned res)) \<and>
    (connect_at s = Selecting \<and> fired s \<noteq> None \<and> ctx_err s = None \<longrightarrow> (\<exists>r. handler_at s = Offering r)) \<and>
    (ctx_err s \<noteq> None \<and> fired s \<noteq> None \<and> handler_at s \<noteq> Left \<longrightarrow>
       (\<exists>t. connect_step openErr s t \<and> handler_at t \<noteq> handler_at s))"
proof -
  have ok: "connect_ok openErr s" by (rule connecting.reachable_inv [OF assms])
  have "\<exists>t. connect_step openErr s t \<and> connect_at t \<noteq> Opening" if "connect_at s = Opening"
  proof (cases openErr)
    case None
    show ?thesis using open_ok [OF that None] by (intro exI) auto
  next
    case (Some e)
    show ?thesis using open_fails [OF that Some] by (intro exI) auto
  qed
  moreover have "\<exists>t res. connect_step openErr s t \<and> connect_at t = Returned res"
    if "connect_at s = Selecting" "ctx_err s \<noteq> None \<or> (\<exists>r. handler_at s = Offering r)"
    using that(2)
  proof
    assume "ctx_err s \<noteq> None"
    then obtain e where "ctx_err s = Some e" by blast
    then show ?thesis using select_ctx [OF that(1)] by (intro exI conjI) (assumption | simp)+
  next
    assume "\<exists>r. handler_at s = Offering r"
    then obtain r where "handler_at s = Offering r" ..
    then show ?thesis using select_ready [OF that(1)] by (intro exI) auto
  qed
  moreover have "\<exists>r. handler_at s = Offering r" if "connect_at s = Selecting" "fired s \<noteq> None" "ctx_err s = None"
    using ok that by (cases "handler_at s") (auto simp: connect_ok_def)
  moreover have "\<exists>t. connect_step openErr s t \<and> handler_at t \<noteq> handler_at s"
    if "ctx_err s \<noteq> None" "fired s \<noteq> None" "handler_at s \<noteq> Left"
  proof (cases "handler_at s")
    case (Offering r)
    show ?thesis using handler_ctx [OF Offering that(1)] Offering by (intro exI) auto
  next
    case Leaving
    show ?thesis using handler_close [OF Leaving] Leaving by (intro exI) auto
  qed (use ok that in \<open>auto simp: connect_ok_def\<close>)
  ultimately show ?thesis by blast
qed


theorem Connect_not_stuck_witness:
  "\<exists>t. connect_step None (Connect_new (\<lambda>t. None) ''t'' :: nat connect) t \<and> connect_at t \<noteq> Opening"
proof -
  have "reachable (\<lambda>s. s = Connect_new (\<lambda>t. None) ''t'') (connect_step None) (Connect_new (\<lambda>t. None) ''t'' :: nat connect)"
    by (rule reachable_init) simp
  moreover have "connect_at (Connect_new (\<lambda>t. None) ''t'' :: nat connect) = Opening"
    by (simp add: Connect_new_def connect_init_def)
  ultimately show ?thesis using Connect_not_stuck by blast
qed

text \<open>The error handler is replaced only while nobody reads it: in every state that goroutines calling \<open>SetErrHandler\<close>
  and \<open>handleErr\<close> in any way reach, also from within handlers, a goroutine that is changing the handler excludes every
  other that is changing it and every one that is about to call it or inside it.\<close>

theorem errHandler_exclusive:
  assumes "reachable (\<lambda>s. s = bot_start h css) bot_step (b, ts)"
    and "i < length ts" and "j < length ts" and "writing (ts ! i)"
  shows "\<not> reading (ts ! j) \<and> (writing (ts ! j) \<longrightarrow> j = i)"
  using writing_alone [OF locking.reachable_inv [OF assms(1)] assms(2-4)] by blast

theorem errHandler_exclusive_witness:
  "\<exists>b ts. reachable (\<lambda>s. s = bot_start None [[CallSetErrHandler None], [CallHandleErr ''a'']]) bot_step (b, ts) \<and>
     writing (ts ! 0) \<and> \<not> reading (ts ! 1) \<and> \<not> writing (ts ! 1)"
proof -
  let ?start = "bot_start None [[CallSetErrHandler None], [CallHandleErr ''a'']]"
  let ?b = "(new_bot None)\<lparr>wlock := WHeld 0, logged := [''a'']\<rparr>"
  let ?ts = "[[Store None, UnlockW], [RLock, CallHandler ''a'', RUnlock]]"
  have "scheduled ?start [0, 1, 0] = Some (?b, ?ts)"
    by (simp add: bot_start_def code_of_def SetErrHandler_def new_bot_def)
  then have r: "reachable (\<lambda>s. s = ?start) bot_step (?b, ?ts)"
    by (intro locking.reachable_steps [OF scheduled_steps reachable_init]) simp_all
  from r errHandler_exclusive [OF r, of 0 1] show ?thesis by (intro exI [of _ ?b] exI [of _ ?ts]) simp
qed

text \<open>C14. Reporting errors is free of deadlock and loses nothing, as long as handlers do not call back into the bot: whatever
  the interleaving of goroutines that report errors and replace the handler by another, every run comes to rest
  within as many steps as there is code, a run that is not at rest can continue, and at rest every reported error has been logged exactly once and
  handed exactly once to a handler, with the locks free.\<close>

theorem handleErr_delivers:
  assumes "well_behaved h css"
  shows "((bot_step ^^ n) (bot_start h css) s \<longrightarrow> n \<le> code_left (bot_start h css)) \<and>
    (bot_step\<^sup>*\<^sup>* (bot_start h css) s \<longrightarrow> at_rest s \<or> (\<exists>s'. bot_step s s')) \<and>
    (bot_step\<^sup>*\<^sup>* (bot_start h css) s \<and> at_rest s \<longrightarrow>
       mset (logged (fst s)) = all_reported css \<and> mset (map snd (delivered (fst s))) = all_reported css \<and>
       rlocks (fst s) = 0 \<and> wlock (fst s) = WFree) \<and>
    (\<exists>s'. bot_step\<^sup>*\<^sup>* (bot_start h css) s' \<and> at_rest s')"
  using accounted_start [OF assms] reporting.run_bounded [of n "bot_start h css" s]
    reporting.steps_inv [of "bot_start h css" s] reporting.progress [of _ s] accounted_at_rest [of _ s]
    reporting.reaches_final [of _ "bot_start h css"]
  by (meson le_add1 le_trans)

theorem handleErr_delivers_witness:
  "well_behaved (Some (Handler 0 [])) [[CallHandleErr ''a''], [CallSetErrHandler (Some (Handler 1 [])), CallHandleErr ''b'']] \<and>
   (\<exists>s'. bot_step\<^sup>*\<^sup>* (bot_start (Some (Handler 0 [])) [[CallHandleErr ''a''], [CallSetErrHandler (Some (Handler 1 [])), CallHandleErr ''b'']]) s' \<and>
      at_rest s')"
proof -
  have "well_behaved (Some (Handler 0 [])) [[CallHandleErr ''a''], [CallSetErrHandler (Some (Handler 1 [])), CallHandleErr ''b'']]"
    by (simp add: well_behaved_def)
  then show ?thesis using handleErr_delivers by blast
qed

text \<open>C15. A handler that sets the error handler deadlocks: \<open>handleErr\<close> calls it under the read lock, and the goroutine then
  waits for the write lock for ever, whatever the others do.\<close>

theorem SetErrHandler_in_handler_hangs:
  assumes "reachable (\<lambda>s. s = bot_start h css) bot_step (b, ts)"
    and "i < length ts" and "ts ! i = CallHandler e # rest"
    and "errHandler b = Some (Handler n (CallSetErrHandler h' # cs))"
    and "bot_step\<^sup>*\<^sup>* (b\<lparr>delivered := delivered b @ [(n, e)]\<rparr>, ts[i := code_of (CallSetErrHandler h' # cs) @ rest]) s'"
  shows "\<exists>t. snd s' ! i = LockW # t \<or> snd s' ! i = LockWait # t"
proof -
  let ?s = "(b\<lparr>delivered := delivered b @ [(n, e)]\<rparr>, ts[i := code_of (CallSetErrHandler h' # cs) @ rest])"
  have ok: "bot_ok True (b, ts)" by (rule locking.reachable_inv [OF assms(1)])
  have step: "bot_step (b, ts) ?s" using assms(2-4) by (intro bot_step.intros [where c = "CallHandler e"]) (assumption | simp)+
  obtain rs where "\<And>j. j < length ts \<Longrightarrow> disciplined True (rs ! j) (phase_of (wlock b) j) (ts ! j)"
    using ok by (rule bot_okE) blast
  from this [OF assms(2)] have d: "0 < rs ! i" "disciplined True (rs ! i) Free (code_of (CallSetErrHandler h' # cs) @ rest)"
    using assms(3) by (simp_all add: disciplined_code)
  then have "stuck_in_set i ?s"
    using assms(2) by (auto simp: stuck_in_set_def code_of_def SetErrHandler_def)
  then have "stuck_in_set i s'"
    using stuck_in_set_forever [OF assms(5)] bot_ok_step [OF step ok] by blast
  then show ?thesis by (auto simp: stuck_in_set_def)
qed

theorem SetErrHandler_in_handler_hangs_witness:
  "\<exists>s' t. bot_step\<^sup>*\<^sup>* (bot_start (Some (Handler 0 [CallSetErrHandler None])) [[CallHandleErr ''a'']]) s' \<and>
     (snd s' ! 0 = LockW # t \<or> snd s' ! 0 = LockWait # t)"
proof -
  let ?h = "Some (Handler 0 [CallSetErrHandler None])"
  let ?start = "bot_start ?h [[CallHandleErr ''a'']]"
  let ?b = "(new_bot ?h)\<lparr>rlocks := 1, logged := [''a'']\<rparr>"
  let ?s1 = "(?b\<lparr>delivered := delivered ?b @ [(0, ''a'')]\<rparr>, [[CallHandler ''a'', RUnlock]][0 := code_of [CallSetErrHandler None] @ [RUnlock]])"
  let ?s2 = "(?b\<lparr>delivered := [(0, ''a'')], wlock := WPending 0\<rparr>, [[LockWait, Store None, UnlockW, RUnlock]])"
  have "scheduled ?start [0, 0] = Some (?b, [[CallHandler ''a'', RUnlock]])"
    by (simp add: bot_start_def code_of_def SetErrHandler_def new_bot_def)
  then have r: "reachable (\<lambda>s. s = ?start) bot_step (?b, [[CallHandler ''a'', RUnlock]])"
    by (intro locking.reachable_steps [OF scheduled_steps reachable_init]) simp_all
  have "scheduled ?s1 [0] = Some ?s2"
    by (simp add: code_of_def SetErrHandler_def new_bot_def)
  note s2 = scheduled_steps [OF this]
  have "scheduled ?start [0, 0, 0, 0] = Some ?s2"
    by (simp add: bot_start_def code_of_def SetErrHandler_def new_bot_def)
  from scheduled_steps [OF this] SetErrHandler_in_handler_hangs [OF r _ _ _ s2]
  show ?thesis by (intro exI [of _ ?s2]) (simp add: new_bot_def)
qed

text \<open>Reactions and the error handler together: the library runs the handlers of many events at once, each in its
  goroutine. With a handler that does not call back into the bot, and as long as no event panics, everything that went
  wrong in any of them, no more and no less, has reached the handler when the goroutines are done, and they do get done.\<close>

theorem reactions_reported:
  "(\<exists>s. bot_step\<^sup>*\<^sup>* (bot_start (Some (Handler n [])) (map reaction_calls outs)) s \<and> at_rest s) \<and>
   (\<forall>s. bot_step\<^sup>*\<^sup>* (bot_start (Some (Handler n [])) (map reaction_calls outs)) s \<and> at_rest s \<longrightarrow>
      mset (map snd (delivered (fst s))) = mset (concat (map errors_of outs)))"
proof -
  have "accounted (all_reported (map reaction_calls outs)) (bot_start (Some (Handler n [])) (map reaction_calls outs))"
    by (rule accounted_start) (simp add: well_behaved_def reaction_calls_quiet)
  then have acc: "accounted (mset (concat (map errors_of outs))) (bot_start (Some (Handler n [])) (map reaction_calls outs))"
    by (simp only: reported_reactions)
  show ?thesis
    using reporting.reaches_final [OF acc] reporting.steps_inv [OF _ acc] accounted_at_rest by blast
qed

theorem reactions_reported_witness:
  "\<exists>s. bot_step\<^sup>*\<^sup>* (bot_start (Some (Handler 5 [])) (map reaction_calls
        [Ret ([], [UserError ''gone'']), Ret ([] :: string reaction list, [])])) s \<and>
     mset (map snd (delivered (fst s))) = {#UserError ''gone''#}"
  using reactions_reported [of 5 "[Ret ([], [UserError ''gone'']), Ret ([] :: string reaction list, [])]"] by fastforce

text \<open>A reaction to a message leads to exactly one call of the callback when the emoji is the requested one, or any was
  requested, and the message and the user are found; the callback is told the author of the message as the receiver.
  Whenever something fails, the error handler is told. For an added reaction without a member, as in direct
  messages, the bot panics.\<close>

theorem reactions_handled:
  "(\<forall>calls errs. OnEmojiRemoved s name cb ev = Ret (calls, errs) \<longrightarrow>
      (calls \<noteq> [] \<longleftrightarrow> shouldProcessEmoji (emoji ev) name \<and>
         (\<exists>a u. ChannelMessage s (ChannelID ev) (MessageID ev) = Inr a \<and> User s (UserID ev) = Inr u \<and>
            calls = [\<lparr>Giver = u, Receiver = a, MessageReaction = ev\<rparr>])) \<and>
      (errs = [] \<longleftrightarrow> \<not> shouldProcessEmoji (emoji ev) name \<or> (\<exists>r. calls = [r] \<and> cb r = None))) \<and>
   (OnEmojiAdded s name cb ev = Panic \<longleftrightarrow>
      shouldProcessEmoji (emoji ev) name \<and> (\<exists>a. ChannelMessage s (ChannelID ev) (MessageID ev) = Inr a) \<and> Member ev = None)"
  by (auto simp: OnEmojiRemoved_def OnEmojiAdded_def call_back_def split: sum.splits option.splits if_splits)

end
