(* ===== verification/DemoServer.thy ===== *)
theory DemoServer
  imports SimBackend
begin

text \<open>
  The demo server (\<open>demo/server/server.go\<close>): a contract on a simulated chain behind a gRPC service with an
  interceptor. The generated binding of the contract, the listener and gRPC are arguments.
\<close>

section \<open>The demo server\<close>

datatype demo_error = EchoFailed string | EndTooLarge u32 | SendFailed string

definition Echo :: "(string \<Rightarrow> string + string) \<Rightarrow> string \<Rightarrow> (demo_error, string) outcome" where
  "Echo contractEcho payload =
     (case contractEcho payload of Inl e \<Rightarrow> Fail (EchoFailed e) | Inr resp \<Rightarrow> Ret (''Go: '' @ resp))"

text \<open>The numbers that are sent, and the error. The loop stops at the first failing send.\<close>

lemma unat_next: "i < e \<Longrightarrow> unat (i + 1 :: u32) = Suc (unat i)"
  using unsigned_less [of e, where ?'a = nat] by (simp add: word_less_nat_alt unat_word_ariths)

function count_from :: "(u32 \<Rightarrow> string option) \<Rightarrow> u32 \<Rightarrow> u32 \<Rightarrow> u32 list \<times> demo_error option" where
  "count_from srvSend i e =
     (if i < e
      then (case srvSend i of
              Some er \<Rightarrow> ([], Some (SendFailed er))
            | None \<Rightarrow> (case count_from srvSend (i + 1) e of (ns, er) \<Rightarrow> (i # ns, er)))
      else ([], None))"
  by pat_completeness auto
termination
proof (relation "measure (\<lambda>(f, i, e). unat e - unat i)")
  fix i e :: u32
  assume "i < e"
  then have "unat i < unat e" by (simp add: word_less_nat_alt)
  moreover have "unat (i + 1) = Suc (unat i)"
    using \<open>i < e\<close> by (rule unat_next)
  ultimately show "((srvSend, i + 1, e), srvSend, i, e) \<in> measure (\<lambda>(f, i, e). unat e - unat i)" for srvSend by simp
qed simp

definition Count :: "(u32 \<Rightarrow> string option) \<Rightarrow> u32 \<Rightarrow> u32 list \<times> demo_error option" where
  "Count srvSend e = (if 16 < e then ([], Some (EndTooLarge e)) else count_from srvSend 0 e)"

datatype demo_resp = EchoResponse string | OtherResponse

definition intercept :: "('q \<Rightarrow> (demo_error, demo_resp) outcome) \<Rightarrow> 'q \<Rightarrow> (demo_error, demo_resp) outcome" where
  "intercept handler req =
     obind (handler req) (\<lambda>r. Ret (case r of EchoResponse p \<Rightarrow> EchoResponse (''gRPC: '' @ p) | OtherResponse \<Rightarrow> OtherResponse))"

section \<open>Starting the server\<close>

text \<open>The service holds the contract that was deployed, as what its \<open>Echo\<close> returns.\<close>

record demo =
  contract :: "string \<Rightarrow> string + string"

datatype demo_start_error = NewBackendError sim_error | DeployError string | DemoListen string | DemoServe string

definition newDemo ::
  "('c, 'tx) geth_backend \<Rightarrow> ('k, 'sg) key_api \<Rightarrow>
   ('sg transact_opts \<Rightarrow> ('c, 'k, 'sg) backend \<Rightarrow> string + (string \<Rightarrow> string + string)) \<Rightarrow> (demo_start_error, demo) outcome" where
  "newDemo g api deployDemo =
     obind (map_fail NewBackendError (NewSimulatedBackend g api 1)) (\<lambda>(sb, _).
     obind (map_fail NewBackendError (Acc sb 0)) (\<lambda>opts.
     obind (attempt DeployError (deployDemo opts sb)) (\<lambda>c.
       Ret \<lparr>contract = c\<rparr>)))"

text \<open>The text of the ABI is a constant of the generated package.\<close>

definition Abi :: "string \<Rightarrow> (demo_error, string) outcome" where
  "Abi demoABI = Ret demoABI"

text \<open>\<open>main\<close>: the error it exits with, if any.\<close>

definition demo_main ::
  "(demo_start_error, demo) outcome \<Rightarrow> (string \<Rightarrow> string option) \<Rightarrow> (demo \<Rightarrow> string option) \<Rightarrow> int \<Rightarrow>
   (demo_start_error, unit) outcome" where
  "demo_main created listen serve port =
     obind created (\<lambda>d.
     obind (case listen ('':'' @ Text port 10) of Some e \<Rightarrow> Fail (DemoListen e) | None \<Rightarrow> Ret ()) (\<lambda>_.
       case serve d of Some e \<Rightarrow> Fail (DemoServe e) | None \<Rightarrow> Ret ()))"

section \<open>Facts\<close>

declare count_from.simps [simp del]

lemma count_from_all:
  "(\<And>i. srvSend i = None) \<Longrightarrow> count_from srvSend i e = (map word_of_nat [unat i..<unat e], None)"
proof (induction srvSend i e rule: count_from.induct)
  case (1 srvSend i e)
  show ?case
  proof (cases "i < e")
    case True
    then have "[unat i..<unat e] = unat i # [unat (i + 1)..<unat e]"
      by (simp add: unat_next word_less_nat_alt upt_conv_Cons)
    moreover have "count_from srvSend (i + 1) e = (map word_of_nat [unat (i + 1)..<unat e], None)"
      by (rule 1(1) [OF True 1(2) 1(2)])
    ultimately show ?thesis using True 1(2) by (subst count_from.simps) simp
  next
    case False
    then show ?thesis by (subst count_from.simps) (simp add: word_less_nat_alt)
  qed
qed

lemma Echo_through_stack:
  "intercept (\<lambda>p. obind (Echo contractEcho p) (\<lambda>r. Ret (EchoResponse r))) payload =
     (case contractEcho payload of Inl e \<Rightarrow> Fail (EchoFailed e) | Inr r \<Rightarrow> Ret (EchoResponse (''gRPC: Go: '' @ r)))"
  by (simp add: intercept_def Echo_def split: sum.split)

text \<open>The account that deploys the contract exists.\<close>

lemma first_account: "NewSimulatedBackend g api 1 = Ret (sb, al) \<Longrightarrow> \<exists>opts. Acc sb 0 = Ret opts"
  by (auto simp: NewSimulatedBackend_def outcome_simps Acc_def index_def dest!: create_accounts_balance)

section \<open>Properties\<close>

text \<open>The demo end to end: the account that deploys the contract always exists, an echo carries the marks of every
  layer it went through, and counting sends every number below the end, in order, for an end of at most
  sixteen and nothing beyond.\<close>

theorem demo_end_to_end:
  "(newDemo g api deployDemo \<noteq> Panic \<or> NewSimulatedBackend g api 1 = Panic) \<and>
   (newDemo g api deployDemo = Ret d \<longrightarrow>
     intercept (\<lambda>p. obind (Echo (contract d) p) (\<lambda>r. Ret (EchoResponse r))) payload =
       (case contract d payload of Inl e \<Rightarrow> Fail (EchoFailed e) | Inr r \<Rightarrow> Ret (EchoResponse (''gRPC: Go: '' @ r)))) \<and>
   ((\<forall>i. srvSend i = None) \<longrightarrow>
     Count srvSend e = (if e \<le> 16 then (map word_of_nat [0..<unat e], None) else ([], Some (EndTooLarge e))))"
proof (intro conjI impI)
  show "newDemo g api deployDemo \<noteq> Panic \<or> NewSimulatedBackend g api 1 = Panic"
    using first_account [of g api] by (fastforce simp: newDemo_def outcome_simps)
next
  show "intercept (\<lambda>p. obind (Echo (contract d) p) (\<lambda>r. Ret (EchoResponse r))) payload =
       (case contract d payload of Inl e \<Rightarrow> Fail (EchoFailed e) | Inr r \<Rightarrow> Ret (EchoResponse (''gRPC: Go: '' @ r)))"
    by (rule Echo_through_stack)
next
  assume "\<forall>i. srvSend i = None"
  then show "Count srvSend e = (if e \<le> 16 then (map word_of_nat [0..<unat e], None) else ([], Some (EndTooLarge e)))"
    using count_from_all [of srvSend 0 e] by (auto simp: Count_def not_le)
qed

end
