(* ===== verification/GoTest.thy ===== *)
theory GoTest
  imports Prelude
begin

text \<open>
  What the repository uses of \<open>testing.TB\<close>: a test fails, stops at a fatal error, and runs the functions that
  were registered with \<open>Cleanup\<close> when it is over, the last one first. A function for tests that creates something and
  registers its release is stated once, as an interface, for all of them.
\<close>

section \<open>Tests\<close>

text \<open>A clean-up function returns whether it reported an error on the test.\<close>

type_synonym 's cleanup = "'s \<Rightarrow> bool \<times> 's"

record 's tb =
  tb_failed :: bool
  tb_stack :: "'s cleanup list"
  world :: 's

definition start_tb :: "'s \<Rightarrow> 's tb" where
  "start_tb w = \<lparr>tb_failed = False, tb_stack = [], world = w\<rparr>"

text \<open>A function that takes a test: no result when it stops the test.\<close>

type_synonym ('a, 's) tested_fun = "'s tb \<Rightarrow> 'a option \<times> 's tb"

definition tb_Fatal :: "('a, 's) tested_fun" where
  "tb_Fatal t = (None, t\<lparr>tb_failed := True\<rparr>)"

definition tb_Cleanup :: "'s cleanup \<Rightarrow> 's tb \<Rightarrow> 's tb" where
  "tb_Cleanup f t = t\<lparr>tb_stack := f # tb_stack t\<rparr>"

definition tbind :: "('a, 's) tested_fun \<Rightarrow> ('a \<Rightarrow> ('b, 's) tested_fun) \<Rightarrow> ('b, 's) tested_fun" where
  "tbind m f t = (case m t of (None, t') \<Rightarrow> (None, t') | (Some x, t') \<Rightarrow> f x t')"

lemma tbind_Some: "tbind m f t = (Some y, t') \<longleftrightarrow> (\<exists>x t1. m t = (Some x, t1) \<and> f x t1 = (Some y, t'))"
  by (auto simp: tbind_def split: prod.splits option.splits)

text \<open>A call that may fail, whose error is fatal; and one that also registers a clean-up.\<close>

definition tb_call :: "('s \<Rightarrow> ('e + 'r) \<times> 's) \<Rightarrow> ('r, 's) tested_fun" where
  "tb_call f t = (case f (world t) of (Inl e, w) \<Rightarrow> tb_Fatal (t\<lparr>world := w\<rparr>) | (Inr r, w) \<Rightarrow> (Some r, t\<lparr>world := w\<rparr>))"

definition acquire_tb :: "('s \<Rightarrow> ('e + 'r) \<times> 's) \<Rightarrow> ('r \<Rightarrow> 's cleanup) \<Rightarrow> ('r, 's) tested_fun" where
  "acquire_tb acquire release = tbind (tb_call acquire) (\<lambda>r t. (Some r, tb_Cleanup (release r) t))"

text \<open>The end of a test.\<close>

fun run_stack :: "'s cleanup list \<Rightarrow> 's tb \<Rightarrow> 's tb" where
  "run_stack [] t = t"
| "run_stack (f # fs) t = (case f (world t) of (bad, w) \<Rightarrow> run_stack fs (t\<lparr>world := w, tb_failed := tb_failed t \<or> bad\<rparr>))"

definition tb_end :: "'s tb \<Rightarrow> 's tb" where
  "tb_end t = run_stack (tb_stack t) (t\<lparr>tb_stack := []\<rparr>)"

text \<open>Creating several, one after the other, as a test does.\<close>

fun acquire_all :: "('x \<Rightarrow> ('r, 's) tested_fun) \<Rightarrow> 'x list \<Rightarrow> ('r list, 's) tested_fun" where
  "acquire_all f [] t = (Some [], t)"
| "acquire_all f (x # xs) t = tbind (f x) (\<lambda>r. tbind (acquire_all f xs) (\<lambda>rs t. (Some (r # rs), t))) t"

section \<open>Nothing is left behind\<close>

lemma run_stack_failed: "tb_failed t \<Longrightarrow> tb_failed (run_stack fs t)"
  by (induction fs t rule: run_stack.induct) (auto split: prod.splits)

text \<open>
  What a creation owes the test: success adds to what is held, and a release that reports no error takes
  the same away. A test that passes then ends with what it started with.
\<close>

locale test_resource =
  fixes acquire :: "'x \<Rightarrow> 's \<Rightarrow> ('e + 'r) \<times> 's"
    and release :: "'r \<Rightarrow> 's cleanup"
    and held :: "'s \<Rightarrow> 'h multiset"
    and share :: "'r \<Rightarrow> 'h multiset"
    and sane :: "'x \<Rightarrow> bool"
  assumes acquired: "sane x \<Longrightarrow> acquire x w = (Inr r, w') \<Longrightarrow> held w' = held w + share r"
    and released: "sane x \<Longrightarrow> acquire x v = (Inr r, v') \<Longrightarrow> release r w = (False, w') \<Longrightarrow> held w' = held w - share r"
begin

definition owes :: "'s tb \<Rightarrow> 'h multiset \<Rightarrow> bool" where
  "owes t base \<longleftrightarrow> (\<exists>rs. tb_stack t = map release rs \<and> held (world t) = base + sum_list (map share rs) \<and>
     (\<forall>r \<in> set rs. \<exists>x v v'. sane x \<and> acquire x v = (Inr r, v')))"

lemma owes_acquire:
  assumes "owes t base" and "sane x" and "acquire_tb (acquire x) release t = (Some r, t')"
  shows "owes t' base"
proof -
  obtain rs where rs: "tb_stack t = map release rs" "held (world t) = base + sum_list (map share rs)"
    "\<forall>r \<in> set rs. \<exists>x v v'. sane x \<and> acquire x v = (Inr r, v')"
    using assms(1) by (auto simp: owes_def)
  obtain w where w: "acquire x (world t) = (Inr r, w)" and t': "t' = tb_Cleanup (release r) (t\<lparr>world := w\<rparr>)"
    using assms(3) by (auto simp: acquire_tb_def tbind_def tb_call_def tb_Fatal_def split: prod.splits sum.splits)
  have "held w = base + sum_list (map share (r # rs))"
    using acquired [OF assms(2) w] rs(2) by (simp add: ac_simps)
  moreover have "tb_stack t' = map release (r # rs)" "world t' = w" using t' rs(1) by (simp_all add: tb_Cleanup_def)
  ultimately show ?thesis
    using rs(3) w assms(2) unfolding owes_def by (intro exI [of _ "r # rs"]) auto
qed

lemma owes_acquire_all:
  "owes t base \<Longrightarrow> list_all sane xs \<Longrightarrow> acquire_all (\<lambda>x. acquire_tb (acquire x) release) xs t = (Some rs, t') \<Longrightarrow> owes t' base"
proof (induction xs arbitrary: t rs)
  case (Cons x xs)
  then obtain r t1 rs' where r: "acquire_tb (acquire x) release t = (Some r, t1)"
    "acquire_all (\<lambda>x. acquire_tb (acquire x) release) xs t1 = (Some rs', t')"
    by (auto simp: tbind_def split: prod.splits option.splits)
  have "owes t1 base" using owes_acquire [OF Cons.prems(1) _ r(1)] Cons.prems(2) by simp
  then show ?case using Cons.IH [OF _ _ r(2)] Cons.prems(2) by simp
qed simp

lemma run_stack_releases:
  assumes "\<not> tb_failed (run_stack (map release rs) t)"
    and "held (world t) = base + sum_list (map share rs)" and "\<forall>r \<in> set rs. \<exists>x v v'. sane x \<and> acquire x v = (Inr r, v')"
  shows "held (world (run_stack (map release rs) t)) = base"
  using assms
proof (induction rs arbitrary: t)
  case (Cons r rs)
  obtain bad w where w: "release r (world t) = (bad, w)" by (cases "release r (world t)")
  let ?t = "t\<lparr>world := w, tb_failed := tb_failed t \<or> bad\<rparr>"
  have good: "\<not> bad" using Cons.prems(1) w run_stack_failed [of ?t "map release rs"] by auto
  obtain x v v' where x: "sane x" "acquire x v = (Inr r, v')" using Cons.prems(3) by auto
  have "held w = held (world t) - share r" using released [OF x] w good by simp
  then have "held w = base + sum_list (map share rs)" using Cons.prems(2) by simp
  then show ?case using Cons.IH [of ?t] Cons.prems(1,3) w by simp
qed simp

lemma nothing_left:
  assumes "list_all sane xs" and "acquire_all (\<lambda>x. acquire_tb (acquire x) release) xs (start_tb w) = (Some rs, t)"
    and "\<not> tb_failed (tb_end t)"
  shows "held (world (tb_end t)) = held w"
proof -
  have "owes (start_tb w) (held w)" by (auto simp: owes_def start_tb_def)
  then have "owes t (held w)" by (rule owes_acquire_all) (use assms in auto)
  then show ?thesis
    using assms(3) run_stack_releases [of _ "t\<lparr>tb_stack := []\<rparr>" "held w"] unfolding owes_def tb_end_def by fastforce
qed

end

end
