(* ===== verification/TestSetup.thy ===== *)
theory TestSetup
  imports GoTest SimBackend Spawner GrpcTest FirehoseTest HydrantService
begin

text \<open>
  The functions of the repository that set up things for a test and clean up after it: simulated chains
  (\<open>go/ethtest/simbackend.go\<close>), databases (\<open>go/spawner/singletons.go\<close>), gRPC servers (\<open>go/grpctest/grpctest.go\<close>) and the fake
  Firehose that combines them (\<open>go/firehose/firehosetest/firehosetest.go\<close>). The state of the world is what is open or running.
\<close>

record ('b, 'r, 'c) test_world =
  sims :: "'b multiset"
  containers :: "'r multiset"
  servers :: "string multiset"
  conns :: "'c multiset"

section \<open>Simulated chains\<close>

definition sim_acquire ::
  "('c, 'tx) geth_backend \<Rightarrow> ('k, 'sg) key_api \<Rightarrow> int \<Rightarrow> (('c, 'k, 'sg) backend, 'r, 'n) test_world \<Rightarrow>
   (sim_error option + ('c, 'k, 'sg) backend) \<times> (('c, 'k, 'sg) backend, 'r, 'n) test_world" where
  "sim_acquire g api n w =
     (case NewSimulatedBackend g api n of
        Ret (sb, al) \<Rightarrow> (Inr sb, w\<lparr>sims := add_mset sb (sims w)\<rparr>)
      | Fail e \<Rightarrow> (Inl (Some e), w)
      | Panic \<Rightarrow> (Inl None, w))"

text \<open>An error of closing is reported on the test.\<close>

definition sim_release :: "('b \<Rightarrow> string option) \<Rightarrow> 'b \<Rightarrow> ('b, 'r, 'n) test_world cleanup" where
  "sim_release simClose sb w =
     (case simClose sb of Some e \<Rightarrow> (True, w) | None \<Rightarrow> (False, w\<lparr>sims := sims w - {#sb#}\<rparr>))"

definition NewSimulatedBackendTB ::
  "('c, 'tx) geth_backend \<Rightarrow> ('k, 'sg) key_api \<Rightarrow> (('c, 'k, 'sg) backend \<Rightarrow> string option) \<Rightarrow> int \<Rightarrow>
   (('c, 'k, 'sg) backend, (('c, 'k, 'sg) backend, 'r, 'n) test_world) tested_fun" where
  "NewSimulatedBackendTB g api simClose numAccounts = acquire_tb (sim_acquire g api numAccounts) (sim_release simClose)"

interpretation sim_tb: test_resource "sim_acquire g api" "sim_release simClose" sims "\<lambda>sb. {#sb#}" "\<lambda>_. True"
  for g api simClose
  by unfold_locales (auto simp: sim_acquire_def sim_release_def split: outcome.splits option.splits)

section \<open>Databases\<close>

text \<open>A spawner of its own, the response, and the function that kills the container.\<close>

type_synonym 'r pg_handle =
  "'r spawner \<times> postgres_response \<times> (string option \<Rightarrow> 'r spawner \<Rightarrow> 'r spawner \<times> spawn_error option)"

definition pg_acquire ::
  "string option \<times> 'r launch_env \<times> postgres_request \<Rightarrow> ('b, 'r, 'n) test_world \<Rightarrow>
   (spawn_error option + 'r pg_handle) \<times> ('b, 'r, 'n) test_world" where
  "pg_acquire x w =
     (case x of (newErr, env, req) \<Rightarrow>
        case NewPostgres newErr env req of (s, r) \<Rightarrow>
          ((case r of Ret (resp, cleanup) \<Rightarrow> Inr (s, resp, cleanup) | Fail e \<Rightarrow> Inl (Some e) | Panic \<Rightarrow> Inl None),
           w\<lparr>containers := containers w + mset (live s)\<rparr>))"

definition pg_release :: "string option \<Rightarrow> 'r pg_handle \<Rightarrow> ('b, 'r, 'n) test_world cleanup" where
  "pg_release purge h w =
     (case h of (s, resp, cleanup) \<Rightarrow>
        case cleanup purge s of (s', err) \<Rightarrow>
          (err \<noteq> None, w\<lparr>containers := containers w - mset (live s) + mset (live s')\<rparr>))"

definition NewPostgresT ::
  "string option \<Rightarrow> string option \<Rightarrow> 'r launch_env \<Rightarrow> postgres_request \<Rightarrow>
   (postgres_response, ('b, 'r, 'n) test_world) tested_fun" where
  "NewPostgresT purge newErr env req =
     tbind (acquire_tb (pg_acquire (newErr, env, req)) (pg_release purge)) (\<lambda>(s, resp, cleanup) t. (Some resp, t))"

text \<open>\<open>NewT\<close>: a spawner for a test, with nothing to clean up.\<close>

definition NewT :: "string option \<Rightarrow> int \<Rightarrow> ('r spawner, ('b, 'r, 'n) test_world) tested_fun" where
  "NewT newErr poolMaxWait =
     tb_call (\<lambda>w. (case Spawner.New newErr poolMaxWait of Ret (s, _) \<Rightarrow> Inr s | Fail e \<Rightarrow> Inl e | Panic \<Rightarrow> Inl [], w))"

lemma NewPostgres_kills:
  assumes "NewPostgres newErr env req = (s, Ret (resp, cleanup))" and "cleanup purge s = (s', None)"
  shows "live s' = []"
proof -
  obtain sr where sp: "Spawn env (Postgres req) \<lparr>resources = [], live = []\<rparr> = (s, Ret sr)"
    and cl: "cleanup = (\<lambda>purge. Kill purge (ToKill sr))"
    using assms(1) by (auto simp: NewPostgres_def Spawner.New_def split: option.splits outcome.splits prod.splits)
  have "\<exists>res. live s = [res] \<and> map_of (resources s) (ToKill sr) = Some res"
    using Spawn_outcome [OF sp] by auto
  then show ?thesis using assms(2) cl by (auto simp: Kill_def kill_def split: if_splits option.splits)
qed

lemma pg_release_share:
  assumes "NewPostgres newErr env req = (s, Ret (resp, cleanup))" and "pg_release purge (s, resp, cleanup) w = (False, w')"
  shows "containers w' = containers w - mset (live s)"
  using assms NewPostgres_kills by (auto simp: pg_release_def split: prod.splits)

interpretation pg_tb: test_resource pg_acquire "pg_release purge" containers "\<lambda>(s, resp, cleanup). mset (live s)" "\<lambda>_. True"
  for purge
  by unfold_locales (auto simp: pg_acquire_def split: prod.splits outcome.splits intro: pg_release_share)

section \<open>gRPC servers\<close>

text \<open>
  A server by its name. The clean-up function returns when nothing of it is left running (GrpcTest); it
  reports no error.
\<close>

definition server_acquire :: "string \<Rightarrow> ('b, 'r, 'n) test_world \<Rightarrow> (unit + string) \<times> ('b, 'r, 'n) test_world" where
  "server_acquire name w = (Inr name, w\<lparr>servers := add_mset name (servers w)\<rparr>)"

definition server_release :: "string \<Rightarrow> ('b, 'r, 'n) test_world cleanup" where
  "server_release name w = (False, w\<lparr>servers := servers w - {#name#}\<rparr>)"

definition NewWithRegisteredTB :: "string \<Rightarrow> (string, ('b, 'r, 'n) test_world) tested_fun" where
  "NewWithRegisteredTB name = acquire_tb (server_acquire name) server_release"

interpretation server_tb: test_resource server_acquire server_release servers "\<lambda>name. {#name#}" "\<lambda>_. True"
  by unfold_locales (auto simp: server_acquire_def server_release_def)

text \<open>A connection is open when dialling succeeded; a clean-up function closes the server of \<open>NewClientConn\<close>, not its connection.\<close>

definition dial_world :: "'e + 'n \<Rightarrow> ('b, 'r, 'n) test_world \<Rightarrow> ('e + 'n) \<times> ('b, 'r, 'n) test_world" where
  "dial_world dial w = (case dial of Inl e \<Rightarrow> (Inl e, w) | Inr c \<Rightarrow> (Inr c, w\<lparr>conns := add_mset c (conns w)\<rparr>))"

definition NewClientConn_world ::
  "string \<Rightarrow> string + 'n \<Rightarrow> ('b, 'r, 'n) test_world \<Rightarrow> (string + string \<times> 'n) \<times> ('b, 'r, 'n) test_world" where
  "NewClientConn_world name dial w =
     (case server_acquire name w of (_, w1) \<Rightarrow>
        case dial_world dial w1 of
          (Inl e, w2) \<Rightarrow> (Inl e, snd (server_release name w2))
        | (Inr c, w2) \<Rightarrow> (Inr (name, c), w2))"

definition NewClientConnTB :: "string \<Rightarrow> string + 'n \<Rightarrow> ('n, ('b, 'r, 'n) test_world) tested_fun" where
  "NewClientConnTB name dial =
     tbind (acquire_tb (NewClientConn_world name dial) (\<lambda>(n, c). server_release n)) (\<lambda>(n, c) t. (Some c, t))"

section \<open>The fake Firehose\<close>

record fake_config =
  UseETHServer :: bool

text \<open>What the fake is made of: the dialling of gRPC, with the options of the two listeners, and the chain.\<close>

record ('o, 'n, 'b) fake_env =
  fake_dialer :: "('o, 'n) dialer"
  hose_dialer :: 'o
  hydrant_dialer :: 'o
  insecure_option :: 'o
  conn_close :: "'n \<Rightarrow> string option"

datatype 'n hydrant_client = InProcess "'n eth_handler" | Through 'n

record ('b, 'n) fake_parts =
  fake_sim :: 'b
  fake_hose :: "sf_block list"
  Client :: "'n hydrant_client"
  RawClient :: 'n

definition eth_dial :: "('n eth_handler) with_cleanup \<Rightarrow> ('b, 'r, 'n) test_world \<Rightarrow> (dial_error option + 'n eth_handler) \<times> ('b, 'r, 'n) test_world" where
  "eth_dial d w =
     (case fst d of
        Ret h \<Rightarrow> (Inr h, w\<lparr>conns := add_mset (conn (hproxy h)) (conns w)\<rparr>)
      | Fail e \<Rightarrow> (Inl (Some e), w)
      | Panic \<Rightarrow> (Inl None, w))"

text \<open>The clean-up of a handler: its error is dropped.\<close>

definition handler_release :: "('n \<Rightarrow> string option) \<Rightarrow> 'n eth_handler \<Rightarrow> ('b, 'r, 'n) test_world cleanup" where
  "handler_release close h w =
     (False, case Proxy_Close close (hproxy h) of None \<Rightarrow> w\<lparr>conns := conns w - {#conn (hproxy h)#}\<rparr> | Some e \<Rightarrow> w)"

definition fake_client ::
  "('o, 'n, 'b) fake_env \<Rightarrow> fake_config \<Rightarrow> ('n hydrant_client \<times> 'n eth_handler, ('b, 'r, 'n) test_world) tested_fun" where
  "fake_client env cfg =
     (let opts = DialOpts (hose_dialer env) (insecure_option env) [] in
      if UseETHServer cfg
      then tbind (tb_call (eth_dial (ETHServer (fake_dialer env) (conn_close env) [] [] [] opts))) (\<lambda>h.
           tbind (NewClientConnTB ''hydrant'' (GrpcTest.Dial (grpc_dial (fake_dialer env)) (hydrant_dialer env) (insecure_option env) []))
             (\<lambda>c t. (Some (Through c, h), t)))
      else tbind (tb_call (eth_dial (ETHClient_handler (fake_dialer env) (conn_close env) [] [] [] opts)))
             (\<lambda>h t. (Some (InProcess h, h), t)))"

definition NewFake ::
  "('c, 'tx) geth_backend \<Rightarrow> ('k, 'sg) key_api \<Rightarrow> (('c, 'k, 'sg) backend \<Rightarrow> string option) \<Rightarrow>
   ('o, 'n, ('c, 'k, 'sg) backend) fake_env \<Rightarrow> fake_config \<Rightarrow>
   ((('c, 'k, 'sg) backend, 'n) fake_parts, (('c, 'k, 'sg) backend, 'r, 'n) test_world) tested_fun" where
  "NewFake g api simClose env cfg =
     tbind (NewWithRegisteredTB ''hose'') (\<lambda>_.
     tbind (tb_call (dial_world (GrpcTest.Dial (grpc_dial (fake_dialer env)) (hose_dialer env) (insecure_option env) []))) (\<lambda>hoseConn.
     tbind (fake_client env cfg) (\<lambda>(client, h) t.
     tbind (NewSimulatedBackendTB g api simClose 1) (\<lambda>sb t.
       (Some \<lparr>fake_sim = sb\<lparr>AutoCommit := False\<rparr>, fake_hose = [], Client = client, RawClient = hoseConn\<rparr>, t))
       (tb_Cleanup (handler_release (conn_close env) h) t))))"

definition NewFake_default where
  "NewFake_default g api simClose env = NewFake g api simClose env \<lparr>UseETHServer = False\<rparr>"

definition Fake_TxOpts :: "(('c, 'k, 'sg) backend, 'n) fake_parts \<Rightarrow> (sim_error, 'sg transact_opts) outcome" where
  "Fake_TxOpts f = Acc (fake_sim f) 0"

definition Fake_Backend :: "(('c, 'k, 'sg) backend, 'n) fake_parts \<Rightarrow> 'c" where
  "Fake_Backend f = sim (fake_sim f)"

text \<open>A client of the chain through HTTP: closed at the end of the test.\<close>

definition RPCClient :: "string \<Rightarrow> (string \<Rightarrow> string + 'n) \<Rightarrow> ('n, ('b, 'r, 'n) test_world) tested_fun" where
  "RPCClient serveURL dialContext = acquire_tb (dial_world (dialContext serveURL)) (\<lambda>c w. (False, w\<lparr>conns := conns w - {#c#}\<rparr>))"

interpretation rpc_tb: test_resource dial_world "\<lambda>c w. (False, w\<lparr>conns := conns w - {#c#}\<rparr>)" conns "\<lambda>c. {#c#}" "\<lambda>_. True"
  by unfold_locales (auto simp: dial_world_def split: sum.splits)

section \<open>Properties\<close>

lemma NewPostgresT_handles:
  "acquire_all (\<lambda>(newErr, env, req). NewPostgresT purge newErr env req) xs t = (Some rs, t') \<Longrightarrow>
   \<exists>hs. acquire_all (\<lambda>x. acquire_tb (pg_acquire x) (pg_release purge)) xs t = (Some hs, t')"
proof (induction xs arbitrary: t rs)
  case (Cons x xs)
  obtain newErr env req where x: "x = (newErr, env, req)" by (cases x)
  obtain resp t1 rs' where r: "NewPostgresT purge newErr env req t = (Some resp, t1)"
    and rest: "acquire_all (\<lambda>(newErr, env, req). NewPostgresT purge newErr env req) xs t1 = (Some rs', t')"
    using Cons.prems x by (auto simp: tbind_Some)
  from r obtain h where "acquire_tb (pg_acquire x) (pg_release purge) t = (Some h, t1)"
    using x by (auto simp: NewPostgresT_def tbind_Some)
  then show ?case using Cons.IH [OF rest] by (auto simp: tbind_Some)
qed simp

text \<open>A test that passes leaves nothing behind: after any number of simulated chains created with
  \<open>NewSimulatedBackendTB\<close>, or of databases created with \<open>NewPostgresT\<close>, the clean-up functions have closed and killed
  exactly these, in a test that reports no failure.\<close>

theorem passing_tests_clean_up:
  "(\<forall>ns sbs t. acquire_all (NewSimulatedBackendTB g api simClose) ns (start_tb w) = (Some sbs, t) \<and> \<not> tb_failed (tb_end t) \<longrightarrow>
      sims (world (tb_end t)) = sims w) \<and>
   (\<forall>xs resps t. acquire_all (\<lambda>(newErr, env, req). NewPostgresT purge newErr env req) xs (start_tb w) = (Some resps, t) \<and>
      \<not> tb_failed (tb_end t) \<longrightarrow> containers (world (tb_end t)) = containers w)"
proof (intro conjI allI impI)
  fix ns sbs t
  assume "acquire_all (NewSimulatedBackendTB g api simClose) ns (start_tb w) = (Some sbs, t) \<and> \<not> tb_failed (tb_end t)"
  then show "sims (world (tb_end t)) = sims w"
    using sim_tb.nothing_left [of ns g api simClose w sbs t] by (simp add: NewSimulatedBackendTB_def [abs_def] list_all_iff)
next
  fix xs resps t
  assume a: "acquire_all (\<lambda>(newErr, env, req). NewPostgresT purge newErr env req) xs (start_tb w) = (Some resps, t) \<and>
    \<not> tb_failed (tb_end t)"
  then obtain hs where "acquire_all (\<lambda>x. acquire_tb (pg_acquire x) (pg_release purge)) xs (start_tb w) = (Some hs, t)"
    using NewPostgresT_handles by blast
  then show "containers (world (tb_end t)) = containers w"
    using pg_tb.nothing_left [of xs purge w hs t] a by (simp add: list_all_iff)
qed

text \<open>The fake Firehose is not as tidy: when a test with a fake ends without failure, its servers and its chain are gone, but the connection of
  the raw client is still open, and with \<open>UseETHServer\<close> so is the connection to the Hydrant server.\<close>

theorem NewFake_leaks_connections:
  assumes "NewFake g api simClose env cfg (start_tb w) = (Some f, t)" and "\<not> tb_failed (tb_end t)"
    and "\<And>c. conn_close env c = None"
  shows "servers (world (tb_end t)) = servers w \<and> sims (world (tb_end t)) = sims w \<and>
    conns (world (tb_end t)) = conns w + {#RawClient f#} + (case Client f of Through c \<Rightarrow> {#c#} | InProcess h \<Rightarrow> {#}) \<and>
    (UseETHServer cfg \<longleftrightarrow> (\<exists>c. Client f = Through c))"
  using assms
  by (auto simp: NewFake_def fake_client_def NewWithRegisteredTB_def NewClientConnTB_def NewSimulatedBackendTB_def
      acquire_tb_def tbind_def tb_call_def tb_Fatal_def tb_Cleanup_def start_tb_def tb_end_def Let_def
      server_acquire_def server_release_def dial_world_def NewClientConn_world_def eth_dial_def handler_release_def Proxy_Close_def
      sim_acquire_def sim_release_def
      split: prod.splits sum.splits outcome.splits option.splits if_splits)

definition no_world :: "((int, bytes, unit) backend, nat, nat) test_world" where
  "no_world = \<lparr>sims = {#}, containers = {#}, servers = {#}, conns = {#}\<rparr>"

lemma demo_sims:
  "\<exists>sb al. NewSimulatedBackend counter_backend demo_keys 1 = Ret (sb, al)"
  "\<exists>sb al. NewSimulatedBackend counter_backend demo_keys 0 = Ret (sb, al)"
  by (auto simp: NewSimulatedBackend_def demo_keys_def createAccount_def Ether_def EtherFraction_def bigDiv_def)

theorem passing_tests_clean_up_witness:
  "\<exists>sbs t. acquire_all (NewSimulatedBackendTB counter_backend demo_keys (\<lambda>_. None)) [1, 0] (start_tb no_world) = (Some sbs, t) \<and>
     length sbs = 2 \<and> \<not> tb_failed (tb_end t) \<and> sims (world (tb_end t)) = {#}"
proof -
  obtain sb al where sb: "NewSimulatedBackend counter_backend demo_keys 1 = Ret (sb, al)"
    using demo_sims(1) by blast
  obtain sb' al' where sb': "NewSimulatedBackend counter_backend demo_keys 0 = Ret (sb', al')"
    using demo_sims(2) by blast
  obtain t where t: "acquire_all (NewSimulatedBackendTB counter_backend demo_keys (\<lambda>_. None)) [1, 0] (start_tb no_world) = (Some [sb, sb'], t)"
    and ok: "\<not> tb_failed (tb_end t)"
    by (simp add: NewSimulatedBackendTB_def acquire_tb_def tbind_def tb_call_def sim_acquire_def sb sb' tb_Cleanup_def start_tb_def
        tb_end_def sim_release_def)
  moreover have "sims (world (tb_end t)) = sims no_world"
    using passing_tests_clean_up [of counter_backend demo_keys "\<lambda>_. None" no_world None] t ok by blast
  moreover have "sims no_world = {#}" by (simp add: no_world_def)
  ultimately show ?thesis by fastforce
qed

definition demo_fake_env :: "(nat, nat, (int, bytes, unit) backend) fake_env" where
  "demo_fake_env = \<lparr>fake_dialer = \<lparr>SystemCertPool = None, prod_options = \<lambda>_ _. [], grpc_dial = \<lambda>_ os. Inr (hd os)\<rparr>,
     hose_dialer = 1, hydrant_dialer = 2, insecure_option = 3, conn_close = \<lambda>_. None\<rparr>"

theorem NewFake_leaks_connections_witness:
  "\<exists>f t. NewFake counter_backend demo_keys (\<lambda>_. None) demo_fake_env \<lparr>UseETHServer = True\<rparr> (start_tb no_world) = (Some f, t) \<and>
     conns (world (tb_end t)) = {#1, 2#}"
proof -
  obtain sb al where sb: "NewSimulatedBackend counter_backend demo_keys 1 = Ret (sb, al)"
    using demo_sims(1) by blast
  obtain f t where f: "NewFake counter_backend demo_keys (\<lambda>_. None) demo_fake_env \<lparr>UseETHServer = True\<rparr> (start_tb no_world) = (Some f, t)"
    and ok: "\<not> tb_failed (tb_end t)" and parts: "RawClient f = 1" "Client f = Through 2"
    by (simp add: NewFake_def fake_client_def NewWithRegisteredTB_def NewClientConnTB_def NewSimulatedBackendTB_def
        acquire_tb_def tbind_def tb_call_def tb_Fatal_def tb_Cleanup_def start_tb_def tb_end_def Let_def demo_fake_env_def
        server_acquire_def server_release_def dial_world_def NewClientConn_world_def eth_dial_def handler_release_def Proxy_Close_def
        sim_acquire_def sim_release_def sb GrpcTest.Dial_def DialOpts_def ETHServer_def dial_handler_def Dial_proxy_def Hydrant.Dial_def)
  have "conn_close demo_fake_env c = None" for c by (simp add: demo_fake_env_def)
  from NewFake_leaks_connections [OF f ok this] f parts show ?thesis by (auto simp: no_world_def)
qed

end
