(* ===== verification/GoCsv.thy ===== *)
theory GoCsv
  imports Prelude
begin

text \<open>
  What the repository uses of \<open>encoding/csv\<close>: the writer with its quoting, and the reader with the default
  settings, both with a comma and with newlines. A row that consists of one empty field is written as an
  empty line, and the reader skips empty lines.
\<close>

section \<open>Writing\<close>

definition comma :: char where "comma = CHR '',''"
definition dquote :: char where "dquote = CHR 0x22"
definition LF :: char where "LF = CHR 0x0A"
definition CR :: char where "CR = CHR 0x0D"

text \<open>\<open>unicode.IsSpace\<close> of the first character: the ASCII spaces, or the UTF-8 encoding of another space.\<close>

definition wide_spaces :: "string list" where
  "wide_spaces = [[CHR 0xC2, CHR 0x85], [CHR 0xC2, CHR 0xA0], [CHR 0xE1, CHR 0x9A, CHR 0x80], [CHR 0xE2, CHR 0x80, CHR 0xA8],
     [CHR 0xE2, CHR 0x80, CHR 0xA9], [CHR 0xE2, CHR 0x80, CHR 0xAF], [CHR 0xE2, CHR 0x81, CHR 0x9F], [CHR 0xE3, CHR 0x80, CHR 0x80]] @
     map (\<lambda>n. [CHR 0xE2, CHR 0x80, char_of n]) [0x80..<0x8B]"

definition starts_with_space :: "string \<Rightarrow> bool" where
  "starts_with_space s \<longleftrightarrow> s \<noteq> [] \<and> (hd s \<in> {CHR '' '', CHR 0x09, LF, CHR 0x0B, CHR 0x0C, CR} \<or>
     list_ex (\<lambda>w. take (length w) s = w) wide_spaces)"

definition fieldNeedsQuotes :: "string \<Rightarrow> bool" where
  "fieldNeedsQuotes s \<longleftrightarrow> s \<noteq> [] \<and>
     (s = [CHR 0x5C, CHR ''.''] \<or> list_ex (\<lambda>c. c = comma \<or> c = dquote \<or> c = CR \<or> c = LF) s \<or> starts_with_space s)"

definition write_field :: "string \<Rightarrow> string" where
  "write_field s =
     (if fieldNeedsQuotes s
      then dquote # concat (map (\<lambda>c. if c = dquote then [dquote, dquote] else [c]) s) @ [dquote] else s)"

fun write_fields :: "string list \<Rightarrow> string" where
  "write_fields [] = []"
| "write_fields [s] = write_field s"
| "write_fields (s # ss) = write_field s @ comma # write_fields ss"

definition write_record :: "string list \<Rightarrow> string" where
  "write_record r = write_fields r @ [LF]"

definition write_records :: "string list list \<Rightarrow> string" where
  "write_records rs = concat (map write_record rs)"

section \<open>Reading\<close>

text \<open>
  The reader turns the end of a line \<open>\r\n\<close> into a newline, in quoted fields too, and drops a carriage return at
  the end of the text.
\<close>

fun normal_lines :: "string \<Rightarrow> string" where
  "normal_lines (c # d # s) = (if c = CR \<and> d = LF then LF # normal_lines s else c # normal_lines (d # s))"
| "normal_lines [c] = (if c = CR then [] else [c])"
| "normal_lines [] = []"

text \<open>Where the reader is: before a field, in a bare field, in a quoted field, after a quote in a quoted field.\<close>

datatype csv_mode = FieldStart | Bare | Quoted | AfterQuote

fun read_csv :: "csv_mode \<Rightarrow> string \<Rightarrow> string list \<Rightarrow> string \<Rightarrow> string list list option" where
  "read_csv FieldStart f rec [] = Some (if rec = [] then [] else [rec @ [[]]])"
| "read_csv Bare f rec [] = Some [rec @ [f]]"
| "read_csv Quoted f rec [] = None"
| "read_csv AfterQuote f rec [] = Some [rec @ [f]]"
| "read_csv FieldStart f rec (c # s) =
     (if c = dquote then read_csv Quoted [] rec s
      else if c = comma then read_csv FieldStart [] (rec @ [[]]) s
      else if c = LF then (if rec = [] then read_csv FieldStart [] [] s
                           else map_option ((#) (rec @ [[]])) (read_csv FieldStart [] [] s))
      else read_csv Bare [c] rec s)"
| "read_csv Bare f rec (c # s) =
     (if c = dquote then None
      else if c = comma then read_csv FieldStart [] (rec @ [f]) s
      else if c = LF then map_option ((#) (rec @ [f])) (read_csv FieldStart [] [] s)
      else read_csv Bare (f @ [c]) rec s)"
| "read_csv Quoted f rec (c # s) =
     (if c = dquote then read_csv AfterQuote f rec s else read_csv Quoted (f @ [c]) rec s)"
| "read_csv AfterQuote f rec (c # s) =
     (if c = dquote then read_csv Quoted (f @ [dquote]) rec s
      else if c = comma then read_csv FieldStart [] (rec @ [f]) s
      else if c = LF then map_option ((#) (rec @ [f])) (read_csv FieldStart [] [] s)
      else None)"

text \<open>With \<open>FieldsPerRecord\<close> at zero every row needs as many fields as the first one (\<open>ErrFieldCount\<close>).\<close>

definition same_width :: "string list list \<Rightarrow> bool" where
  "same_width rs \<longleftrightarrow> list_all (\<lambda>r. length r = length (hd rs)) rs"

definition ReadAll :: "string \<Rightarrow> string list list option" where
  "ReadAll s = Option.bind (read_csv FieldStart [] [] (normal_lines s)) (\<lambda>rs. if same_width rs then Some rs else None)"

section \<open>Round trip\<close>

lemma csv_chars [simp]:
  "comma \<noteq> dquote" "dquote \<noteq> comma" "comma \<noteq> LF" "LF \<noteq> comma" "dquote \<noteq> LF" "LF \<noteq> dquote"
  "CR \<noteq> LF" "LF \<noteq> CR" "comma \<noteq> CR" "CR \<noteq> comma" "dquote \<noteq> CR" "CR \<noteq> dquote"
  by (simp_all add: comma_def dquote_def LF_def CR_def)

definition plain_field :: "string \<Rightarrow> bool" where
  "plain_field s \<longleftrightarrow> list_all (\<lambda>c. c \<noteq> comma \<and> c \<noteq> dquote \<and> c \<noteq> LF) s"

text \<open>The end of a field: a comma or a newline.\<close>

lemma read_bare:
  "plain_field s \<Longrightarrow> read_csv Bare f rec (s @ t) = read_csv Bare (f @ s) rec t"
  by (induction s arbitrary: f) (simp_all add: plain_field_def)

lemma read_quoted:
  "read_csv Quoted f rec (concat (map (\<lambda>c. if c = dquote then [dquote, dquote] else [c]) s) @ dquote # t) =
   read_csv AfterQuote (f @ s) rec t"
  by (induction s arbitrary: f) simp_all

lemma read_field:
  "read_csv FieldStart f rec (write_field s @ comma # t) = read_csv FieldStart [] (rec @ [s]) t"
  "s \<noteq> [] \<or> rec \<noteq> [] \<Longrightarrow>
     read_csv FieldStart f rec (write_field s @ LF # t) = map_option ((#) (rec @ [s])) (read_csv FieldStart [] [] t)"
proof -
  have "plain_field s" if "\<not> fieldNeedsQuotes s"
    using that by (auto simp: fieldNeedsQuotes_def plain_field_def list_all_iff list_ex_iff)
  then have bare: "read_csv FieldStart f rec (s @ t') = read_csv Bare s rec t'" if "\<not> fieldNeedsQuotes s" "s \<noteq> []" for t'
    using that by (cases s) (simp_all add: read_bare plain_field_def)
  show "read_csv FieldStart f rec (write_field s @ comma # t) = read_csv FieldStart [] (rec @ [s]) t"
    by (cases "s = []") (auto simp: write_field_def read_quoted bare fieldNeedsQuotes_def [of "[]"])
  show "read_csv FieldStart f rec (write_field s @ LF # t) = map_option ((#) (rec @ [s])) (read_csv FieldStart [] [] t)"
    if "s \<noteq> [] \<or> rec \<noteq> []"
    using that by (cases "s = []") (auto simp: write_field_def read_quoted bare fieldNeedsQuotes_def [of "[]"])
qed

lemma read_fields:
  "r \<noteq> [] \<Longrightarrow> rec \<noteq> [] \<or> r \<noteq> [[]] \<Longrightarrow>
   read_csv FieldStart [] rec (write_fields r @ LF # t) = map_option ((#) (rec @ r)) (read_csv FieldStart [] [] t)"
proof (induction r arbitrary: rec rule: write_fields.induct)
  case (3 s s' ss)
  then show ?case using "3.IH" [of "rec @ [s]"] by (simp add: read_field)
qed (auto simp: read_field)

text \<open>Rows that vanish: the empty one, and the one with a single empty field.\<close>

definition visible :: "string list \<Rightarrow> bool" where
  "visible r \<longleftrightarrow> r \<noteq> [] \<and> r \<noteq> [[]]"

lemma read_record:
  "read_csv FieldStart [] [] (write_record r @ t) =
     (if visible r then map_option ((#) r) (read_csv FieldStart [] [] t) else read_csv FieldStart [] [] t)"
proof (cases "visible r")
  case True
  then show ?thesis using read_fields [of r "[]" t] by (simp add: write_record_def visible_def)
next
  case False
  then have "write_fields r = []"
    by (cases "r = []") (simp_all add: visible_def write_field_def fieldNeedsQuotes_def)
  then show ?thesis using False by (simp add: write_record_def)
qed

lemma read_records: "read_csv FieldStart [] [] (write_records rs) = Some (filter visible rs)"
  by (induction rs) (simp_all add: write_records_def read_record)

text \<open>Text without carriage returns is not changed by the reader.\<close>

lemma normal_lines_id: "CR \<notin> set s \<Longrightarrow> normal_lines s = s"
  by (induction s rule: normal_lines.induct) auto

lemma set_write_field: "set (write_field s) \<subseteq> insert dquote (set s)"
  by (auto simp: write_field_def split: if_splits)

lemma set_write_fields: "set (write_fields r) \<subseteq> {comma, dquote} \<union> (\<Union>s \<in> set r. set s)"
proof (induction r rule: write_fields.induct)
  case (2 s)
  then show ?case using set_write_field [of s] by auto
next
  case (3 s s' ss)
  then show ?case using set_write_field [of s] by auto
qed simp

lemma no_CR_written:
  assumes "\<forall>r \<in> set rs. \<forall>s \<in> set r. CR \<notin> set s"
  shows "CR \<notin> set (write_records rs)"
proof -
  have "CR \<notin> set (write_record r)" if "r \<in> set rs" for r
    using set_write_fields [of r] assms that by (auto simp: write_record_def)
  then show ?thesis by (auto simp: write_records_def)
qed

text \<open>What is written without carriage returns is read back, less the rows that vanish.\<close>

lemma ReadAll_written:
  assumes "\<forall>r \<in> set rs. \<forall>s \<in> set r. CR \<notin> set s"
  shows "ReadAll (write_records rs) = (if same_width (filter visible rs) then Some (filter visible rs) else None)"
  using no_CR_written [OF assms] by (simp add: ReadAll_def normal_lines_id read_records)

end
