(* ===== verification/FlipsideQueries.thy ===== *)
theory FlipsideQueries
  imports Complex_Main "HOL-Library.Sublist" RestApis GoCsv MetadataJson
begin

text \<open>
  The older client of Flipside (\<open>go/flipside/flipside.go\<close>): submitting a query, polling for its results, writing
  them as CSV, and reading the CSV into structs through a pipe. \<open>fmt.Sprint\<close> of decoded JSON and the
  buffered writer under \<open>encoding/csv\<close> are modelled; decoding JSON, joining URL paths and \<open>gocsv\<close> are arguments.
\<close>

section \<open>Queries\<close>

record query_config =
  query_key :: string
  BackoffFactor :: real

definition queries_URL :: string where
  "queries_URL = ''https://node-api.flipsidecrypto.com/queries''"

definition query_headers :: "query_config \<Rightarrow> (string \<times> string) list" where
  "query_headers cfg =
     [(''Accept'', ''application/json''), (''Content-Type'', ''application/json''), (''x-api-key'', query_key cfg)]"

text \<open>The time to live in nanoseconds; as JSON it is a number of minutes, here a whole number.\<close>

record query_submission =
  submit_SQL :: string
  TTL :: int

definition minutes_json :: "int \<Rightarrow> json" where
  "minutes_json d = JRaw (Text (d div (60 * 10 ^ 9)) 10)"

definition submission_json :: "query_submission \<Rightarrow> json" where
  "submission_json q = JObj [(''sql'', JStr (submit_SQL q)), (''ttlMinutes'', minutes_json (TTL q))]"

definition SubmitQuery ::
  "'w client \<Rightarrow> (string + string \<Rightarrow> string + string) \<Rightarrow> query_config \<Rightarrow> string \<Rightarrow> 'w \<Rightarrow> (rest_error, string) outcome \<times> 'w" where
  "SubmitQuery cl decode_token cfg sql =
     wbind (send cl (query_headers cfg) ''POST'' queries_URL
              (Inr (render (submission_json \<lparr>submit_SQL = sql, TTL = 15 * 60 * 10 ^ 9\<rparr>) @ [LF])))
       (\<lambda>b w. (unmarshalResponse decode_token b, w))"

section \<open>Results\<close>

text \<open>
  What \<open>encoding/json\<close> stores in an empty interface. A number is a \<open>float64\<close>, given by its sign, the digits
  of its shortest decimal representation and the position of the decimal point; zero has no digits.
  The members of an object are in the order of their keys.
\<close>

datatype any =
    Nil_any
  | Bool_any bool
  | Number bool "nat list" int
  | String_any string
  | Slice_any "any list"
  | Map_any "(string \<times> any) list"

text \<open>\<open>%e\<close> and \<open>%f\<close> of \<open>strconv\<close> for a shortest representation.\<close>

definition format_e :: "nat list \<Rightarrow> int \<Rightarrow> string" where
  "format_e ds dp =
     (let e = nat \<bar>dp - 1\<bar> in
      digit (hd ds) # (if tl ds = [] then [] else CHR ''.'' # map digit (tl ds)) @
      (if dp - 1 < 0 then ''e-'' else ''e+'') @ (if e < 10 then ''0'' else []) @ text_nat 10 e)"

definition format_f :: "nat list \<Rightarrow> int \<Rightarrow> string" where
  "format_f ds dp =
     (if 0 < dp then map digit (take (nat dp) ds) @ replicate (nat dp - length ds) (CHR ''0'') else ''0'') @
     (if int (length ds) \<le> dp then []
      else CHR ''.'' # replicate (nat (- dp)) (CHR ''0'') @ map digit (drop (nat dp) ds))"

definition Sprint_float :: "bool \<Rightarrow> nat list \<Rightarrow> int \<Rightarrow> string" where
  "Sprint_float neg ds dp =
     (if neg then ''-'' else []) @
     (if ds \<noteq> [] \<and> (dp - 1 < - 4 \<or> 6 \<le> dp - 1) then format_e ds dp else format_f ds dp)"

fun spaced :: "string list \<Rightarrow> string" where
  "spaced [] = []"
| "spaced [x] = x"
| "spaced (x # xs) = x @ '' '' @ spaced xs"

fun Sprint :: "any \<Rightarrow> string" where
  "Sprint Nil_any = ''<nil>''"
| "Sprint (Bool_any b) = (if b then ''true'' else ''false'')"
| "Sprint (Number neg ds dp) = Sprint_float neg ds dp"
| "Sprint (String_any s) = s"
| "Sprint (Slice_any vs) = ''['' @ spaced (map Sprint vs) @ '']''"
| "Sprint (Map_any ms) = ''map['' @ spaced (map (\<lambda>(k, v). k @ '':'' @ Sprint v) ms) @ '']''"

record query_results =
  Results :: "any list list"
  ColumnLabels :: "string list"
  ColumnTypes :: "string list"
  Status :: string
  res_PageNumber :: int
  res_PageSize :: int
  StartedAt :: int
  EndedAt :: int

section \<open>Polling\<close>

text \<open>
  \<open>JoinPath\<close> is that of \<open>net/url\<close>. The answer is decoded into a pointer: the JSON \<open>null\<close> leaves nil there. \<open>grow\<close> is
  the product of the backoff and \<open>BackoffFactor\<close> in floating-point arithmetic.
\<close>

record results_api =
  join_path :: "string \<Rightarrow> string \<Rightarrow> string + string"
  decode_results :: "string + string \<Rightarrow> string + query_results option"
  grow :: "real \<Rightarrow> int \<Rightarrow> int"

definition page_query :: "int \<Rightarrow> string" where
  "page_query page = ''pageNumber='' @ Text page 10 @ ''&pageSize=100000''"

text \<open>One request; the query string is added after the request is made.\<close>

definition poll ::
  "'w client \<Rightarrow> results_api \<Rightarrow> query_config \<Rightarrow> string \<Rightarrow> int \<Rightarrow> 'w \<Rightarrow> (rest_error, query_results) outcome \<times> 'w" where
  "poll cl api cfg token page w =
     (case join_path api queries_URL token of
        Inl e \<Rightarrow> (Fail (JoinError e), w)
      | Inr u \<Rightarrow>
          (case BadRequest cl ''GET'' u of
             Some e \<Rightarrow> (Fail (NewRequestError e), w)
           | None \<Rightarrow>
               (case Do cl \<lparr>http_method = ''GET'', url = u @ ''?'' @ page_query page, headers = query_headers cfg, content = []\<rparr> w of
                  (Inl e, w') \<Rightarrow> (Fail (DoError e), w')
                | (Inr resp, w') \<Rightarrow>
                    (obind (check_status resp) (\<lambda>b.
                     obind (unmarshalResponse (decode_results api) b) (\<lambda>r.
                       case r of None \<Rightarrow> Panic | Some exResp \<Rightarrow> Ret exResp)), w'))))"

partial_function (option) fetchQueryResults ::
  "'w client \<Rightarrow> results_api \<Rightarrow> query_config \<Rightarrow> string \<Rightarrow> int \<Rightarrow> int \<Rightarrow> 'w \<Rightarrow>
   ((rest_error, query_results) outcome \<times> 'w) option" where
  "fetchQueryResults cl api cfg token page backoff w =
     (case poll cl api cfg token page w of
        (Ret exResp, w1) \<Rightarrow>
          if Status exResp = ''finished'' then Some (Ret exResp, w1)
          else (case Sleep cl backoff w1 of
                  (Some e, w2) \<Rightarrow> Some (Fail (ContextError e), w2)
                | (None, w2) \<Rightarrow>
                    fetchQueryResults cl api cfg token page (grow api (BackoffFactor cfg) backoff) w2)
      | (Fail e, w1) \<Rightarrow> Some (Fail e, w1)
      | (Panic, w1) \<Rightarrow> Some (Panic, w1))"

definition FetchQueryResults_v1 ::
  "'w client \<Rightarrow> results_api \<Rightarrow> query_config \<Rightarrow> string \<Rightarrow> int \<Rightarrow> 'w \<Rightarrow>
   ((rest_error, query_results) outcome \<times> 'w) option" where
  "FetchQueryResults_v1 cl api cfg token page = fetchQueryResults cl api cfg token page (10 ^ 9)"

section \<open>CSV\<close>

text \<open>
  \<open>bufio.Writer\<close> over an \<open>io.Writer\<close>: bytes are collected in a buffer of 4096, which is written out when one more
  byte comes. The first error stays, and nothing is written after it.
\<close>

record 'w bufio =
  buf :: string
  buf_err :: "string option"
  below :: 'w

type_synonym 'w sink = "string \<Rightarrow> 'w \<Rightarrow> string option \<times> 'w"

definition buffer_size :: nat where "buffer_size = 4096"

definition buf_flush :: "'w sink \<Rightarrow> 'w bufio \<Rightarrow> 'w bufio" where
  "buf_flush sink b =
     (if buf_err b \<noteq> None \<or> buf b = [] then b
      else case sink (buf b) (below b) of
        (None, w) \<Rightarrow> b\<lparr>buf := [], below := w\<rparr>
      | (Some e, w) \<Rightarrow> b\<lparr>buf_err := Some e, below := w\<rparr>)"

definition buf_put :: "'w sink \<Rightarrow> 'w bufio \<Rightarrow> char \<Rightarrow> 'w bufio" where
  "buf_put sink b c =
     (let b' = (if length (buf b) < buffer_size then b else buf_flush sink b) in
      if buf_err b' \<noteq> None then b' else b'\<lparr>buf := buf b' @ [c]\<rparr>)"

definition buf_write :: "'w sink \<Rightarrow> 'w bufio \<Rightarrow> string \<Rightarrow> 'w bufio" where
  "buf_write sink b s = foldl (buf_put sink) b s"

datatype csv_error = LabelsError string | DataError string | FlushError string

text \<open>\<open>Write\<close> of \<open>csv.Writer\<close> reports the error of the buffer.\<close>

fun write_rows :: "'w sink \<Rightarrow> any list list \<Rightarrow> 'w bufio \<Rightarrow> csv_error option \<times> 'w bufio" where
  "write_rows sink [] b =
     (let b' = buf_flush sink b in (map_option FlushError (buf_err b'), b'))"
| "write_rows sink (row # rows) b =
     (let b' = buf_write sink b (write_record (map Sprint row)) in
      case buf_err b' of
        Some e \<Rightarrow> (Some (DataError e), b')
      | None \<Rightarrow> write_rows sink rows b')"

definition WriteCSV :: "query_results \<Rightarrow> 'w sink \<Rightarrow> 'w \<Rightarrow> csv_error option \<times> 'w" where
  "WriteCSV r sink w =
     (let b = buf_write sink \<lparr>buf = [], buf_err = None, below = w\<rparr> (write_record (ColumnLabels r)) in
      case buf_err b of
        Some e \<Rightarrow> (Some (LabelsError e), below b)
      | None \<Rightarrow> (case write_rows sink (Results r) b of (e, b') \<Rightarrow> (e, below b')))"

text \<open>The rows and the text of the table.\<close>

definition table :: "query_results \<Rightarrow> string list list" where
  "table r = ColumnLabels r # map (map Sprint) (Results r)"

text \<open>
  The pipe of \<open>Unmarshal\<close>: a write returns when the reader has taken all of its bytes, and nobody closes the reader's
  side. \<open>gocsv\<close> returns its result and the number of bytes that it has taken from the text. The second component is
  whether the writing goroutine ends.
\<close>

fun drain :: "nat \<Rightarrow> string list \<Rightarrow> string list" where
  "drain n [] = []"
| "drain n (c # cs) = (if length c \<le> n then drain (n - length c) cs else c # cs)"

text \<open>A writer that keeps a log of the chunks that it was given, each with its error.\<close>

definition recorded :: "'w sink \<Rightarrow> ('w \<times> (string \<times> string option) list) sink" where
  "recorded sink s wl = (case sink s (fst wl) of (e, w') \<Rightarrow> (e, w', snd wl @ [(s, e)]))"

definition accept :: "unit sink" where
  "accept s w = (None, w)"

definition Unmarshal :: "(string \<Rightarrow> (string + 'v) \<times> nat) \<Rightarrow> query_results \<Rightarrow> (string + 'v) \<times> bool" where
  "Unmarshal gocsv r =
     (let chunks = map fst (snd (snd (WriteCSV r (recorded accept) ((), [])))) in
      case gocsv (concat chunks) of (v, n) \<Rightarrow> (v, drain n chunks = []))"

section \<open>Waiting\<close>

lemma poll_left:
  assumes "bounded_waits cl left" "poll cl api cfg token page w = (r, w')"
  shows "left w' \<le> left w"
  using assms unfolding poll_def bounded_waits_def
  by (auto split: sum.splits option.splits prod.splits) (metis snd_conv)+

lemma poll_panics: "poll cl api cfg token page w = (Panic, w') \<Longrightarrow> \<exists>b. decode_results api b = Inr None"
  unfolding poll_def check_status_def unmarshalResponse_def
  by (auto split: sum.splits option.splits prod.splits if_splits)

lemma fetch_returns:
  assumes b: "bounded_waits cl left"
  shows "\<exists>r w'. fetchQueryResults cl api cfg token page backoff w = Some (r, w') \<and>
    (\<forall>x. r = Ret x \<longrightarrow> Status x = ''finished'') \<and> (r = Panic \<longrightarrow> (\<exists>b. decode_results api b = Inr None))"
proof (induction "left w" arbitrary: w backoff rule: less_induct)
  case less
  obtain r1 w1 where g: "poll cl api cfg token page w = (r1, w1)" by (cases "poll cl api cfg token page w")
  note left1 = poll_left [OF b g]
  show ?case
  proof (cases r1)
    case (Ret x)
    obtain e w2 where sl: "Sleep cl backoff w1 = (e, w2)" by (cases "Sleep cl backoff w1")
    have "left w2 < left w" if "e = None" using b sl that left1 unfolding bounded_waits_def by fastforce
    with less [of w2 "grow api (BackoffFactor cfg) backoff"] show ?thesis
      by (subst fetchQueryResults.simps) (cases e; simp add: g Ret sl)
  next
    case (Fail e)
    then show ?thesis by (subst fetchQueryResults.simps) (simp add: g)
  next
    case Panic
    then show ?thesis using poll_panics g by (subst fetchQueryResults.simps) (fastforce simp: g)
  qed
qed

lemma fetch_never_ends:
  assumes p: "\<And>w. \<exists>x w'. poll cl api cfg token page w = (Ret x, w') \<and> Status x \<noteq> ''finished''"
    and s: "\<And>d w. \<exists>w'. Sleep cl d w = (None, w')"
  shows "fetchQueryResults cl api cfg token page backoff w = None"
proof -
  define P where
    "P cl' api' cfg' token' page' d v y \<longleftrightarrow> \<not> (cl' = cl \<and> api' = api \<and> cfg' = cfg \<and> token' = token \<and> page' = page)"
    for cl' api' cfg' token' page' and d :: int and v :: 'a and y :: "(rest_error, query_results) outcome \<times> 'a"
  have "P cl api cfg token page backoff w y"
    if "fetchQueryResults cl api cfg token page backoff w = Some y" for y
    using _ that
  proof (rule fetchQueryResults.raw_induct)
    fix f cl' api' cfg' token' page' d v y
    assume IH: "\<And>cl' api' cfg' token' page' d v y. f cl' api' cfg' token' page' d v = Some y \<Longrightarrow> P cl' api' cfg' token' page' d v y"
      and run: "(case poll cl' api' cfg' token' page' v of
        (Ret exResp, w1) \<Rightarrow>
          if Status exResp = ''finished'' then Some (Ret exResp, w1)
          else (case Sleep cl' d w1 of
                  (Some e, w2) \<Rightarrow> Some (Fail (ContextError e), w2)
                | (None, w2) \<Rightarrow> f cl' api' cfg' token' page' (grow api' (BackoffFactor cfg') d) w2)
      | (Fail e, w1) \<Rightarrow> Some (Fail e, w1)
      | (Panic, w1) \<Rightarrow> Some (Panic, w1)) = Some y"
    obtain x v1 where x: "poll cl api cfg token page v = (Ret x, v1)" "Status x \<noteq> ''finished''" using p [of v] by blast
    obtain v2 where "Sleep cl d v1 = (None, v2)" using s by blast
    with IH run x show "P cl' api' cfg' token' page' d v y" unfolding P_def by fastforce
  qed
  then have "fetchQueryResults cl api cfg token page backoff w \<noteq> Some y" for y unfolding P_def by blast
  then show ?thesis by (cases "fetchQueryResults cl api cfg token page backoff w") auto
qed

section \<open>What reaches the writer\<close>

definition all_ok :: "(string \<times> string option) list \<Rightarrow> bool" where
  "all_ok chunks \<longleftrightarrow> list_all (\<lambda>(s, e). e = None) chunks"

definition sizes_ok :: "(string \<times> string option) list \<Rightarrow> bool" where
  "sizes_ok chunks \<longleftrightarrow> list_all (\<lambda>(s, e). s \<noteq> [] \<and> length s \<le> buffer_size) chunks"

definition logged_text :: "(string \<times> string option) list \<Rightarrow> string" where
  "logged_text chunks = concat (map fst chunks)"

lemmas log_defs = all_ok_def sizes_ok_def logged_text_def

text \<open>The state of the buffer after the text \<open>T\<close>.\<close>

definition buf_inv :: "string \<Rightarrow> ('w \<times> (string \<times> string option) list) bufio \<Rightarrow> bool" where
  "buf_inv T b \<longleftrightarrow> (let chunks = snd (below b) in
     sizes_ok chunks \<and> length (buf b) \<le> buffer_size \<and>
     (case buf_err b of
        None \<Rightarrow> all_ok chunks \<and> logged_text chunks @ buf b = T
      | Some e \<Rightarrow> chunks \<noteq> [] \<and> all_ok (butlast chunks) \<and> snd (last chunks) = Some e \<and> prefix (logged_text chunks) T))"

lemma buf_flush_inv:
  assumes "buf_inv T b"
  shows "buf_inv T (buf_flush (recorded sink) b) \<and>
    (buf_err (buf_flush (recorded sink) b) = None \<longrightarrow> buf (buf_flush (recorded sink) b) = [])"
proof (cases "buf_err b \<noteq> None \<or> buf b = []")
  case True
  then show ?thesis using assms by (auto simp: buf_flush_def)
next
  case False
  obtain w chunks where bl: "below b = (w, chunks)" by (cases "below b")
  obtain e w' where s: "sink (buf b) w = (e, w')" by (cases "sink (buf b) w")
  show ?thesis using assms False bl s
    by (cases e) (auto simp: buf_flush_def buf_inv_def recorded_def log_defs)
qed

lemma buf_put_inv: "buf_inv T b \<Longrightarrow> buf_inv (T @ [c]) (buf_put (recorded sink) b c)"
  using buf_flush_inv [of T b sink]
  by (cases "buf_err b"; cases "buf_err (buf_flush (recorded sink) b)")
    (auto simp: buf_put_def buf_inv_def Let_def buffer_size_def)

lemma buf_write_inv: "buf_inv T b \<Longrightarrow> buf_inv (T @ s) (buf_write (recorded sink) b s)"
proof (induction s arbitrary: T b)
  case (Cons c s)
  then show ?case using Cons.IH [OF buf_put_inv [OF Cons.prems]] by (simp add: buf_write_def)
qed (simp add: buf_write_def)

text \<open>How writing all rows and flushing ends.\<close>

definition written :: "string \<Rightarrow> csv_error option \<Rightarrow> (string \<times> string option) list \<Rightarrow> bool" where
  "written T e chunks \<longleftrightarrow> sizes_ok chunks \<and>
     (if e = None then all_ok chunks \<and> logged_text chunks = T
      else chunks \<noteq> [] \<and> all_ok (butlast chunks) \<and> snd (last chunks) \<noteq> None \<and> prefix (logged_text chunks) T)"

lemma buf_inv_failed: "buf_inv T b \<Longrightarrow> buf_err b = Some x \<Longrightarrow> prefix T T' \<Longrightarrow> written T' (Some e) (snd (below b))"
  by (auto simp: buf_inv_def written_def Let_def intro: prefix_order.trans)

lemma write_rows_written:
  "buf_inv T b \<Longrightarrow> write_rows (recorded sink) rows b = (e, b') \<Longrightarrow>
   written (T @ write_records (map (map Sprint) rows)) e (snd (below b'))"
proof (induction rows arbitrary: T b)
  case Nil
  then show ?case using buf_flush_inv [OF Nil.prems(1), of sink]
    by (cases "buf_err (buf_flush (recorded sink) b)")
      (auto simp: buf_inv_def written_def write_records_def Let_def)
next
  case (Cons row rows)
  define b1 where "b1 = buf_write (recorded sink) b (write_record (map Sprint row))"
  have inv: "buf_inv (T @ write_record (map Sprint row)) b1"
    unfolding b1_def by (rule buf_write_inv [OF Cons.prems(1)])
  show ?case
  proof (cases "buf_err b1")
    case None
    then show ?thesis using Cons.IH [OF inv] Cons.prems(2) by (simp add: b1_def write_records_def)
  next
    case (Some x)
    then show ?thesis
      using Cons.prems(2) buf_inv_failed [OF inv Some] by (auto simp: b1_def Let_def write_records_def)
  qed
qed

lemma WriteCSV_written:
  assumes "WriteCSV r (recorded sink) (w, []) = (e, w', chunks)"
  shows "written (write_records (table r)) e chunks"
proof -
  define b where "b = buf_write (recorded sink) \<lparr>buf = [], buf_err = None, below = (w, [])\<rparr> (write_record (ColumnLabels r))"
  have inv: "buf_inv (write_record (ColumnLabels r)) b"
    unfolding b_def using buf_write_inv [of "[]" "\<lparr>buf = [], buf_err = None, below = (w, [])\<rparr>" "write_record (ColumnLabels r)" sink]
    by (simp add: buf_inv_def log_defs)
  show ?thesis
  proof (cases "buf_err b")
    case None
    obtain e1 b1 where run: "write_rows (recorded sink) (Results r) b = (e1, b1)"
      by (cases "write_rows (recorded sink) (Results r) b")
    show ?thesis using write_rows_written [OF inv run] assms None run
      by (auto simp: WriteCSV_def b_def [symmetric] table_def write_records_def)
  next
    case (Some x)
    then show ?thesis using assms buf_inv_failed [OF inv Some]
      by (auto simp: WriteCSV_def b_def [symmetric] table_def write_records_def)
  qed
qed

text \<open>A writer that never fails.\<close>

lemma accept_put: "buf_err b = None \<Longrightarrow> buf_err (buf_put (recorded accept) b c) = None"
  by (simp add: buf_put_def buf_flush_def recorded_def accept_def Let_def split: prod.splits)

lemma accept_write: "buf_err b = None \<Longrightarrow> buf_err (buf_write (recorded accept) b s) = None"
  by (induction s arbitrary: b) (simp_all add: buf_write_def accept_put)

lemma accept_rows: "buf_err b = None \<Longrightarrow> fst (write_rows (recorded accept) rows b) = None"
proof (induction rows arbitrary: b)
  case Nil
  then show ?case by (simp add: Let_def buf_flush_def recorded_def accept_def split: prod.splits)
qed (simp add: Let_def accept_write)

lemma accept_WriteCSV: "fst (WriteCSV r (recorded accept) w) = None"
  by (simp add: WriteCSV_def Let_def accept_write accept_rows split: prod.splits) (metis accept_rows accept_write bufio.simps(2) fst_conv)

lemma drain_all: "list_all (\<lambda>c. c \<noteq> []) cs \<Longrightarrow> drain n cs = [] \<longleftrightarrow> length (concat cs) \<le> n"
  by (induction n cs rule: drain.induct) auto

section \<open>Properties\<close>

text \<open>Fetching the results of a query returns once the context ends at the latest. It returns results only of a
  query that is finished, and panics only on an answer that is the JSON \<open>null\<close>.\<close>

theorem fetchQueryResults_terminates:
  assumes "bounded_waits cl left"
  shows "\<exists>r w'. FetchQueryResults_v1 cl api cfg token page w = Some (r, w') \<and>
    (\<forall>x. r = Ret x \<longrightarrow> Status x = ''finished'') \<and> (r = Panic \<longrightarrow> (\<exists>b. decode_results api b = Inr None))"
  unfolding FetchQueryResults_v1_def by (rule fetch_returns [OF assms])

definition demo_results :: query_results where
  "demo_results = \<lparr>Results = [[String_any ''a,b'', Number False [1, 5] 1], [Nil_any, Number False [1] 7]],
     ColumnLabels = [''name'', ''n''], ColumnTypes = [], Status = ''finished'', res_PageNumber = 1, res_PageSize = 2,
     StartedAt = 0, EndedAt = 0\<rparr>"

definition demo_results_api :: results_api where
  "demo_results_api = \<lparr>join_path = (\<lambda>b t. Inr (b @ ''/'' @ t)),
     decode_results = (\<lambda>b. if b = Inl [] then Inr None else Inr (Some demo_results)), grow = (\<lambda>f d. 2 * d)\<rparr>"

theorem fetchQueryResults_terminates_witness:
  "bounded_waits demo_client (\<lambda>w. w) \<and>
   (\<exists>r w'. FetchQueryResults_v1 demo_client demo_results_api \<lparr>query_key = ''k'', BackoffFactor = 2\<rparr> ''t'' 1 3 = Some (r, w'))"
proof -
  have "bounded_waits demo_client (\<lambda>w. w)"
    by (auto simp: bounded_waits_def demo_client_def split: if_splits)
  with fetchQueryResults_terminates [OF this] show ?thesis by blast
qed

text \<open>A query with any other final status, such as a failed one, is polled for ever: without an end of the context the
  function does not return.\<close>

theorem unfinished_query_polled_for_ever:
  assumes "\<And>w. \<exists>x w'. poll cl api cfg token page w = (Ret x, w') \<and> Status x \<noteq> ''finished''"
    and "\<And>d w. \<exists>w'. Sleep cl d w = (None, w')"
  shows "FetchQueryResults_v1 cl api cfg token page w = None"
  unfolding FetchQueryResults_v1_def by (rule fetch_never_ends [OF assms])

theorem unfinished_query_polled_for_ever_witness:
  "FetchQueryResults_v1
     \<lparr>BadRequest = (\<lambda>m u. None), Do = (\<lambda>r w. (Inr \<lparr>StatusCode = 200, resp_body = Inr []\<rparr>, w)), Sleep = (\<lambda>d w. (None, w))\<rparr>
     (demo_results_api\<lparr>decode_results := \<lambda>b. Inr (Some (demo_results\<lparr>Status := ''failed''\<rparr>))\<rparr>)
     \<lparr>query_key = ''k'', BackoffFactor = 2\<rparr> ''t'' 1 () = None"
  by (rule unfinished_query_polled_for_ever)
    (simp_all add: poll_def demo_results_api_def demo_results_def check_status_def unmarshalResponse_def)

text \<open>Writing results as CSV passes to the writer chunks of at most 4096 bytes. Without an error they are together the
  text of the labels and the rows. An error is reported exactly if the writer fails; nothing is
  written after it, and what was written is a prefix of that text.\<close>

theorem WriteCSV_complete:
  assumes "WriteCSV r (recorded sink) (w, []) = (e, w', chunks)"
  shows "(\<forall>(s, err) \<in> set chunks. 0 < length s \<and> length s \<le> 4096) \<and>
    prefix (concat (map fst chunks)) (write_records (table r)) \<and>
    (e = None \<longrightarrow> concat (map fst chunks) = write_records (table r)) \<and>
    (e = None \<longleftrightarrow> (\<forall>(s, err) \<in> set chunks. err = None)) \<and>
    (\<forall>(s, err) \<in> set (butlast chunks). err = None)"
proof -
  have w: "written (write_records (table r)) e chunks" by (rule WriteCSV_written [OF assms])
  then have "chunks \<noteq> [] \<and> snd (last chunks) \<noteq> None" if "e \<noteq> None" using that by (simp add: written_def)
  then have "\<exists>(s, err) \<in> set chunks. err \<noteq> None" if "e \<noteq> None"
    using that by (metis (mono_tags, lifting) case_prodI2 last_in_set snd_conv)
  with w show ?thesis
    by (cases e) (auto simp: written_def log_defs list_all_iff buffer_size_def dest: in_set_butlastD)
qed

theorem WriteCSV_complete_witness:
  "\<exists>e w' chunks. WriteCSV demo_results (recorded accept) ((), []) = (e, w', chunks) \<and>
     prefix (concat (map fst chunks)) (write_records (table demo_results))"
proof -
  obtain e w' chunks where "WriteCSV demo_results (recorded accept) ((), []) = (e, w', chunks)"
    by (metis prod_cases3)
  with WriteCSV_complete [OF this] show ?thesis by blast
qed

text \<open>C38. The CSV of a table without carriage returns, all of whose rows are as wide as the row of labels, is read back
  as the rows of the table, less those that consist of one empty field; with two columns or more, as the table.\<close>

theorem WriteCSV_read_back:
  assumes "WriteCSV r (recorded sink) (w, []) = (None, w', chunks)"
    and "\<forall>row \<in> set (table r). length row = length (ColumnLabels r) \<and> (\<forall>s \<in> set row. CR \<notin> set s)"
  shows "ReadAll (concat (map fst chunks)) = Some (filter visible (table r)) \<and>
    (2 \<le> length (ColumnLabels r) \<longrightarrow> ReadAll (concat (map fst chunks)) = Some (table r))"
proof -
  have "concat (map fst chunks) = write_records (table r)"
    using WriteCSV_written [OF assms(1)] by (simp add: written_def logged_text_def)
  moreover have "same_width (filter visible (table r))"
    using assms(2) hd_in_set [of "filter visible (table r)"]
    by (cases "filter visible (table r) = []") (auto simp: same_width_def list_all_iff)
  moreover have "filter visible (table r) = table r" if "2 \<le> length (ColumnLabels r)"
    using that assms(2) by (intro filter_True) (auto simp: visible_def)
  ultimately show ?thesis using ReadAll_written [of "table r"] assms(2) by auto
qed

theorem WriteCSV_read_back_witness:
  "\<exists>w' chunks. WriteCSV demo_results (recorded accept) ((), []) = (None, w', chunks) \<and>
     ReadAll (concat (map fst chunks)) = Some [[''name'', ''n''], [''a,b'', ''1.5''], [''<nil>'', ''1e+06'']]"
proof -
  obtain e w' chunks where run: "WriteCSV demo_results (recorded accept) ((), []) = (e, w', chunks)"
    by (metis prod_cases3)
  moreover have e: "e = None" using accept_WriteCSV [of demo_results "((), [])"] run by simp
  moreover have t: "table demo_results = [[''name'', ''n''], [''a,b'', ''1.5''], [''<nil>'', ''1e+06'']]"
    by code_simp
  moreover have "\<forall>row \<in> set (table demo_results). length row = length (ColumnLabels demo_results) \<and> (\<forall>s \<in> set row. CR \<notin> set s)"
    unfolding t by (simp add: demo_results_def CR_def)
  moreover have "2 \<le> length (ColumnLabels demo_results)" by (simp add: demo_results_def)
  ultimately show ?thesis
    using WriteCSV_read_back [of demo_results accept "()" w' chunks] by (metis (no_types))
qed

text \<open>\<open>Unmarshal\<close> returns what \<open>gocsv\<close> makes of the whole CSV text. Its goroutine ends exactly if \<open>gocsv\<close> reads the text to its end:
  when it stops early, at a cell that it cannot convert for example, the goroutine stays blocked in the pipe.\<close>

theorem Unmarshal_result:
  "Unmarshal gocsv r =
     (let text = write_records (table r) in (fst (gocsv text), length text \<le> snd (gocsv text)))"
proof -
  obtain e w' chunks where run: "WriteCSV r (recorded accept) ((), []) = (e, w', chunks)" by (metis prod_cases3)
  have "e = None" using accept_WriteCSV [of r "((), [])"] run by simp
  with WriteCSV_written [OF run] have c: "concat (map fst chunks) = write_records (table r)"
    and "list_all (\<lambda>c. c \<noteq> []) (map fst chunks)"
    by (auto simp: written_def log_defs list_all_iff)
  then show ?thesis by (simp add: Unmarshal_def run drain_all Let_def split: prod.splits)
qed

text \<open>Numbers of seven digits or more are written in scientific notation, integers as well.\<close>

lemma Sprint_large: "7 \<le> dp \<Longrightarrow> ds \<noteq> [] \<Longrightarrow> CHR ''e'' \<in> set (Sprint (Number neg ds dp))"
  by (simp add: Sprint_float_def format_e_def Let_def)

end
