(* ===== verification/Commands.thy ===== *)
theory Commands
  imports ChainTools Services GoTest MetadataJson
begin

text \<open>
  Programs around the packages: the commands that list delegations and holders (\<open>go/cmd/delegations\<close>, \<open>go/cmd/holders\<close>) with
  the binding of the delegation registry (\<open>contracts/delegate/delegate.go\<close>), and the credentials for tests of signed
  addresses (\<open>go/gcstest/gcstest.go\<close>). Dialling, contract bindings, parsing of flags and key generation are arguments.
\<close>

section \<open>The registry of delegations\<close>

definition delegate_Address :: addr where
  "delegate_Address = be_bytes 20 0x76A84feF008CDAbe6409d2FE638B"

definition delegate_New :: "(addr \<Rightarrow> 'c \<Rightarrow> string + registry_calls) \<Rightarrow> 'c \<Rightarrow> string + registry_calls" where
  "delegate_New NewIDelegationRegistry backend = NewIDelegationRegistry delegate_Address backend"

section \<open>Commands\<close>

datatype command_error = CommandDial client_error | CommandBind string | CommandFailed tool_error

text \<open>The result of a command, and the client that was closed.\<close>

type_synonym ('r, 'c) command = "(command_error, 'r) outcome \<times> 'c option"

definition with_dialled :: "(client_error, 'c) outcome \<Rightarrow> ('c \<Rightarrow> (command_error, 'r) outcome) \<Rightarrow> ('r, 'c) command" where
  "with_dialled dialled act =
     (case dialled of
        Ret c \<Rightarrow> (act c, Some c)
      | Fail e \<Rightarrow> (Fail (CommandDial e), None)
      | Panic \<Rightarrow> (Panic, None))"

definition delegations_run ::
  "'g secret_env \<Rightarrow> (bytes \<Rightarrow> string + 'c) \<Rightarrow> (addr \<Rightarrow> 'c \<Rightarrow> string + registry_calls) \<Rightarrow> 'u uint256_api \<Rightarrow> 'u \<Rightarrow>
   (addr list \<Rightarrow> addr list) \<Rightarrow> (address_error, addr list) outcome \<Rightarrow> ('u delegation list \<Rightarrow> (tool_error, string) outcome) \<Rightarrow>
   'g dialer_cfg \<Rightarrow> (string, 'c) command" where
  "delegations_run env dialContext bind api zero sched addrSrc marshal d =
     with_dialled (Dialer_Dial env dialContext d) (\<lambda>c.
       obind (attempt CommandBind (delegate_New bind c)) (\<lambda>reg.
         map_fail CommandFailed (fetchDelegationsAndExportCSV api zero reg sched addrSrc marshal)))"

definition holders_command ::
  "'g secret_env \<Rightarrow> (bytes \<Rightarrow> string + 'c) \<Rightarrow> (addr \<Rightarrow> string) \<Rightarrow> ('c \<Rightarrow> holder_calls) \<Rightarrow> schedule \<Rightarrow>
   (balances \<Rightarrow> addr list) \<Rightarrow> (address_error, addr list) outcome \<Rightarrow> 'g dialer_cfg \<Rightarrow> (string list list, 'c) command" where
  "holders_command env dialContext str calls sched rng addrSrc d =
     with_dialled (Dialer_Dial env dialContext d) (\<lambda>c.
       map_fail CommandFailed (holders_run str (calls c) sched rng (Inr ()) addrSrc))"

text \<open>How a process ends: with an exit code and what it printed to its error output, or by a panic.\<close>

datatype 'e process_end = Exit nat "'e option" | Crash

definition exit_tool :: "'e \<Rightarrow> 'e process_end" where
  "exit_tool e = Exit 1 (Some e)"

text \<open>Both commands have this main; \<open>parse\<close> is what parsing the command line does to the flags.\<close>

definition tool_main ::
  "flag_set \<Rightarrow> secret option \<Rightarrow> (flag_set \<Rightarrow> flag_set) \<Rightarrow> ('g dialer_cfg \<Rightarrow> ('r, 'c) command) \<Rightarrow>
   command_error process_end \<times> 'c option" where
  "tool_main fs dflt parse run_with =
     (case MustNewDialerFromFlag fs dflt [] of
        Ret (opts, fs1) \<Rightarrow>
          (case map_of (flags (parse fs1)) DialerFlag of
             None \<Rightarrow> (Crash, None)
           | Some u \<Rightarrow>
               (case run_with (NewDialer u opts) of
                  (Ret _, closed) \<Rightarrow> (Exit 0 None, closed)
                | (Fail e, closed) \<Rightarrow> (exit_tool e, closed)
                | (Panic, closed) \<Rightarrow> (Crash, closed)))
      | _ \<Rightarrow> (Crash, None))"

definition delegations_main where
  "delegations_main fs dflt parse env dialContext bind api zero sched addrSrc marshal =
     tool_main fs dflt parse (delegations_run env dialContext bind api zero sched addrSrc marshal)"

definition holders_main where
  "holders_main fs dflt parse env dialContext str calls sched rng addrSrc =
     tool_main fs dflt parse (holders_command env dialContext str calls sched rng addrSrc)"

section \<open>Credentials for tests\<close>

text \<open>\<open>rsa.GenerateKey\<close> skips a byte of its random source or not, by a coin of its own.\<close>

record 'k key_tools =
  HashWrite :: "bytes \<Rightarrow> string option"
  GenerateKey :: "bool \<Rightarrow> bytes \<Rightarrow> nat \<Rightarrow> string + 'k"
  MarshalPKCS1 :: "'k \<Rightarrow> bytes"
  PEMEncode :: "string \<Rightarrow> bytes \<Rightarrow> string + string"

definition creds_json :: "string \<Rightarrow> string \<Rightarrow> json" where
  "creds_json email pk = JObj [(''type'', JStr ''service_account''), (''client_email'', JStr email), (''private_key'', JStr pk)]"

text \<open>Every error is fatal for the test. The option of the storage client is made from the JSON of the credentials.\<close>

definition tb_try :: "string + 'a \<Rightarrow> ('a, 's) tested_fun" where
  "tb_try r = tb_call (\<lambda>w. (r, w))"

definition SignedURLClientOption :: "'k key_tools \<Rightarrow> bool \<Rightarrow> (string \<Rightarrow> 'o) \<Rightarrow> string \<Rightarrow> bytes \<Rightarrow> ('o, 's) tested_fun" where
  "SignedURLClientOption kt coin WithCredentialsJSON clientEmail privateKeySeed =
     tbind (tb_try (case HashWrite kt privateKeySeed of Some e \<Rightarrow> Inl e | None \<Rightarrow> Inr ())) (\<lambda>_.
     tbind (tb_try (GenerateKey kt coin privateKeySeed 2048)) (\<lambda>key.
     tbind (tb_try (PEMEncode kt ''RSA PRIVATE KEY'' (MarshalPKCS1 kt key))) (\<lambda>pem.
       tb_try (Inr (WithCredentialsJSON (render (creds_json clientEmail pem)))))))"

section \<open>Properties\<close>

text \<open>A command line that gives the node by its flag, or leaves it at its default.\<close>

definition names_node :: "(flag_set \<Rightarrow> flag_set) \<Rightarrow> secret \<Rightarrow> bool" where
  "names_node parse u \<longleftrightarrow>
     (\<forall>fs. map_of (flags fs) DialerFlag \<noteq> None \<longrightarrow> map_of (flags (parse fs)) DialerFlag = Some u)"

lemma tool_main_dialled:
  assumes "\<not> Parsed fs" and "map_of (flags fs) DialerFlag = None"
    and "names_node parse u"
  shows "tool_main fs dflt parse run_with =
    (case run_with \<lparr>nodeURL = u, secretOpts = []\<rparr> of
       (r, closed) \<Rightarrow> (case r of Ret _ \<Rightarrow> Exit 0 None | Fail e \<Rightarrow> Exit 1 (Some e) | Panic \<Rightarrow> Crash, closed))"
  using assms
  by (simp add: names_node_def tool_main_def MustNewDialerFromFlag_def NewDialerFromFlag_def NewDialer_def exit_tool_def
      split: prod.splits outcome.splits)

text \<open>The command that lists delegations, from its flags to its exit: started with a node that answers and a list of
  vaults, it exports the delegations of all vaults, whatever the order of its goroutines, closes its client, and exits
  with 0 exactly if the export could be written.\<close>

theorem delegations_command:
  assumes "\<not> Parsed fs" and "map_of (flags fs) DialerFlag = None"
    and "names_node parse u"
    and "Fetch env u [] = Ret key" and "dialContext key = Inr c" and "bind delegate_Address c = Inr reg"
    and "uint256_ok api" and "mset (sched vaults) = mset vaults"
    and "\<And>v. v \<in> set vaults \<Longrightarrow> registry_answers reg v (alls v) (cs v) (ts v)"
  shows "\<exists>ds. mset ds = (\<Sum>v \<in># mset vaults. mset (registered api zero v (alls v) (cs v) (ts v))) \<and>
    delegations_main fs dflt parse env dialContext bind api zero sched (Ret vaults) marshal =
      (case marshal ds of Ret _ \<Rightarrow> Exit 0 None | Fail e \<Rightarrow> Exit 1 (Some (CommandFailed e)) | Panic \<Rightarrow> Crash, Some c)"
proof -
  have "\<forall>v \<in> set (sched vaults). vault_delegations api zero reg v = Ret (registered api zero v (alls v) (cs v) (ts v))"
    using assms(9) by (auto simp: mset_eq_setD [OF assms(8)] intro!: vault_delegations_registered [OF assms(7)])
  from append_all_mset [OF this] obtain ds
    where ds: "mset ds = (\<Sum>v \<in># mset (sched vaults). mset (registered api zero v (alls v) (cs v) (ts v)))"
      "append_all (vault_delegations api zero reg) (sched vaults) = Ret ds" by blast
  have "delegations_main fs dflt parse env dialContext bind api zero sched (Ret vaults) marshal =
      (case marshal ds of Ret _ \<Rightarrow> Exit 0 None | Fail e \<Rightarrow> Exit 1 (Some (CommandFailed e)) | Panic \<Rightarrow> Crash, Some c)"
    unfolding delegations_main_def tool_main_dialled [OF assms(1-3)]
    using assms(4-6) ds(2)
    by (simp add: delegations_run_def with_dialled_def Dialer_Dial_def delegate_New_def attempt_def
        fetchDelegationsAndExportCSV_def split: outcome.splits)
  then show ?thesis using ds(1) assms(8) by auto
qed

text \<open>Both commands close the client exactly if they dialled one, and exit without a message only on success.\<close>

theorem commands_close:
  "snd (delegations_run env dialContext bind api zero sched addrSrc marshal d) =
     (case Dialer_Dial env dialContext d of Ret c \<Rightarrow> Some c | _ \<Rightarrow> None) \<and>
   snd (holders_command env dialContext str calls sch rng addrs d) =
     (case Dialer_Dial env dialContext d of Ret c \<Rightarrow> Some c | _ \<Rightarrow> None)"
  by (simp add: delegations_run_def holders_command_def with_dialled_def split: outcome.splits)

text \<open>The credentials determine the account and the key: for texts in ASCII, equal credentials have equal parts.\<close>

theorem creds_determined:
  assumes "list_all ascii e" and "list_all ascii e'" and "list_all ascii p" and "list_all ascii p'"
  shows "render (creds_json e p) = render (creds_json e' p') \<longleftrightarrow> e = e' \<and> p = p'"
proof -
  have "readable (creds_json a b)" if "list_all ascii a" "list_all ascii b" for a b
    using that by (simp add: creds_json_def) code_simp
  then show ?thesis using assms by (subst render_inject) (simp_all add: creds_json_def)
qed

end
