(* ===== verification/TsGen.thy ===== *)
theory TsGen
  imports GoText
begin

text \<open>
  The generator of TypeScript bindings (\<open>bazel/ts_proto_library/grpc_gen_ts/main.go\<close>) with its template
  (\<open>servicedef.go.tmpl\<close>). The output is modelled by its parts, without white space: what the template writes for a service
  is the definition of its methods, a constructor and a client class. Descriptors come from \<open>protoc\<close>: services, methods and
  their types have names; a file has a package or not. Unmarshalling is an argument.
\<close>

section \<open>Descriptors\<close>

record method_desc =
  m_Name :: string
  InputType :: string
  OutputType :: string
  ClientStreaming :: bool
  ServerStreaming :: bool

record service_desc =
  svc_Name :: string
  svc_Method :: "method_desc list"

record file_desc =
  Package :: "string option"
  file_Service :: "service_desc list"

section \<open>Functions of the template\<close>

definition namespaces :: "string \<Rightarrow> string list" where
  "namespaces pkg = split_char (CHR ''.'') pkg"

definition join_strings :: "string \<Rightarrow> string list \<Rightarrow> string" where
  "join_strings delim ss = (case ss of [] \<Rightarrow> [] | s # rest \<Rightarrow> s @ concat (map (\<lambda>t. delim @ t) rest))"

definition streaming :: "method_desc \<Rightarrow> string" where
  "streaming m =
     (if ClientStreaming m \<and> ServerStreaming m then ''bidi''
      else if ClientStreaming m \<and> \<not> ServerStreaming m then ''client''
      else if ServerStreaming m \<and> \<not> ClientStreaming m then ''server''
      else ''unary'')"

section \<open>The template\<close>

text \<open>An entry of a service definition, and a method of the client class.\<close>

record method_def =
  def_name :: string
  path :: string
  requestStream :: bool
  responseStream :: bool
  input_class :: string
  output_class :: string

datatype client_method =
    PromiseOf string string string
  | Unsupported string string
  | ReadableStream string string string
  | DuplexStream string string string

datatype ts =
    Imports string string
  | OpenNamespace string
  | ServiceDefinition string "method_def list"
  | ClientConstructor string string
  | ClientClass string "client_method list"
  | CloseNamespace

definition method_entry :: "string \<Rightarrow> string \<Rightarrow> method_desc \<Rightarrow> method_def" where
  "method_entry pkg svc m =
     \<lparr>def_name = m_Name m, path = ''/'' @ pkg @ ''.'' @ svc @ ''/'' @ m_Name m,
      requestStream = ClientStreaming m, responseStream = ServerStreaming m,
      input_class = join_strings [] [''pb'', InputType m], output_class = join_strings [] [''pb'', OutputType m]\<rparr>"

text \<open>Four conditional blocks, one after the other.\<close>

definition client_methods :: "method_desc \<Rightarrow> client_method list" where
  "client_methods m =
     (let i = join_strings [] [''pb'', InputType m]; o' = join_strings [] [''pb'', OutputType m] in
      (if streaming m = ''unary'' then [PromiseOf (m_Name m) i o'] else []) @
      (if streaming m = ''client'' then [Unsupported (m_Name m) i] else []) @
      (if streaming m = ''server'' then [ReadableStream (m_Name m) i o'] else []) @
      (if streaming m = ''bidi'' then [DuplexStream (m_Name m) i o'] else []))"

definition service_parts :: "string \<Rightarrow> service_desc \<Rightarrow> ts list" where
  "service_parts pkg s =
     [ServiceDefinition (svc_Name s) (map (method_entry pkg (svc_Name s)) (svc_Method s)),
      ClientConstructor (svc_Name s) (join_strings ''.'' [pkg, svc_Name s]),
      ClientClass (svc_Name s) (concat (map client_methods (svc_Method s)))]"

definition file_parts :: "string \<Rightarrow> service_desc list \<Rightarrow> ts list" where
  "file_parts pkg ss =
     map OpenNamespace (namespaces pkg) @ concat (map (service_parts pkg) ss) @ map (\<lambda>_. CloseNamespace) (namespaces pkg)"

text \<open>
  Execution writes part after part. It stops at an error of the writer, and at a file without package: \<open>namespaces\<close>
  takes a string, and the template cannot dereference a nil pointer.
\<close>

datatype gen_error = ReadAllError string | UnmarshalError string | NilPackage | DestError string

fun write_parts :: "(ts \<Rightarrow> string option) \<Rightarrow> ts list \<Rightarrow> ts list \<times> gen_error option" where
  "write_parts dest [] = ([], None)"
| "write_parts dest (p # ps) =
     (case dest p of
        Some e \<Rightarrow> ([], Some (DestError e))
      | None \<Rightarrow> (case write_parts dest ps of (out, e) \<Rightarrow> (p # out, e)))"

fun write_files :: "(ts \<Rightarrow> string option) \<Rightarrow> file_desc list \<Rightarrow> ts list \<times> gen_error option" where
  "write_files dest [] = ([], None)"
| "write_files dest (f # fs) =
     (case Package f of
        None \<Rightarrow> ([], Some NilPackage)
      | Some pkg \<Rightarrow>
          (case write_parts dest (file_parts pkg (file_Service f)) of
             (out, Some e) \<Rightarrow> (out, Some e)
           | (out, None) \<Rightarrow> (case write_files dest fs of (out', e) \<Rightarrow> (out @ out', e))))"

definition execute :: "(ts \<Rightarrow> string option) \<Rightarrow> string \<Rightarrow> string \<Rightarrow> file_desc list \<Rightarrow> ts list \<times> gen_error option" where
  "execute dest pbTarget workspaceRelPath files =
     (case write_parts dest [Imports pbTarget workspaceRelPath] of
        (out, Some e) \<Rightarrow> (out, Some e)
      | (out, None) \<Rightarrow> (case write_files dest files of (out', e) \<Rightarrow> (out @ out', e)))"

section \<open>The program\<close>

definition descriptors :: "(string \<Rightarrow> string + file_desc list) \<Rightarrow> string + string \<Rightarrow> gen_error + file_desc list" where
  "descriptors unmarshal src =
     (case src of
        Inl e \<Rightarrow> Inl (ReadAllError e)
      | Inr b \<Rightarrow> (case unmarshal b of Inl e \<Rightarrow> Inl (UnmarshalError e) | Inr fs \<Rightarrow> Inr fs))"

definition gen_run ::
  "(string \<Rightarrow> string + file_desc list) \<Rightarrow> string + string \<Rightarrow> (ts \<Rightarrow> string option) \<Rightarrow> string \<Rightarrow> string \<Rightarrow>
   ts list \<times> gen_error option" where
  "gen_run unmarshal src dest pbTarget workspaceRelPath =
     (case descriptors unmarshal src of
        Inl e \<Rightarrow> ([], Some e)
      | Inr files \<Rightarrow> execute dest pbTarget workspaceRelPath files)"

section \<open>Properties\<close>

text \<open>Nesting of namespaces.\<close>

fun depth :: "nat \<Rightarrow> ts list \<Rightarrow> nat option" where
  "depth n [] = Some n"
| "depth n (OpenNamespace _ # ps) = depth (Suc n) ps"
| "depth n (CloseNamespace # ps) = (case n of 0 \<Rightarrow> None | Suc k \<Rightarrow> depth k ps)"
| "depth n (_ # ps) = depth n ps"

lemma depth_append: "depth n (ps @ qs) = Option.bind (depth n ps) (\<lambda>k. depth k qs)"
  by (induction n ps rule: depth.induct) (auto split: nat.splits)

lemma depth_open: "depth n (map OpenNamespace ns) = Some (n + length ns)"
  by (induction ns arbitrary: n) simp_all

lemma depth_close: "depth (n + length ns) (map (\<lambda>_. CloseNamespace) ns) = Some n"
  by (induction ns) simp_all

lemma depth_services: "depth n (concat (map (service_parts pkg) ss)) = Some n"
  by (induction ss) (simp_all add: service_parts_def)

lemma depth_file: "depth n (file_parts pkg ss) = Some n"
  by (simp add: file_parts_def depth_append depth_open depth_services depth_close)

lemma write_parts_ok: "(\<And>p. dest p = None) \<Longrightarrow> write_parts dest ps = (ps, None)"
  by (induction ps) simp_all

lemma write_files_ok:
  "(\<And>p. dest p = None) \<Longrightarrow> write_files dest (map (\<lambda>(pkg, ss). \<lparr>Package = Some pkg, file_Service = ss\<rparr>) fs) =
     (concat (map (\<lambda>(pkg, ss). file_parts pkg ss) fs), None)"
  by (induction fs) (auto simp: write_parts_ok)

lemma depth_files: "depth n (concat (map (\<lambda>(pkg, ss). file_parts pkg ss) fs)) = Some n"
  by (induction fs) (auto simp: depth_append depth_file)

text \<open>For files with packages the generator writes the parts of every file, in order, with balanced namespaces.\<close>

theorem gen_run_complete:
  assumes "unmarshal b = Inr (map (\<lambda>(pkg, ss). \<lparr>Package = Some pkg, file_Service = ss\<rparr>) fs)" and "\<And>p. dest p = None"
  shows "\<exists>out. gen_run unmarshal (Inr b) dest target rel = (Imports target rel # out, None) \<and>
    out = concat (map (\<lambda>(pkg, ss). file_parts pkg ss) fs) \<and> depth 0 out = Some 0"
  using assms
  by (simp add: gen_run_def descriptors_def execute_def write_files_ok depth_files)

text \<open>Every method has exactly one method of the client class, whose kind fits the streaming flags of its definition.\<close>

theorem client_methods_fit:
  "client_methods m =
     [let d = method_entry pkg svc m in
      if requestStream d then (if responseStream d then DuplexStream (def_name d) (input_class d) (output_class d)
                               else Unsupported (def_name d) (input_class d))
      else if responseStream d then ReadableStream (def_name d) (input_class d) (output_class d)
      else PromiseOf (def_name d) (input_class d) (output_class d)]"
  by (simp add: client_methods_def method_entry_def streaming_def Let_def)

text \<open>A file without package ends the output in the middle, with an error; the files before it have been written.\<close>

theorem gen_run_nil_package:
  assumes "unmarshal b = Inr (map (\<lambda>(pkg, ss). \<lparr>Package = Some pkg, file_Service = ss\<rparr>) fs @ f # rest)"
    and "Package f = None" and "\<And>p. dest p = None"
  shows "gen_run unmarshal (Inr b) dest target rel =
    (Imports target rel # concat (map (\<lambda>(pkg, ss). file_parts pkg ss) fs), Some NilPackage)"
proof -
  have "write_files dest (map (\<lambda>(pkg, ss). \<lparr>Package = Some pkg, file_Service = ss\<rparr>) fs @ f # rest) =
      (concat (map (\<lambda>(pkg, ss). file_parts pkg ss) fs), Some NilPackage)"
    by (induction fs) (auto simp: assms(2) write_parts_ok assms(3))
  then show ?thesis using assms(1,3) by (simp add: gen_run_def descriptors_def execute_def)
qed

end
