(* ===== verification/Spec2Isabelle.thy ===== *)
theory Spec2Isabelle
  imports Shuffle Convolution Toggle UsbWallet HttpErr Erc721 Rarity MetadataJson Nullable Dbtx Coverage
    FirehoseTest HydrantService EntropyServer Flagtype Spawner OauthSrc EthKms ChainTools SimBackend Ipfs Services
    GrpcTest DiscordBot DemoServer TestSetup FlipsideQueries Commands TsGen
begin

text \<open>
  A verification library for solgo, a repository of Go packages for services around Ethereum: numerical
  packages, concurrency and error helpers, a server of NFT metadata, access to blocks, logs and keys, the
  streaming of contract events, and tools and test doubles.

  \<^bold>\<open>Conventions.\<close> A Go call that returns a value and an error is a value of \<open>outcome\<close> (theory Prelude): \<open>Ret\<close>, \<open>Fail\<close> with
  an error of a datatype of the component, or \<open>Panic\<close> for a run-time panic. Structs are records, enumerations and
  error kinds are datatypes, fixed-width integers are words, \<open>big.Int\<close> is \<open>int\<close>, a Go map is an association list or
  a map, and its order of iteration is an argument. State is passed explicitly; goroutines that interleave are
  step relations over a record with a program counter per goroutine, or, where they only meet at one
  critical section, an order that is an argument. A loop that may not end is a \<open>partial_function (option)\<close>, and that it ends is
  then a theorem, as is that it does not where the code polls for ever; no definition has a fuel argument. Code outside the repository (go-ethereum, gRPC, uint256, the ABI
  package, cloud services, JSON and HTTP clients) is an argument, a record of functions, and what is relied upon is a
  predicate with a name that ends in \<open>ok\<close> or describes it, for which an instance is given. Logging is left out, and error texts are
  modelled by what they carry.

  \<^bold>\<open>Interfaces.\<close> Prelude states the contracts that several components implement as locales: \<open>invariant_system\<close> (an initial
  predicate, a step relation and an invariant, from which invariance over reachable states follows) is
  interpreted by Shuffle, Toggle, UsbWallet, Coverage, HydrantStream, HydrantService, EntropyServer, GrpcTest and DiscordBot; \<open>progress_system\<close> (a measure
  that every step decreases, and states at rest, from which bounded runs and reaching rest follow) by DiscordBot; \<open>refinement\<close> (an abstract system that predicts
  the labels of a concrete one) by Toggle; \<open>codec\<close> (an encoder and its decoder) by Erc721 and Flagtype. Transform has \<open>transform_pair\<close>, which FFT
  provides and Convolution uses; Toggle \<open>condition\<close>, what its waiters rely on; HttpErr \<open>error_writer\<close>, which the metadata server implements as well; Dbtx
  \<open>memory_view\<close>; Secrets \<open>guarded_call\<close> for interceptors; GoTest \<open>test_resource\<close>, what a test starts and its clean-up stops, with an interpretation for each kind
  of thing that TestSetup starts.

  \<^bold>\<open>Components, by theory.\<close>

  \<^item> Shuffle (\<open>go/shuffle\<close>): the partial Fisher-Yates shuffle over a sparse pool. The pool stays a permutation, every
    permutation is drawn exactly once per sequence of random numbers, sizes wrap around at 32 bits.
  \<^item> GoBig, ModArith, Galois, Transform, FFT, Convolution (\<open>go/galois\<close>): modular arithmetic on \<open>big.Int\<close>, roots of unity, the recursive
    FFT and convolution. The FFT equals the defining sum and is inverted by the inverse transform; \<open>Convolve\<close> equals the
    schoolbook product of polynomials.
  \<^item> Toggle (\<open>go/sync/toggle.go\<close>): the condition that can be waited for. Its runs with interleaved setters, waiters and closers
    refine an atomic flag, waiters wake up.
  \<^item> UsbWallet (\<open>go/usbwallet\<close>): the event loop that opens and closes devices, accounts and signers. The availability toggle is set
    exactly when a device is open, in every reachable state.
  \<^item> HttpErr (\<open>go/httperr\<close>), TokenId, Erc721Server, Erc721, MetadataJson, Rarity with Float64 (\<open>go/erc721\<close>): which errors reach HTTP clients; token IDs; the metadata and
    image handlers, which never serve tokens that are not minted; the registry of collections; the JSON of metadata, which determines the metadata,
    and so does its hash; signed addresses; rarity scores, whose mean is one up to a bound on the rounding errors of \<open>float64\<close>.
  \<^item> EthBlocks, Nullable (\<open>go/eth\<close>): the binary search for the last block by a time, address lists, amounts; nullable values in CSV and JSON.
  \<^item> Dbtx (\<open>go/dbtx\<close>, with the memory conversion of \<open>go/memconv\<close>): transactions with commit and rollback, advisory locks.
  \<^item> Solcover, Coverage (\<open>go/solcover\<close>): disassembly, source maps, locations, and the tracers that count lines, for all collectors that share
    the global registries.
  \<^item> EthProto (\<open>proto/eth\<close>): typed Solidity values, events and their signatures. Hydrant (\<open>go/firehose/ethservice.go\<close>): extraction of events
    from logs and blocks. HydrantStream (\<open>go/firehose/firehose.go\<close> and the adaptor): the goroutines and channels between upstream and client; what is
    received is a prefix without gaps, and the end of the stream is never a silent truncation. HydrantService: the servers and clients of each network and the loop of
    \<open>events\<close> as one function, which the goroutines implement, so that server and client agree. FirehoseTest (\<open>firehosetest\<close>):
    the fake server; composed with the stream, a test collects exactly the requested blocks.
  \<^item> EthSigner (\<open>go/eth/signer.go\<close>), EthKms (\<open>go/ethkms\<close>), EntropyServer (\<open>contracts/entropy/entropyserver\<close>): signatures and who they recover to;
    the entropy of a block is given out only after the block was mined, for every interleaving of requests with the cache.
  \<^item> Secrets (\<open>go/secrets\<close>, \<open>go/protovalid\<close>), Flagtype (\<open>go/flagtype\<close>), Spawner (\<open>go/spawner\<close>): sources of secrets, validating interceptors, flag
    values with their round trips, spawned processes.
  \<^item> RestApis (\<open>go/flipside\<close>, \<open>go/tenderly\<close>), FlipsideQueries with GoCsv (\<open>go/flipside/flipside.go\<close>), OauthSrc (\<open>go/oauthsrc\<close>): clients of HTTP services over a world that changes between
    calls: polling that ends with its context, complete paging, clean-up of forks, tokens; results as CSV, which is read back, and the pipe that
    reads it into structs.
  \<^item> ChainTools (\<open>contracts/delegate\<close>, \<open>go/cmd/delegations\<close>, \<open>go/cmd/holders\<close>, \<open>go/gnosis\<close>), Commands (their \<open>main\<close> functions, and \<open>go/gcstest\<close>), TsGen (\<open>bazel/ts_proto_library\<close>), Ipfs (\<open>go/ipfs\<close>), SimBackend (\<open>go/ethtest\<close>): command-line
    tools, whose results do not depend on the order of their goroutines; the IPFS wrapper; the simulated chain for tests.
  \<^item> Services (\<open>go/eth/client.go\<close>, \<open>go/firehose/hydrant\<close>): dialling, backends that split reads from writes, the Hydrant binary, which closes its connection on
    every path. DemoServer (\<open>demo/server\<close>): the demo from its start to its answers.
  \<^item> DiscordBot (\<open>go/discordbot\<close>): connecting, with the race between the Ready event and the end of the context; the error handler under its lock, where every
    reported error is delivered once, and the deadlock of handlers that call back; reactions.
  \<^item> GrpcTest (\<open>go/grpctest\<close>), GoTest and TestSetup (the set-up functions for tests of \<open>go/ethtest\<close>, \<open>go/spawner\<close>, \<open>go/grpctest\<close> and
    \<open>go/firehose/firehosetest\<close>): in-memory servers, whose clean-up completes in every interleaving once pending RPCs have; what tests start and what is left afterwards.
  \<^item> GoText holds what is used of Go's standard library on text and numbers, with decimal and big-endian round trips; GoCsv its CSV writer and reader.
  \<^item> This theory composes the Hydrant server with the fake Firehose.

  \<^bold>\<open>Bounds.\<close> \<open>int\<close> is 64 bits wide. Hypotheses on sizes are those under which the code's own conversions do not wrap: pools
  below \<open>2^32\<close>, block numbers below \<open>2^63 - 1\<close>, token IDs below \<open>2^256\<close>, collections of at most \<open>2^50\<close> tokens. Where the code wraps within its domain, the model does too.

  \<^bold>\<open>Not modelled.\<close> \<open>go/galois/polynomial.go\<close> calls two methods that its package does not have, and no build target has it: what it
  computes is not determined. Every other component has its theory; what is missing is within them. The bounds of the exponents of \<open>float64\<close>, its infinities and NaN, and fused multiplications and additions are not
  modelled. The two arguments of \<open>Convolve\<close> are taken to share no backing array. \<open>go/flipside/flipside.go\<close> does not compile with the rest of its package either, but is complete in itself
  and modelled as its own. Parsing of command lines, functions that only return a
  printed type or a library's option, and logging are left out, and so are floating-point views of memory. The output of the template tool is modelled by its parts, without
  white space. Generated bindings and Solidity sources are outside the scope.
\<close>

section \<open>The Hydrant server on the fake Firehose\<close>

text \<open>The loop of the server on a stream of responses that ends.\<close>

definition answer :: "(sf_block \<Rightarrow> eth_block) \<Rightarrow> sf_block \<Rightarrow> block_response" where
  "answer blk b = \<lparr>o_Block = blk b, o_Cursor = blockCursor (sf_Number b), FirehoseBlock = b, FirehoseStep = 0\<rparr>"

lemma events_loop_extracts:
  "(\<And>b. b \<in> set bs \<Longrightarrow> extract_block env exs contracts b = Ret (blk b)) \<Longrightarrow>
   events_loop env exs contracts (\<lambda>_. None) (map Resp (map block_resp bs) @ [Eof]) = (map (answer blk) bs, Ended None)"
  by (induction bs) (simp_all add: block_resp_def answer_def)

lemma events_loop_stops:
  "(\<And>b. b \<in> set bs \<Longrightarrow> extract_block env exs contracts b = Ret (blk b)) \<Longrightarrow> extract_block env exs contracts c = Fail err \<Longrightarrow>
   events_loop env exs contracts (\<lambda>_. None) (map Resp (map block_resp (bs @ c # cs)) @ [Eof]) =
     (map (answer blk) bs, Ended (Some (ExtractError err)))"
  by (induction bs) (simp_all add: block_resp_def answer_def)

text \<open>C18. Server and fake together: for a valid request, the Hydrant server on a fake Firehose with blocks queued in the order of
  their numbers answers with the extracted events of exactly the blocks from the start up to and including the stop, each with the
  cursor of its block, and then ends; when a block of the range does not decode, it answers with the blocks before it and ends with that error.\<close>

theorem server_on_fake:
  assumes "\<And>b. anyNew b = None" and "\<And>r. srvSend r = None"
    and "v req = None" and "build_extractors env (Signatures req) ([], []) = Ret (exs, sigs)"
    and "0 \<le> StartBlockNum req" and "sorted (map sf_Number bs)"
    and "filter (in_range (word_of_int (StartBlockNum req)) (StopBlockNum req)) bs = good @ rest"
    and "\<And>b. b \<in> set good \<Longrightarrow> extract_block env exs (map (right_aligned 20) (Contracts req)) b = Ret (blk b)"
    and "rest = [] \<or> extract_block env exs (map (right_aligned 20) (Contracts req)) (hd rest) = Fail err"
  shows "server_Events env v (\<lambda>r. Inr (hose_stream describe (hose_Blocks anyNew srvSend r bs))) (\<lambda>_. None) req =
    Ret (map (answer blk) good, Ended (if rest = [] then None else Some (ExtractError err)))"
proof -
  define breq where "breq = \<lparr>EventSignatures = sigs, Addresses = Contracts req, hose_Start = StartBlockNum req,
    hose_Stop = StopBlockNum req, hose_Cursor = Cursor req\<rparr>"
  have "hose_stream describe (hose_Blocks anyNew srvSend breq bs) = map Resp (map block_resp (good @ rest)) @ [Eof]"
    using assms(5) hose_loop_filter [OF assms(1,2,6)] by (simp add: breq_def hose_Blocks_def hose_stream_def assms(7))
  moreover have "events_loop env exs (map (right_aligned 20) (Contracts req)) (\<lambda>_. None) (map Resp (map block_resp (good @ rest)) @ [Eof]) =
      (map (answer blk) good, Ended (if rest = [] then None else Some (ExtractError err)))"
    using assms(9) events_loop_extracts [OF assms(8)] events_loop_stops [OF assms(8), where c = "hd rest" and cs = "tl rest"]
    by (cases rest) auto
  ultimately show ?thesis
    using assms(3,4) by (simp add: server_Events_def events_def events_setup_def attempt_def flip: breq_def)
qed

theorem server_on_fake_witness:
  "server_Events demo_eth_env (\<lambda>_. None) (\<lambda>r. Inr (hose_stream (\<lambda>e. []) (hose_Blocks (\<lambda>b. None) (\<lambda>r. None) r demo_blocks)))
     (\<lambda>_. None) \<lparr>Signatures = [], Contracts = [], StartBlockNum = 3, StopBlockNum = 4, Cursor = []\<rparr> =
   Ret ([demo_out], Ended None)"
proof -
  have "sorted (map sf_Number demo_blocks)"
    by (simp add: demo_blocks_def empty_block_def)
  moreover have "filter (in_range 3 4) demo_blocks = [empty_block]"
    by (simp add: demo_blocks_def empty_block_def in_range_def)
  moreover have "blockCursor 4 = ''block[4]''" by code_simp
  moreover have "sf_Number empty_block = 4" by (simp add: empty_block_def)
  ultimately show ?thesis
    using server_on_fake [of "\<lambda>b. None" "\<lambda>r. None" "\<lambda>_. None"
        "\<lparr>Signatures = [], Contracts = [], StartBlockNum = 3, StopBlockNum = 4, Cursor = []\<rparr>" demo_eth_env "[]" "[]" demo_blocks
        "[empty_block]" "[]" "\<lambda>_. o_Block demo_out"]
    by (simp add: empty_block_extracts answer_def demo_out_def)
qed

end
